(* ===== verification/Nss_Prelude.thy ===== *)
theory Nss_Prelude
  imports Main "HOL-Library.List_Lexorder" "HOL-Library.Char_ord"
begin

text \<open>
  Shared vocabulary of the development: the collections of rewrite rules the component
  theories extend, association lists for Go's \<open>map[string]string\<close>, and the generic facts
  on lists that several components use.

  Go strings are byte strings, so \<open>string\<close> (a list of \<open>char\<close>, one byte each) has the
  right length. A Go map is an association list read through \<open>map_of\<close>; where the code
  distinguishes a nil map from an empty one the model wraps it in an option.
\<close>

named_theorems proc_simps \<open>computation rules of handlers and of their weakest preconditions\<close>
named_theorems response_simps \<open>rules that decode the answers of the environment\<close>
named_theorems string_simps \<open>facts on the string functions of the Go library\<close>

type_synonym labels = "(string \<times> string) list"

section \<open>Go maps with string keys and values\<close>

text \<open>\<open>m[k]\<close> of a key that is absent is the empty string.\<close>

definition map_get :: "labels \<Rightarrow> string \<Rightarrow> string" where
  "map_get m k = (case map_of m k of None \<Rightarrow> [] | Some v \<Rightarrow> v)"

fun map_put :: "labels \<Rightarrow> string \<Rightarrow> string \<Rightarrow> labels" where
  "map_put [] k v = [(k, v)]"
| "map_put ((k', v') # m) k v = (if k' = k then (k, v) # m else (k', v') # map_put m k v)"

definition map_put_all :: "labels \<Rightarrow> labels \<Rightarrow> labels" where
  "map_put_all m kvs = foldl (\<lambda>acc (k, v). map_put acc k v) m kvs"

text \<open>A label set matches a selector when it holds every pair of the selector.\<close>

definition labels_match :: "labels \<Rightarrow> labels \<Rightarrow> bool" where
  "labels_match sel m \<longleftrightarrow> (\<forall>(k, v) \<in> set sel. map_of m k = Some v)"

lemma map_of_put [simp]: "map_of (map_put m k v) = (map_of m)(k \<mapsto> v)"
  by (induction m k v rule: map_put.induct) auto

lemma map_get_put [simp]: "map_get (map_put m k v) k' = (if k' = k then v else map_get m k')"
  by (simp add: map_get_def)

lemma map_put_all_Nil [simp]: "map_put_all m [] = m"
  by (simp add: map_put_all_def)

lemma map_put_all_Cons [simp]: "map_put_all m ((k, v) # kvs) = map_put_all (map_put m k v) kvs"
  by (simp add: map_put_all_def)

lemma map_put_same: "map_of m k = Some v \<Longrightarrow> map_put m k v = m"
  by (induction m k v rule: map_put.induct) (auto split: if_splits)

lemma labels_match_Nil [simp]: "labels_match [] m"
  by (simp add: labels_match_def)

lemma labels_match_Cons [simp]:
  "labels_match ((k, v) # sel) m \<longleftrightarrow> map_of m k = Some v \<and> labels_match sel m"
  by (simp add: labels_match_def)

section \<open>Lists\<close>

lemma take_append_keep: "xs \<noteq> [] \<Longrightarrow> 0 < n \<Longrightarrow> hd (take n xs) = hd xs"
  by (cases xs; cases n) auto

lemma those_SomeD: "those (map f xs) = Some ys \<Longrightarrow> map f xs = map Some ys"
  by (induction xs arbitrary: ys) (auto split: option.splits)

lemma those_map_Some [simp]: "(\<And>x. x \<in> set xs \<Longrightarrow> f x = Some (g x)) \<Longrightarrow> those (map f xs) = Some (map g xs)"
  by (induction xs) auto

lemma sum_list_update_nat:
  "i < length xs \<Longrightarrow> sum_list (xs[i := y]) + xs ! i = sum_list xs + (y :: nat)"
  by (induction xs arbitrary: i) (auto split: nat.split)

lemma sum_list_ge_nth: "i < length xs \<Longrightarrow> (xs ! i :: nat) \<le> sum_list xs"
  by (induction xs arbitrary: i) (auto simp: nth_Cons' trans_le_add2)

lemma sorted_perm_eq:
  "set xs = set ys \<Longrightarrow> distinct xs \<Longrightarrow> distinct ys \<Longrightarrow> sort xs = sort (ys :: string list)"
  by (metis finite_set sorted_list_of_set_sort_remdups distinct_remdups_id)

end
