(* ===== verification/Go_Strings.thy ===== *)
theory Go_Strings
  imports Nss_Prelude
begin

text \<open>
  The functions of Go's \<open>strings\<close>, \<open>strconv\<close> and \<open>fmt\<close> packages that the operator uses:
  splitting and joining on a separator, trimming, prefix tests, quoting and decimal output.
  The split of a join is the list itself when no element holds the separator and the list is
  not empty; the ConfigMap's \<open>namespaces\<close> value rests on that round trip.
\<close>

section \<open>Split and Join\<close>

fun split_on :: "char \<Rightarrow> string \<Rightarrow> string list" where
  "split_on c [] = [[]]"
| "split_on c (x # xs) =
     (if x = c then [] # split_on c xs
      else (case split_on c xs of [] \<Rightarrow> [[x]] | w # ws \<Rightarrow> (x # w) # ws))"

fun join_with :: "string \<Rightarrow> string list \<Rightarrow> string" where
  "join_with sep [] = []"
| "join_with sep [x] = x"
| "join_with sep (x # y # ys) = x @ sep @ join_with sep (y # ys)"

lemma split_on_not_Nil [simp]: "split_on c s \<noteq> []"
  by (induction s) (auto split: list.splits)

lemma split_on_no_sep [string_simps]: "c \<notin> set s \<Longrightarrow> split_on c s = [s]"
  by (induction s) auto

lemma split_on_append [string_simps]:
  "c \<notin> set s \<Longrightarrow> split_on c (s @ c # t) = s # split_on c t"
  by (induction s) (auto split: list.splits)

lemma split_on_join [string_simps]:
  "xs \<noteq> [] \<Longrightarrow> \<forall>x \<in> set xs. c \<notin> set x \<Longrightarrow> split_on c (join_with [c] xs) = xs"
  by (induction "[c]" xs rule: join_with.induct) (auto simp: string_simps)

lemma join_split_on [string_simps]: "join_with [c] (split_on c s) = s"
proof (induction s)
  case Nil
  then show ?case by simp
next
  case (Cons x s)
  obtain w ws where "split_on c s = w # ws"
    by (cases "split_on c s") auto
  with Cons show ?case
    by (cases ws) auto
qed

lemma split_on_pieces: "w \<in> set (split_on c s) \<Longrightarrow> c \<notin> set w"
  by (induction s arbitrary: w) (auto split: if_splits list.splits)

lemma join_with_eq_Nil: "(\<And>x. x \<in> set xs \<Longrightarrow> x \<noteq> []) \<Longrightarrow> join_with sep xs = [] \<longleftrightarrow> xs = []"
  by (induction sep xs rule: join_with.induct) auto

section \<open>Trimming and prefixes\<close>

definition trim_right :: "char list \<Rightarrow> string \<Rightarrow> string" where
  "trim_right cutset s = rev (dropWhile (\<lambda>c. c \<in> set cutset) (rev s))"

text \<open>The ASCII white space that \<open>strings.TrimSpace\<close> removes: tab, LF, VT, FF, CR, blank.\<close>

definition is_space :: "char \<Rightarrow> bool" where
  "is_space c \<longleftrightarrow> c \<in> {CHR 0x09, CHR 0x0A, CHR 0x0B, CHR 0x0C, CHR 0x0D, CHR 0x20}"

definition trim_space :: "string \<Rightarrow> string" where
  "trim_space s = rev (dropWhile is_space (rev (dropWhile is_space s)))"

fun has_prefix :: "string \<Rightarrow> string \<Rightarrow> bool" where
  "has_prefix [] s = True"
| "has_prefix (p # ps) [] = False"
| "has_prefix (p # ps) (c # cs) = (p = c \<and> has_prefix ps cs)"

lemma has_prefix_iff [string_simps]: "has_prefix p s \<longleftrightarrow> (\<exists>t. s = p @ t)"
  by (induction p s rule: has_prefix.induct) auto

lemma trim_right_prefix: "\<exists>t. s = trim_right cs s @ t \<and> set t \<subseteq> set cs"
proof -
  have "s = trim_right cs s @ rev (takeWhile (\<lambda>c. c \<in> set cs) (rev s))"
    unfolding trim_right_def by (metis rev_append rev_rev_ident takeWhile_dropWhile_id)
  moreover have "set (rev (takeWhile (\<lambda>c. c \<in> set cs) (rev s))) \<subseteq> set cs"
    by (auto dest: set_takeWhileD)
  ultimately show ?thesis by blast
qed

lemma trim_right_length: "length (trim_right cs s) \<le> length s"
proof -
  have "length (dropWhile (\<lambda>c. c \<in> set cs) (rev s)) \<le> length (rev s)"
    by (rule length_dropWhile_le)
  then show ?thesis
    by (simp add: trim_right_def)
qed

lemma trim_right_last: "trim_right cs s \<noteq> [] \<Longrightarrow> last (trim_right cs s) \<notin> set cs"
  by (metis trim_right_def last_rev hd_dropWhile rev_is_Nil_conv)

section \<open>Decimal numbers and quoting\<close>

definition digit_char :: "nat \<Rightarrow> char" where
  "digit_char d = char_of (48 + d mod 10)"

fun show_nat :: "nat \<Rightarrow> string" where
  "show_nat n = (if n < 10 then [digit_char n] else show_nat (n div 10) @ [digit_char n])"

declare show_nat.simps [simp del]

text \<open>Decimal with at least \<open>w\<close> digits, padded with zeros on the left.\<close>

definition show_pad :: "nat \<Rightarrow> nat \<Rightarrow> string" where
  "show_pad w n = (let s = show_nat n in replicate (w - length s) CHR ''0'' @ s)"

definition hex_digit :: "nat \<Rightarrow> char" where
  "hex_digit d = ''0123456789abcdef'' ! (d mod 16)"

text \<open>The verb \<open>%q\<close> on ASCII text: quotes, backslashes and control characters are escaped.\<close>

definition quote_char :: "char \<Rightarrow> string" where
  "quote_char c =
     (let n = (of_char c :: nat) in
      if c = CHR 0x22 \<or> c = CHR 0x5C then [CHR 0x5C, c]
      else if n = 7 then CHR 0x5C # ''a'' else if n = 8 then CHR 0x5C # ''b''
      else if n = 9 then CHR 0x5C # ''t'' else if n = 10 then CHR 0x5C # ''n''
      else if n = 11 then CHR 0x5C # ''v'' else if n = 12 then CHR 0x5C # ''f''
      else if n = 13 then CHR 0x5C # ''r''
      else if n < 32 \<or> n = 127 then CHR 0x5C # CHR ''x'' # hex_digit (n div 16) # [hex_digit n]
      else [c])"

definition quote :: "string \<Rightarrow> string" where
  "quote s = CHR 0x22 # concat (map quote_char s) @ [CHR 0x22]"

lemma show_nat_not_Nil [simp]: "show_nat n \<noteq> []"
  by (subst show_nat.simps) simp

end
