(* ===== verification/Kube_Objects.thy ===== *)
theory Kube_Objects
  imports Go_Strings
begin

text \<open>
  The data of the operator: the \<open>NamespaceScope\<close> resource of \<open>api/v1/namespacescope_types.go\<close>
  with its nested structs, the fields of the Kubernetes and OLM objects that
  \<open>controllers/namespacescope_controller.go\<close> reads or writes, the errors that flow through
  it, and the constants of \<open>controllers/constant/constants.go\<close>. A pointer, or a slice or map
  whose nil value the code tests, is an option.
\<close>

section \<open>Errors\<close>

text \<open>
  An API error carries the reason by which \<open>errors.IsNotFound\<close> and its kin classify it.
  \<open>WrapErr\<close> is \<open>fmt.Errorf("prefix: %w", err)\<close>; the classification looks through it.
\<close>

datatype reason = NotFound | AlreadyExists | Forbidden | Unauthorized | Conflict | OtherReason

datatype err =
    StatusErr reason string
  | OsNotExist string
  | PlainErr string
  | WrapErr string err
  | DecodeErr

fun err_reason :: "err \<Rightarrow> reason" where
  "err_reason (StatusErr r m) = r"
| "err_reason (WrapErr p e) = err_reason e"
| "err_reason e = OtherReason"

fun err_text :: "err \<Rightarrow> string" where
  "err_text (StatusErr r m) = m"
| "err_text (OsNotExist m) = m"
| "err_text (PlainErr m) = m"
| "err_text (WrapErr p e) = p @ '': '' @ err_text e"
| "err_text DecodeErr = ''unexpected object''"

abbreviation is_not_found :: "err \<Rightarrow> bool" where
  "is_not_found e \<equiv> err_reason e = NotFound"

abbreviation is_already_exists :: "err \<Rightarrow> bool" where
  "is_already_exists e \<equiv> err_reason e = AlreadyExists"

abbreviation is_forbidden :: "err \<Rightarrow> bool" where
  "is_forbidden e \<equiv> err_reason e = Forbidden"

abbreviation is_unauthorized :: "err \<Rightarrow> bool" where
  "is_unauthorized e \<equiv> err_reason e = Unauthorized"

fun os_is_not_exist :: "err \<Rightarrow> bool" where
  "os_is_not_exist (OsNotExist m) = True"
| "os_is_not_exist e = False"

section \<open>Object metadata\<close>

text \<open>Points in time are nanoseconds since the Unix epoch; Go's zero time is year 1.\<close>

type_synonym time = int

definition zero_time :: time where
  "zero_time = - 62135596800000000000"

definition time_is_zero :: "time option \<Rightarrow> bool" where
  "time_is_zero t \<longleftrightarrow> (case t of None \<Rightarrow> True | Some x \<Rightarrow> x = zero_time)"

record owner_reference =
  orKind :: string
  orName :: string
  orUID :: string
  orController :: "bool option"

record object_meta =
  omName :: string
  omNamespace :: string
  omUID :: string
  omLabels :: labels
  omAnnotations :: labels
  omFinalizers :: "string list"
  omDeletionTimestamp :: "time option"
  omOwnerReferences :: "owner_reference list"

definition new_meta :: "string \<Rightarrow> string \<Rightarrow> labels \<Rightarrow> object_meta" where
  "new_meta nm ns lbls =
     \<lparr>omName = nm, omNamespace = ns, omUID = [], omLabels = lbls, omAnnotations = [],
      omFinalizers = [], omDeletionTimestamp = None, omOwnerReferences = []\<rparr>"

text \<open>\<open>types.NamespacedName\<close>: the namespace and the name.\<close>

type_synonym key = "string \<times> string"

definition meta_key :: "object_meta \<Rightarrow> key" where
  "meta_key m = (omNamespace m, omName m)"

section \<open>The NamespaceScope resource\<close>

record csv_injector =
  enable :: bool

record license_acceptance =
  accept :: bool
  licenseUse :: string
  licenseName :: string
  licenseKey :: string

record nss_spec =
  namespaceMembers :: "string list"
  serviceAccountMembers :: "string list"
  configmapName :: string
  restartLabels :: labels
  manualManagement :: bool
  csvInjector :: csv_injector
  license :: license_acceptance
  allowSubsetProjection :: bool

record dependency_time =
  dtComponent :: string
  dtStartTime :: time
  dtReadyTime :: time
  dtDuration :: string

record operation_timing_entry =
  startTime :: time
  endTime :: time
  totalDuration :: string
  phase :: string
  dependencyTime :: "dependency_time list"

record nss_status =
  validatedMembers :: "string list"
  managedCSVList :: "string list"
  patchedCSVList :: "string list"
  managedWebhookList :: "string list"
  patchedWebhookList :: "string list"
  unprojectedRoles :: "string list"
  status :: string
  reconcileHistory :: "string list"
  operationTiming :: "operation_timing_entry list"

record nss =
  nssMeta :: object_meta
  spec :: nss_spec
  nssStatus :: nss_status

abbreviation nss_name :: "nss \<Rightarrow> string" where
  "nss_name n \<equiv> omName (nssMeta n)"

abbreviation nss_namespace :: "nss \<Rightarrow> string" where
  "nss_namespace n \<equiv> omNamespace (nssMeta n)"

abbreviation nss_key :: "nss \<Rightarrow> key" where
  "nss_key n \<equiv> meta_key (nssMeta n)"

section \<open>Kubernetes and OLM objects\<close>

record config_map =
  cmMeta :: object_meta
  cmData :: "labels option"

record policy_rule =
  prVerbs :: "string list"
  prAPIGroups :: "string list"
  prResources :: "string list"
  prResourceNames :: "string list"
  prNonResourceURLs :: "string list"

record role =
  roleMeta :: object_meta
  roleRules :: "policy_rule list"

record subject =
  sbKind :: string
  sbName :: string
  sbNamespace :: string

record role_ref =
  rrKind :: string
  rrName :: string
  rrAPIGroup :: string

record role_binding =
  rbMeta :: object_meta
  rbSubjects :: "subject list"
  rbRoleRef :: role_ref

text \<open>
  Of an environment variable's source the code looks at the ConfigMap key reference alone;
  the other sources (field, resource and secret references) are kept as one opaque text.
\<close>

record config_map_key =
  ckName :: string
  ckKey :: string
  ckOptional :: "bool option"

record env_source =
  esConfigMapKeyRef :: "config_map_key option"
  esOther :: string

record env_var =
  evName :: string
  evValue :: string
  evValueFrom :: "env_source option"

record container =
  ctName :: string
  ctEnv :: "env_var list"

text \<open>A volume is its name and, when it is a ConfigMap volume, the name of the ConfigMap.\<close>

record volume =
  voName :: string
  voConfigMap :: "string option"

record pod =
  podMeta :: object_meta
  podServiceAccountName :: string
  podVolumes :: "volume list"
  podContainers :: "container list"

record pod_template =
  ptLabels :: "labels option"
  ptAnnotations :: "labels option"
  ptContainers :: "container list"

text \<open>Deployments, DaemonSets and StatefulSets: the code writes their pod template only.\<close>

record workload =
  wlMeta :: object_meta
  wlTemplate :: pod_template

record namespace_object =
  nsName :: string
  nsTerminating :: bool

record deployment_spec =
  dsName :: string
  dsTemplate :: pod_template

record csv =
  csvMeta :: object_meta
  csvStrategyName :: string
  csvDeployments :: "deployment_spec list"

record selector_requirement =
  rqKey :: string
  rqOperator :: string
  rqValues :: "string list option"

record label_selector =
  lsMatchLabels :: labels
  lsMatchExpressions :: "selector_requirement list option"

record webhook =
  whName :: string
  whNamespaceSelector :: "label_selector option"

record webhook_config =
  wcMeta :: object_meta
  wcWebhooks :: "webhook list"

text \<open>A SelfSubjectAccessReview: the attributes asked about, and the answer.\<close>

record resource_attributes =
  raGroup :: string
  raResource :: string
  raNamespace :: string
  raVerb :: string

record review_status =
  rsAllowed :: bool
  rsDenied :: bool
  rsReason :: string
  rsEvaluationError :: string

section \<open>Constants\<close>

definition NamespaceScopeManagedPrefix :: string where
  "NamespaceScopeManagedPrefix = ''nss-managed-role-from-''"
definition NamespaceScopeConfigmapName :: string where
  "NamespaceScopeConfigmapName = ''namespace-scope''"
definition NamespaceScopeFinalizer :: string where
  "NamespaceScopeFinalizer = ''finalizer.nss.operator.ibm.com''"
definition NamespaceScopeLabel :: string where
  "NamespaceScopeLabel = ''managedby-namespace-scope''"
definition DefaultRestartLabelsKey :: string where
  "DefaultRestartLabelsKey = ''intent''"
definition DefaultRestartLabelsValue :: string where
  "DefaultRestartLabelsValue = ''projected''"
definition NamespaceScopeServiceAccount :: string where
  "NamespaceScopeServiceAccount = ''ibm-namespace-scope-operator''"

definition InjectorMark :: string where
  "InjectorMark = ''nss.operator.ibm.com/managed-operators''"
definition WebhookMark :: string where
  "WebhookMark = ''nss.operator.ibm.com/managed-webhooks''"
definition NamespaceScopeConfigmapLabelKey :: string where
  "NamespaceScopeConfigmapLabelKey = ''namespace-scope-configmap''"
definition NamespaceScopeRuntimePrefix :: string where
  "NamespaceScopeRuntimePrefix = ''nss-runtime-managed-role-from-''"
definition MatchExpressionsKey :: string where
  "MatchExpressionsKey = ''kubernetes.io/metadata.name''"

end
