(* ===== verification/Interaction.thy ===== *)
theory Interaction
  imports Kube_Objects
begin

text \<open>
  The interaction of the operator with everything outside it. A handler is a tree of requests:
  the calls it makes on the Kubernetes client, the event recorder, the process environment, the
  clock, API discovery, and the orders that the Go runtime picks (iteration over a set, the next
  goroutine to run), each followed by a continuation for every answer. The tree contains no model of the API
  server: the server is the environment that answers, and what a theorem needs of the answers is
  stated as a hypothesis of that theorem.

  \<open>bind\<close> is sequencing; a Go panic ends the handler. \<open>wp\<close> is the weakest precondition over every
  possible answer, \<open>runs\<close> the big-step relation under a given environment.
\<close>

section \<open>Requests and answers\<close>

datatype kind = KNss | KConfigMap | KRole | KRoleBinding | KPod | KServiceAccount | KNamespace
  | KDeployment | KDaemonSet | KStatefulSet | KCsv | KMutatingWebhook | KValidatingWebhook

datatype obj =
    ONss nss | OConfigMap config_map | ORole role | ORoleBinding role_binding | OPod pod
  | OServiceAccount object_meta | ONamespace namespace_object
  | ODeployment workload | ODaemonSet workload | OStatefulSet workload
  | OCsv csv | OMutatingWebhook webhook_config | OValidatingWebhook webhook_config

text \<open>
  The options of the manager that the operator sets. Of the cache: per kind the labels an object
  must carry, and the namespaces, \<open>None\<close> for all.
\<close>

record cache_options =
  coByObject :: "(kind \<times> labels) list"
  coDefaultNamespaces :: "string list option"

record manager_options =
  moHealthProbeBindAddress :: string
  moLeaderElection :: bool
  moLeaderElectionID :: string
  moCache :: cache_options

text \<open>
  What a controller is built with: the kind it is for, the kinds it owns, the kinds it watches through
  a map function; which of their events count (all, those that change the generation, or those
  that the predicate functions of the code let through); and the handler it runs.
\<close>

datatype event_filter = AllEvents | GenerationChanged | PredicateFuncs

datatype watch = For kind event_filter | Owns kind event_filter | Watches kind event_filter

datatype handler = RunReconcile | RunCSVReconcile

text \<open>\<open>r.Client\<close> reads through the cache, \<open>r.Reader\<close> straight from the API server.\<close>

datatype source = Cached | Live

datatype request =
    Get source kind key
  | ListOf source kind string labels
  | Create obj
  | Update obj
  | StatusUpdate obj
  | Patch obj obj
  | StatusPatch obj obj
  | Delete obj
  | DeleteAllOf kind string labels
  | Review resource_attributes
  | Event key string string
  | LookupEnv string
  | ReadFile string
  | Now
  | IterSet "string list"
  | Schedule nat
  | NewDiscoveryClient
  | ServerResources string
  | BuildController string "watch list" handler
  | NewManager manager_options
  | AddHealthzCheck string
  | AddReadyzCheck string
  | StartManager
  | DynamicList string string string string

datatype response =
    RErr err
  | ROk
  | RObj obj
  | RList "obj list"
  | RReview review_status
  | REnv "string option"
  | RFile string
  | RTime time
  | ROrder "string list"
  | RSched "nat list"

text \<open>
  Decoding. An answer of the wrong shape is a decoding error of the client, as for an object
  that cannot be unmarshalled into the Go type asked for.
\<close>

definition as_unit :: "response \<Rightarrow> err + unit" where
  "as_unit r = (case r of RErr e \<Rightarrow> Inl e | _ \<Rightarrow> Inr ())"

definition as_obj :: "(obj \<Rightarrow> 'a option) \<Rightarrow> response \<Rightarrow> err + 'a" where
  "as_obj prj r = (case r of
      RErr e \<Rightarrow> Inl e
    | RObj ob \<Rightarrow> (case prj ob of Some x \<Rightarrow> Inr x | None \<Rightarrow> Inl DecodeErr)
    | _ \<Rightarrow> Inl DecodeErr)"

definition as_list :: "(obj \<Rightarrow> 'a option) \<Rightarrow> response \<Rightarrow> err + 'a list" where
  "as_list prj r = (case r of
      RErr e \<Rightarrow> Inl e
    | RList obs \<Rightarrow> (case those (map prj obs) of Some xs \<Rightarrow> Inr xs | None \<Rightarrow> Inl DecodeErr)
    | _ \<Rightarrow> Inl DecodeErr)"

definition as_review :: "response \<Rightarrow> err + review_status" where
  "as_review r = (case r of RErr e \<Rightarrow> Inl e | RReview s \<Rightarrow> Inr s | _ \<Rightarrow> Inl DecodeErr)"

definition as_env :: "response \<Rightarrow> string option" where
  "as_env r = (case r of REnv x \<Rightarrow> x | _ \<Rightarrow> None)"

definition as_file :: "response \<Rightarrow> err + string" where
  "as_file r = (case r of RErr e \<Rightarrow> Inl e | RFile s \<Rightarrow> Inr s | _ \<Rightarrow> Inl DecodeErr)"

definition as_time :: "response \<Rightarrow> time" where
  "as_time r = (case r of RTime t \<Rightarrow> t | _ \<Rightarrow> 0)"

definition as_schedule :: "response \<Rightarrow> nat list" where
  "as_schedule r = (case r of RSched s \<Rightarrow> s | _ \<Rightarrow> [])"

text \<open>
  The order in which a set is enumerated: the environment proposes one, and it is taken when it
  lists exactly the elements of the set, each once. Every enumeration order is thus possible
  and nothing else is.
\<close>

definition as_order :: "string list \<Rightarrow> response \<Rightarrow> string list" where
  "as_order xs r = (case r of
      ROrder ys \<Rightarrow> if distinct ys \<and> set ys = set xs then ys else remdups xs
    | _ \<Rightarrow> remdups xs)"

fun the_nss :: "obj \<Rightarrow> nss option" where
  "the_nss (ONss x) = Some x" | "the_nss _ = None"
fun the_config_map :: "obj \<Rightarrow> config_map option" where
  "the_config_map (OConfigMap x) = Some x" | "the_config_map _ = None"
fun the_role :: "obj \<Rightarrow> role option" where
  "the_role (ORole x) = Some x" | "the_role _ = None"
fun the_role_binding :: "obj \<Rightarrow> role_binding option" where
  "the_role_binding (ORoleBinding x) = Some x" | "the_role_binding _ = None"
fun the_pod :: "obj \<Rightarrow> pod option" where
  "the_pod (OPod x) = Some x" | "the_pod _ = None"
fun the_service_account :: "obj \<Rightarrow> object_meta option" where
  "the_service_account (OServiceAccount x) = Some x" | "the_service_account _ = None"
fun the_namespace :: "obj \<Rightarrow> namespace_object option" where
  "the_namespace (ONamespace x) = Some x" | "the_namespace _ = None"
fun the_deployment :: "obj \<Rightarrow> workload option" where
  "the_deployment (ODeployment x) = Some x" | "the_deployment _ = None"
fun the_daemon_set :: "obj \<Rightarrow> workload option" where
  "the_daemon_set (ODaemonSet x) = Some x" | "the_daemon_set _ = None"
fun the_stateful_set :: "obj \<Rightarrow> workload option" where
  "the_stateful_set (OStatefulSet x) = Some x" | "the_stateful_set _ = None"
fun the_csv :: "obj \<Rightarrow> csv option" where
  "the_csv (OCsv x) = Some x" | "the_csv _ = None"
fun the_mutating_webhook :: "obj \<Rightarrow> webhook_config option" where
  "the_mutating_webhook (OMutatingWebhook x) = Some x" | "the_mutating_webhook _ = None"
fun the_validating_webhook :: "obj \<Rightarrow> webhook_config option" where
  "the_validating_webhook (OValidatingWebhook x) = Some x" | "the_validating_webhook _ = None"

lemma as_order_set [simp]: "set (as_order xs r) = set xs"
  by (simp add: as_order_def split: response.split)

lemma as_order_distinct [simp]: "distinct (as_order xs r)"
  by (simp add: as_order_def split: response.split)

lemma as_order_Nil [simp]: "as_order [] r = []"
  using as_order_set [of "[]" r] by (simp del: as_order_set)

lemma as_order_any: "distinct ys \<Longrightarrow> set ys = set xs \<Longrightarrow> as_order xs (ROrder ys) = ys"
  by (simp add: as_order_def)

text \<open>What was decoded was in the answer.\<close>

lemma as_obj_Inl_err: "as_obj prj r = Inl e \<Longrightarrow> e \<noteq> DecodeErr \<Longrightarrow> r = RErr e"
  by (auto simp: as_obj_def split: response.splits option.splits)

lemma as_obj_InrE:
  assumes "as_obj prj r = Inr x" obtains ob where "r = RObj ob" "prj ob = Some x"
  using assms by (auto simp: as_obj_def split: response.splits option.splits)

lemma as_list_InrE:
  assumes "as_list prj r = Inr xs"
  obtains obs where "r = RList obs" "\<And>x. x \<in> set xs \<Longrightarrow> \<exists>ob \<in> set obs. prj ob = Some x"
proof -
  from assms obtain obs where r: "r = RList obs" and "those (map prj obs) = Some xs"
    by (auto simp: as_list_def split: response.splits option.splits)
  then have "map prj obs = map Some xs"
    by (intro those_SomeD)
  from arg_cong [OF this, of set] have "\<exists>ob \<in> set obs. prj ob = Some x" if "x \<in> set xs" for x
    using that by (simp add: set_eq_iff image_iff) metis
  with r show ?thesis by (rule that)
qed

lemma the_obj_iff [simp]:
  "the_nss ob = Some n \<longleftrightarrow> ob = ONss n" "the_config_map ob = Some c \<longleftrightarrow> ob = OConfigMap c"
  "the_role ob = Some ro \<longleftrightarrow> ob = ORole ro" "the_role_binding ob = Some b \<longleftrightarrow> ob = ORoleBinding b"
  "the_pod ob = Some p \<longleftrightarrow> ob = OPod p" "the_service_account ob = Some m \<longleftrightarrow> ob = OServiceAccount m"
  "the_namespace ob = Some ns \<longleftrightarrow> ob = ONamespace ns"
  by (cases ob; simp)+

lemma as_unit_simps [response_simps]:
  "as_unit (RErr e) = Inl e" "as_unit ROk = Inr ()" "as_unit (RObj ob) = Inr ()"
  by (simp_all add: as_unit_def)

lemma as_obj_simps [response_simps]:
  "as_obj prj (RErr e) = Inl e"
  "as_obj prj (RObj ob) = (case prj ob of Some x \<Rightarrow> Inr x | None \<Rightarrow> Inl DecodeErr)"
  by (simp_all add: as_obj_def)

lemma as_list_simps [response_simps]:
  "as_list prj (RErr e) = Inl e"
  "as_list prj (RList obs) =
     (case those (map prj obs) of Some xs \<Rightarrow> Inr xs | None \<Rightarrow> Inl DecodeErr)"
  by (simp_all add: as_list_def)

lemma as_other_simps [response_simps]:
  "as_review (RErr e) = Inl e" "as_review (RReview st) = Inr st"
  "as_env (REnv x) = x" "as_file (RErr e) = Inl e" "as_file (RFile s) = Inr s"
  "as_time (RTime t) = t" "as_schedule (RSched sc) = sc"
  by (simp_all add: as_review_def as_env_def as_file_def as_time_def as_schedule_def)

section \<open>Handlers\<close>

text \<open>
  \<open>Send\<close> is a send on one of the two buffered channels of a fork (Rbac projection); the fork
  that started the goroutine receives it. \<open>Block\<close> is a goroutine that waits forever.
\<close>

datatype msg = SendErr err | SendUnprojected "string list"

datatype 'a proc =
    Ret 'a
  | Panic
  | Block
  | Call request "response \<Rightarrow> 'a proc"
  | Send msg "'a proc"

datatype 'a outcome = Done 'a | Panicked | Blocked

primrec bind :: "'a proc \<Rightarrow> ('a \<Rightarrow> 'b proc) \<Rightarrow> 'b proc" where
  "bind (Ret a) f = f a"
| "bind Panic f = Panic"
| "bind Block f = Block"
| "bind (Call q k) f = Call q (\<lambda>r. bind (k r) f)"
| "bind (Send m p) f = Send m (bind p f)"

lemma bind_Ret [simp]: "bind p Ret = p"
  by (induction p) auto

lemma bind_assoc: "bind (bind p f) g = bind p (\<lambda>a. bind (f a) g)"
  by (induction p) auto

text \<open>
  \<open>call\<close> makes a request and decodes the answer; \<open>go_try\<close> is the idiom
  \<open>x, err := p; if err != nil { return err }; \<dots>\<close>.
\<close>

definition call :: "request \<Rightarrow> (response \<Rightarrow> 'a) \<Rightarrow> 'a proc" where
  "call q dec = Call q (\<lambda>r. Ret (dec r))"

definition go_try :: "(err + 'a) proc \<Rightarrow> ('a \<Rightarrow> (err + 'b) proc) \<Rightarrow> (err + 'b) proc" where
  "go_try p f = bind p (\<lambda>x. case x of Inl e \<Rightarrow> Ret (Inl e) | Inr a \<Rightarrow> f a)"

lemma bind_call [proc_simps]: "bind (call q dec) f = Call q (\<lambda>r. f (dec r))"
  by (simp add: call_def)

section \<open>Weakest preconditions over every answer\<close>

text \<open>
  \<open>wp P S Q p\<close>: whatever the environment answers, every request of \<open>p\<close> satisfies \<open>P\<close>, every
  message it sends satisfies \<open>S\<close>, and it can only end in an outcome that satisfies \<open>Q\<close>.
\<close>

primrec wp :: "(request \<Rightarrow> bool) \<Rightarrow> (msg \<Rightarrow> bool) \<Rightarrow> ('a outcome \<Rightarrow> bool) \<Rightarrow> 'a proc \<Rightarrow> bool" where
  "wp P S Q (Ret a) = Q (Done a)"
| "wp P S Q Panic = Q Panicked"
| "wp P S Q Block = Q Blocked"
| "wp P S Q (Call q k) = (P q \<and> (\<forall>r. wp P S Q (k r)))"
| "wp P S Q (Send m p) = (S m \<and> wp P S Q p)"

declare wp.simps [proc_simps]

definition and_then :: "('b outcome \<Rightarrow> bool) \<Rightarrow> ('a \<Rightarrow> bool) \<Rightarrow> 'a outcome \<Rightarrow> bool" where
  "and_then Q A oc = (case oc of Done a \<Rightarrow> A a | Panicked \<Rightarrow> Q Panicked | Blocked \<Rightarrow> Q Blocked)"

lemma and_then_simps [simp]:
  "and_then Q A (Done a) = A a" "and_then Q A Panicked = Q Panicked"
  "and_then Q A Blocked = Q Blocked"
  by (simp_all add: and_then_def)

lemma wp_bind [proc_simps]:
  "wp P S Q (bind p f) = wp P S (and_then Q (\<lambda>a. wp P S Q (f a))) p"
  by (induction p) auto

lemma wp_call [proc_simps]: "wp P S Q (call q dec) \<longleftrightarrow> P q \<and> (\<forall>r. Q (Done (dec r)))"
  by (simp add: call_def)

lemma wp_go_try [proc_simps]:
  "wp P S Q (go_try p f) =
     wp P S (and_then Q (\<lambda>x. case x of Inl e \<Rightarrow> Q (Done (Inl e)) | Inr a \<Rightarrow> wp P S Q (f a))) p"
proof -
  have "(\<lambda>x. wp P S Q (case x of Inl e \<Rightarrow> Ret (Inl e) | Inr a \<Rightarrow> f a)) =
        (\<lambda>x. case x of Inl e \<Rightarrow> Q (Done (Inl e)) | Inr a \<Rightarrow> wp P S Q (f a))"
    by (auto simp: fun_eq_iff split: sum.splits)
  then show ?thesis
    by (simp add: go_try_def wp_bind)
qed

lemma wp_mono:
  "wp P S Q p \<Longrightarrow> (\<And>q. P q \<Longrightarrow> P' q) \<Longrightarrow> (\<And>m. S m \<Longrightarrow> S' m) \<Longrightarrow> (\<And>oc. Q oc \<Longrightarrow> Q' oc)
    \<Longrightarrow> wp P' S' Q' p"
  by (induction p) auto

lemma wp_conj: "wp P S Q p \<Longrightarrow> wp P' S' Q' p \<Longrightarrow>
    wp (\<lambda>q. P q \<and> P' q) (\<lambda>m. S m \<and> S' m) (\<lambda>oc. Q oc \<and> Q' oc) p"
  by (induction p) auto

lemma wp_True [simp]: "wp (\<lambda>_. True) (\<lambda>_. True) (\<lambda>_. True) p"
  by (induction p) auto

section \<open>Runs under an environment\<close>

text \<open>
  \<open>E s q t r\<close>: in state \<open>s\<close> the environment may answer request \<open>q\<close> with \<open>r\<close> and go to
  state \<open>t\<close>. \<open>runs E p s tr oc t\<close>: from \<open>s\<close> the handler may end in \<open>t\<close> with outcome \<open>oc\<close>,
  after the requests and answers \<open>tr\<close>.
\<close>

type_synonym 's env = "'s \<Rightarrow> request \<Rightarrow> 's \<Rightarrow> response \<Rightarrow> bool"

type_synonym trace = "(request \<times> response) list"

inductive runs :: "'s env \<Rightarrow> 'a proc \<Rightarrow> 's \<Rightarrow> trace \<Rightarrow> 'a outcome \<Rightarrow> 's \<Rightarrow> bool" for E where
  runs_Ret: "runs E (Ret a) s [] (Done a) s"
| runs_Panic: "runs E Panic s [] Panicked s"
| runs_Block: "runs E Block s [] Blocked s"
| runs_Send: "runs E (Send m p) s [] Blocked s"
| runs_Call: "E s q s1 r \<Longrightarrow> runs E (k r) s1 tr oc t \<Longrightarrow> runs E (Call q k) s ((q, r) # tr) oc t"

inductive_simps runs_Ret_iff [proc_simps]: "runs E (Ret a) s tr oc t"
inductive_simps runs_Panic_iff [proc_simps]: "runs E Panic s tr oc t"
inductive_simps runs_Block_iff [proc_simps]: "runs E Block s tr oc t"
inductive_simps runs_Send_iff [proc_simps]: "runs E (Send m p) s tr oc t"
inductive_simps runs_Call_iff [proc_simps]: "runs E (Call q k) s tr oc t"

inductive_cases runs_CallE: "runs E (Call q k) s tr oc t"

text \<open>A run of \<open>bind p f\<close> is a run of \<open>p\<close>, then a run of \<open>f\<close> on its result.\<close>

lemma runs_bind_cases:
  "runs E (bind p f) s tr oc t \<Longrightarrow>
     (\<exists>a tr1 u tr2. runs E p s tr1 (Done a) u \<and> runs E (f a) u tr2 oc t \<and> tr = tr1 @ tr2) \<or>
     (runs E p s tr Panicked t \<and> oc = Panicked) \<or> (runs E p s tr Blocked t \<and> oc = Blocked)"
proof (induction p arbitrary: s tr)
  case (Call q k)
  from Call.prems obtain r s1 tr' where
    tr: "tr = (q, r) # tr'" and E: "E s q s1 r" and run: "runs E (bind (k r) f) s1 tr' oc t"
    by (auto simp: proc_simps)
  have step: "runs E (k r) s1 tr1 oc' u \<Longrightarrow> runs E (Call q k) s ((q, r) # tr1) oc' u" for tr1 oc' u
    using E by (rule runs_Call)
  show ?case
    using Call.IH [OF _ run] unfolding tr by (metis step append_Cons rangeI)
qed (auto simp: proc_simps)

lemma runs_bindE:
  assumes "runs E (bind p f) s tr oc t"
  obtains (finished) a tr1 u tr2 where "runs E p s tr1 (Done a) u" "runs E (f a) u tr2 oc t"
      "tr = tr1 @ tr2"
    | (panicked) "runs E p s tr Panicked t" "oc = Panicked"
    | (blocked) "runs E p s tr Blocked t" "oc = Blocked"
  using runs_bind_cases [OF assms] by blast

text \<open>What \<open>wp\<close> shows holds of every run, under every environment.\<close>

lemma wp_runs:
  "runs E p s tr oc t \<Longrightarrow> wp P S Q p \<Longrightarrow> (\<forall>(q, r) \<in> set tr. P q) \<and> (oc \<noteq> Blocked \<longrightarrow> Q oc)"
  by (induction rule: runs.induct) auto

lemma wp_runs_request: "runs E p s tr oc t \<Longrightarrow> wp P S Q p \<Longrightarrow> (q, r) \<in> set tr \<Longrightarrow> P q"
  using wp_runs by fastforce

section \<open>Deterministic environments\<close>

text \<open>A deterministic environment runs a handler as a function; witnesses evaluate with it.\<close>

primrec exec :: "('s \<Rightarrow> request \<Rightarrow> response \<times> 's) \<Rightarrow> 'a proc \<Rightarrow> 's \<Rightarrow> trace \<times> 'a outcome \<times> 's" where
  "exec h (Ret a) s = ([], Done a, s)"
| "exec h Panic s = ([], Panicked, s)"
| "exec h Block s = ([], Blocked, s)"
| "exec h (Send m p) s = ([], Blocked, s)"
| "exec h (Call q k) s =
     (case h s q of (r, s1) \<Rightarrow> (case exec h (k r) s1 of (tr, oc, t) \<Rightarrow> ((q, r) # tr, oc, t)))"

lemma exec_runs:
  assumes "\<And>s q r s1. h s q = (r, s1) \<Longrightarrow> E s q s1 r"
  shows "exec h p s = (tr, oc, t) \<Longrightarrow> runs E p s tr oc t"
proof (induction p arbitrary: s tr)
  case (Call q k)
  then show ?case
    by (auto intro!: runs_Call assms split: prod.splits)
qed (auto intro: runs.intros)

end
