(* ===== verification/Util_Functions.thy ===== *)
theory Util_Functions
  imports Interaction "HOL-Library.Multiset"
begin

text \<open>
  \<open>controllers/common/util.go\<close>: sets of strings built on the golang-set package, slice
  comparisons, label truncation, and the operator's own namespace. The package keeps a set's
  elements once each and enumerates them in an order that is not fixed: a set is a list without
  duplicates, and an enumeration asks the environment for the order.
\<close>

section \<open>Sets\<close>

type_synonym gset = "string list"

definition gset_add :: "gset \<Rightarrow> string \<Rightarrow> gset" where
  "gset_add s x = (if x \<in> set s then s else s @ [x])"

definition gset_difference :: "gset \<Rightarrow> gset \<Rightarrow> gset" where
  "gset_difference s t = filter (\<lambda>x. x \<notin> set t) s"

definition gset_equal :: "gset \<Rightarrow> gset \<Rightarrow> bool" where
  "gset_equal s t \<longleftrightarrow> length s = length t \<and> (\<forall>x \<in> set s. x \<in> set t)"

definition MakeSet :: "string list \<Rightarrow> gset" where
  "MakeSet strs = foldl gset_add [] strs"

definition ToStringSlice :: "gset \<Rightarrow> string list proc" where
  "ToStringSlice s = call (IterSet s) (as_order s)"

definition GetListDifference :: "string list \<Rightarrow> string list \<Rightarrow> string list proc" where
  "GetListDifference slice1 slice2 =
     (let set1 = MakeSet slice1; set2 = MakeSet slice2; d = gset_difference set1 set2
      in call (IterSet d) (as_order d))"

section \<open>Slices\<close>

text \<open>
  \<open>CheckListDifference\<close> sorts both arguments in place when their lengths agree; the caller's
  slices are the second and third component of the result.
\<close>

fun first_difference :: "string list \<Rightarrow> string list \<Rightarrow> bool" where
  "first_difference (v # vs) (w # ws) = (if v \<noteq> w then True else first_difference vs ws)"
| "first_difference _ _ = False"

definition CheckListDifference :: "string list \<Rightarrow> string list \<Rightarrow> bool \<times> string list \<times> string list" where
  "CheckListDifference slice1 slice2 =
     (if length slice1 \<noteq> length slice2 then (True, slice1, slice2)
      else let s1 = sort slice1; s2 = sort slice2 in (first_difference s1 s2, s1, s2))"

definition StringSliceContentEqual :: "string list \<Rightarrow> string list \<Rightarrow> bool" where
  "StringSliceContentEqual slice1 slice2 = gset_equal (MakeSet slice1) (MakeSet slice2)"

definition GetOwnerReferenceUIDs :: "owner_reference list \<Rightarrow> string list" where
  "GetOwnerReferenceUIDs ownerRefs = map orUID ownerRefs"

fun Contains :: "string list \<Rightarrow> string \<Rightarrow> bool" where
  "Contains [] s = False"
| "Contains (v # vs) s = (if v = s then True else Contains vs s)"

fun UIDContains :: "string list \<Rightarrow> string \<Rightarrow> bool" where
  "UIDContains [] s = False"
| "UIDContains (v # vs) s = (if v = s then True else UIDContains vs s)"

text \<open>The index counts down from \<open>len(original) - 1\<close>; \<open>i\<close> is one more than it.\<close>

primrec reverse_from :: "string list \<Rightarrow> nat \<Rightarrow> string list \<Rightarrow> string list" where
  "reverse_from original 0 acc = acc"
| "reverse_from original (Suc i) acc = reverse_from original i (acc @ [original ! i])"

definition Reverse :: "string list \<Rightarrow> string list" where
  "Reverse original = reverse_from original (length original) []"

text \<open>\<open>n\<close> is an \<open>int\<close> in the source, and every call passes the constant 63.\<close>

definition GetFirstNCharacter :: "string \<Rightarrow> nat \<Rightarrow> string" where
  "GetFirstNCharacter str n = (if n \<ge> length str then str else trim_right ''-_.'' (take n str))"

section \<open>The operator's namespace\<close>

definition service_account_namespace_file :: string where
  "service_account_namespace_file = ''/var/run/secrets/kubernetes.io/serviceaccount/namespace''"

definition check_operator_namespace :: "string \<Rightarrow> err + string" where
  "check_operator_namespace ns =
     (if length ns = 0 then Inl (PlainErr ''operator namespace is empty'') else Inr ns)"

definition GetOperatorNamespace :: "(err + string) proc" where
  "GetOperatorNamespace =
     bind (call (LookupEnv ''OPERATOR_NAMESPACE'') as_env) (\<lambda>found.
       case found of
         Some ns \<Rightarrow> Ret (check_operator_namespace ns)
       | None \<Rightarrow>
           bind (call (ReadFile service_account_namespace_file) as_file) (\<lambda>x.
             case x of
               Inl e \<Rightarrow>
                 if os_is_not_exist e
                 then Ret (Inl (PlainErr ''namespace not found for current environment''))
                 else Ret (Inl e)
             | Inr nsBytes \<Rightarrow> Ret (check_operator_namespace (trim_space nsBytes))))"

text \<open>
  A list of objects of a kind known by name only. \<open>set_string\<close> is the text form of a label set in
  apimachinery; the namespace is empty, for all namespaces.
\<close>

definition GetResourcesDynamically ::
  "(labels \<Rightarrow> string) \<Rightarrow> string \<Rightarrow> string \<Rightarrow> string \<Rightarrow> label_selector \<Rightarrow> (err + obj list) proc" where
  "GetResourcesDynamically set_string grp version resource labelSelector =
     go_try (call (DynamicList grp version resource (set_string (lsMatchLabels labelSelector))) (as_list Some))
       (\<lambda>items. Ret (Inr items))"

section \<open>Lemmas\<close>

lemma set_foldl_gset_add: "set (foldl gset_add s xs) = set s \<union> set xs"
  by (induction xs arbitrary: s) (auto simp: gset_add_def)

lemma distinct_foldl_gset_add: "distinct s \<Longrightarrow> distinct (foldl gset_add s xs)"
  by (induction xs arbitrary: s) (auto simp: gset_add_def)

lemma set_MakeSet [simp]: "set (MakeSet xs) = set xs"
  by (simp add: MakeSet_def set_foldl_gset_add)

lemma distinct_MakeSet [simp]: "distinct (MakeSet xs)"
  by (simp add: MakeSet_def distinct_foldl_gset_add)

lemma MakeSet_Nil [simp]: "MakeSet [] = []"
  by (simp add: MakeSet_def)

lemma gset_equal_iff: "distinct s \<Longrightarrow> distinct t \<Longrightarrow> gset_equal s t \<longleftrightarrow> set s = set t"
  unfolding gset_equal_def
  by (metis card_subset_eq distinct_card finite_set subsetI)

lemma StringSliceContentEqual_iff [simp]: "StringSliceContentEqual a b \<longleftrightarrow> set a = set b"
  by (simp add: StringSliceContentEqual_def gset_equal_iff)

lemma wp_ToStringSlice [proc_simps]:
  "wp P S Q (ToStringSlice s) \<longleftrightarrow> P (IterSet s) \<and> (\<forall>r. Q (Done (as_order s r)))"
  by (simp add: ToStringSlice_def wp_call)

text \<open>
  What a caller may rely on: any enumeration of the set. Both directions are used: a property of
  every enumeration is a property of every answer, and every enumeration has an answer.
\<close>

lemma all_orders: "(\<forall>r. Q (as_order s r)) \<longleftrightarrow> (\<forall>ys. distinct ys \<and> set ys = set s \<longrightarrow> Q ys)"
  by (metis as_order_any as_order_distinct as_order_set)

lemma set_gset_difference [simp]: "set (gset_difference s t) = set s - set t"
  by (auto simp: gset_difference_def)

lemma wp_GetListDifference [proc_simps]:
  "wp P S Q (GetListDifference a b) \<longleftrightarrow>
     P (IterSet (gset_difference (MakeSet a) (MakeSet b))) \<and>
     (\<forall>ys. distinct ys \<and> set ys = set a - set b \<longrightarrow> Q (Done ys))"
  by (simp add: GetListDifference_def Let_def wp_call all_orders [where Q = "\<lambda>ys. Q (Done ys)"])

lemma first_difference_iff: "length a = length b \<Longrightarrow> first_difference a b \<longleftrightarrow> a \<noteq> b"
  by (induction a b rule: first_difference.induct) auto

lemma CheckListDifference_iff: "fst (CheckListDifference a b) \<longleftrightarrow> mset a \<noteq> mset b"
proof (cases "length a = length b")
  case True
  then show ?thesis
    by (simp add: CheckListDifference_def Let_def first_difference_iff)
       (metis mset_sort properties_for_sort sorted_sort)
next
  case False
  then show ?thesis
    by (auto simp: CheckListDifference_def dest: mset_eq_length)
qed

lemma CheckListDifference_mset:
  "CheckListDifference a b = (d, a', b') \<Longrightarrow> mset a' = mset a \<and> mset b' = mset b"
  by (auto simp: CheckListDifference_def Let_def split: if_splits)

lemma Contains_iff [simp]: "Contains xs s \<longleftrightarrow> s \<in> set xs"
  by (induction xs) auto

lemma UIDContains_iff [simp]: "UIDContains xs s \<longleftrightarrow> s \<in> set xs"
  by (induction xs) auto

lemma reverse_from_take: "i \<le> length xs \<Longrightarrow> reverse_from xs i acc = acc @ rev (take i xs)"
  by (induction i arbitrary: acc) (auto simp: take_Suc_conv_app_nth)

lemma Reverse_eq: "Reverse xs = rev xs"
  by (simp add: Reverse_def reverse_from_take)

lemma GetFirstNCharacter_length: "length (GetFirstNCharacter s n) \<le> n"
  using trim_right_length [of "''-_.''" "take n s"] by (auto simp: GetFirstNCharacter_def)

lemma GetFirstNCharacter_prefix: "\<exists>t. s = GetFirstNCharacter s n @ t"
  using trim_right_prefix [of "take n s" "''-_.''"]
  by (auto simp: GetFirstNCharacter_def) (metis append.assoc append_take_drop_id)

lemma GetFirstNCharacter_last:
  "n < length s \<Longrightarrow> GetFirstNCharacter s n \<noteq> [] \<Longrightarrow> last (GetFirstNCharacter s n) \<notin> set ''-_.''"
  unfolding GetFirstNCharacter_def using trim_right_last [of "''-_.''" "take n s"] by (simp del: list.set)

lemma wp_GetOperatorNamespace:
  "P (LookupEnv ''OPERATOR_NAMESPACE'') \<Longrightarrow> P (ReadFile service_account_namespace_file) \<Longrightarrow>
   (\<And>e. Q (Done (Inl e))) \<Longrightarrow> (\<And>ns. ns \<noteq> [] \<Longrightarrow> Q (Done (Inr ns))) \<Longrightarrow>
   wp P S Q GetOperatorNamespace"
  by (auto simp: GetOperatorNamespace_def proc_simps check_operator_namespace_def
      split: option.split sum.split)

end
