(* ===== verification/Library_Params.thy ===== *)
theory Library_Params
  imports Util_Functions
begin

text \<open>
  The pure functions of third-party packages that the operator calls: \<open>controllerutil\<close> of
  controller-runtime and \<open>equality.Semantic\<close> of apimachinery (its \<open>DeepDerivative\<close> once per type
  it is used at). They are parameters: \<open>pkg\<close> is an
  argument of every definition that uses one, and what a proof needs of it is an assumption of
  the locale \<open>controller_util\<close>, taken from the package's documentation. The fields of the
  reconciler struct that change its behaviour are in \<open>reconciler\<close>.
\<close>

record pkg =
  pkgAddFinalizer :: "string list \<Rightarrow> string \<Rightarrow> string list"
  pkgRemoveFinalizer :: "string list \<Rightarrow> string \<Rightarrow> string list"
  pkgSetOwnerReference :: "nss \<Rightarrow> config_map \<Rightarrow> err + config_map"
  pkgSemanticDeepEqual :: "deployment_spec list \<Rightarrow> deployment_spec list \<Rightarrow> bool"
  pkgDerivativeDeployments :: "deployment_spec list \<Rightarrow> deployment_spec list \<Rightarrow> bool"
  pkgDerivativeWebhooks :: "webhook list \<Rightarrow> webhook list \<Rightarrow> bool"

record access_result =
  allowed :: bool
  deniedVerb :: string

text \<open>\<open>hasOLMAPI\<close>, and the permission checker, whose nil value stands for the default one.\<close>

record reconciler =
  hasOLMAPI :: bool
  daemonSetPermissionChecker :: "(string \<Rightarrow> (err + access_result) proc) option"

definition set_owner_law :: "(nss \<Rightarrow> config_map \<Rightarrow> err + config_map) \<Rightarrow> bool" where
  "set_owner_law f \<longleftrightarrow> (\<forall>owner cm cm'. f owner cm = Inr cm' \<longrightarrow>
     cmData cm' = cmData cm \<and> meta_key (cmMeta cm') = meta_key (cmMeta cm) \<and>
     omLabels (cmMeta cm') = omLabels (cmMeta cm) \<and>
     omUID (nssMeta owner) \<in> set (map orUID (omOwnerReferences (cmMeta cm'))))"

text \<open>
  The documented behaviour: adding a finalizer leaves it present, removing it leaves it absent,
  neither touches the others, and an owner reference is set without changing the object's data.
\<close>

locale controller_util =
  fixes addf :: "string list \<Rightarrow> string \<Rightarrow> string list"
    and remf :: "string list \<Rightarrow> string \<Rightarrow> string list"
    and own :: "nss \<Rightarrow> config_map \<Rightarrow> err + config_map"
    and deq :: "deployment_spec list \<Rightarrow> deployment_spec list \<Rightarrow> bool"
  assumes add_set: "set (addf fs f) = insert f (set fs)"
    and remove_set: "set (remf fs f) = set fs - {f}"
    and owner_set: "set_owner_law own"
    and deep_equal_refl: "deq ds ds"
begin

lemma remove_add: "f \<notin> set fs \<Longrightarrow> set (remf (addf fs f) f) = set fs"
  by (simp add: add_set remove_set)

lemma owner_data: "own owner cm = Inr cm' \<Longrightarrow> cmData cm' = cmData cm"
  using owner_set by (simp add: set_owner_law_def)

lemma owner_uid:
  "own owner cm = Inr cm' \<Longrightarrow>
     UIDContains (GetOwnerReferenceUIDs (omOwnerReferences (cmMeta cm'))) (omUID (nssMeta owner))"
  using owner_set by (simp add: set_owner_law_def GetOwnerReferenceUIDs_def)

lemma owner_key: "own owner cm = Inr cm' \<Longrightarrow> meta_key (cmMeta cm') = meta_key (cmMeta cm)"
  using owner_set by (simp add: set_owner_law_def)

end

definition pkg_ok :: "pkg \<Rightarrow> bool" where
  "pkg_ok p \<longleftrightarrow> controller_util (pkgAddFinalizer p) (pkgRemoveFinalizer p)
     (pkgSetOwnerReference p) (pkgSemanticDeepEqual p)"

text \<open>An instance that has the documented behaviour, for witnesses.\<close>

definition std_set_owner :: "nss \<Rightarrow> config_map \<Rightarrow> err + config_map" where
  "std_set_owner owner cm =
     (let m = cmMeta cm; ref = \<lparr>orKind = ''NamespaceScope'', orName = nss_name owner,
                                 orUID = omUID (nssMeta owner), orController = None\<rparr>
      in if omUID (nssMeta owner) \<in> set (map orUID (omOwnerReferences m)) then Inr cm
         else Inr (cm\<lparr>cmMeta := m\<lparr>omOwnerReferences := omOwnerReferences m @ [ref]\<rparr>\<rparr>))"

definition std_pkg :: pkg where
  "std_pkg = \<lparr>
     pkgAddFinalizer = (\<lambda>fs f. if f \<in> set fs then fs else fs @ [f]),
     pkgRemoveFinalizer = (\<lambda>fs f. filter (\<lambda>x. x \<noteq> f) fs),
     pkgSetOwnerReference = std_set_owner,
     pkgSemanticDeepEqual = (\<lambda>a b. a = b),
     pkgDerivativeDeployments = (\<lambda>a b. a = [] \<or> a = b),
     pkgDerivativeWebhooks = (\<lambda>a b. a = [] \<or> a = b)\<rparr>"

interpretation std_util: controller_util "pkgAddFinalizer std_pkg" "pkgRemoveFinalizer std_pkg"
    "pkgSetOwnerReference std_pkg" "pkgSemanticDeepEqual std_pkg"
  by unfold_locales
     (auto simp: std_pkg_def set_owner_law_def std_set_owner_def Let_def meta_key_def split: if_splits)

lemma std_pkg_ok: "pkg_ok std_pkg"
  unfolding pkg_ok_def by (rule std_util.controller_util_axioms)

end
