(* ===== verification/Go_Time.thy ===== *)
theory Go_Time
  imports Kube_Objects
begin

text \<open>
  The two things the status recorder asks of Go's \<open>time\<close> package: the text of a rounded
  duration, \<open>d.Round(time.Second).String()\<close>, and the text of an instant under the layout
  \<open>2006-01-02T15:04:05.000Z\<close> in UTC. Instants and durations are nanoseconds.
\<close>

definition second_ns :: int where "second_ns = 1000000000"

text \<open>\<open>Duration.Round\<close> to seconds: to the nearest, halves away from zero.\<close>

definition round_second :: "int \<Rightarrow> int" where
  "round_second d =
     (let r = \<bar>d\<bar> mod second_ns;
          a = (if r + r < second_ns then \<bar>d\<bar> - r else \<bar>d\<bar> + second_ns - r)
      in if d < 0 then - a else a)"

text \<open>\<open>Duration.String\<close> of a whole number of seconds: \<open>0s\<close>, \<open>59s\<close>, \<open>1m5s\<close>, \<open>2h0m0s\<close>.\<close>

definition seconds_string :: "nat \<Rightarrow> string" where
  "seconds_string u =
     (let s = show_nat (u mod 60) @ ''s''; m = u div 60
      in if m = 0 then s
         else let ms = show_nat (m mod 60) @ ''m'' @ s; h = m div 60
              in if h = 0 then ms else show_nat h @ ''h'' @ ms)"

definition duration_string :: "int \<Rightarrow> string" where
  "duration_string d =
     (if d < 0 then ''-'' @ seconds_string (nat (- d div second_ns))
      else seconds_string (nat (d div second_ns)))"

text \<open>
  The civil date of a day number (days since 1970-01-01), in the proleptic Gregorian calendar.
  A year starts in March for the computation, so that the leap day is the last of the year.
\<close>

definition civil_date :: "int \<Rightarrow> int \<times> int \<times> int" where
  "civil_date days =
     (let z = days + 719468;
          era = z div 146097;
          doe = z mod 146097;
          yoe = (doe - doe div 1460 + doe div 36524 - doe div 146096) div 365;
          doy = doe - (365 * yoe + yoe div 4 - yoe div 100);
          mp = (5 * doy + 2) div 153;
          d = doy - (153 * mp + 2) div 5 + 1;
          m = (if mp < 10 then mp + 3 else mp - 9);
          y = yoe + era * 400 + (if m \<le> 2 then 1 else 0)
      in (y, m, d))"

definition format_time :: "time \<Rightarrow> string" where
  "format_time t =
     (let secs = t div second_ns;
          ms = (t mod second_ns) div 1000000;
          sod = secs mod 86400
      in case civil_date (secs div 86400) of
           (y, m, d) \<Rightarrow>
             show_pad 4 (nat y) @ ''-'' @ show_pad 2 (nat m) @ ''-'' @ show_pad 2 (nat d) @ ''T'' @
             show_pad 2 (nat (sod div 3600)) @ '':'' @ show_pad 2 (nat (sod div 60 mod 60)) @ '':'' @
             show_pad 2 (nat (sod mod 60)) @ ''.'' @ show_pad 3 (nat ms) @ ''Z'')"

lemma civil_date_epoch: "civil_date 0 = (1970, 1, 1)"
  by code_simp

lemma civil_date_leap: "civil_date 19782 = (2024, 2, 29)" "civil_date 19783 = (2024, 3, 1)"
  by code_simp+

lemma duration_strings:
  "duration_string (round_second 0) = ''0s''"
  "duration_string (round_second 65499999999) = ''1m5s''"
  "duration_string (round_second 7199500000000) = ''2h0m0s''"
  by code_simp+

lemma round_second_whole: "round_second d mod second_ns = 0"
proof -
  have "(\<bar>d\<bar> - \<bar>d\<bar> mod second_ns) mod second_ns = 0"
    by (simp add: mod_diff_right_eq [symmetric] minus_mod_eq_mult_div)
  moreover have "(\<bar>d\<bar> + second_ns - \<bar>d\<bar> mod second_ns) mod second_ns = 0"
    using calculation by (metis add_diff_eq add.commute mod_add_self1 diff_add_eq)
  ultimately show ?thesis
    by (auto simp: round_second_def Let_def mod_minus_eq zmod_zminus1_eq_if)
qed

end
