(* ===== verification/Namespace_Status.thy ===== *)
theory Namespace_Status
  imports Library_Params Go_Time
begin

text \<open>
  The operations of \<open>namespacescope_controller.go\<close> that compute and write the status of a
  NamespaceScope: defaulting (\<open>setDefaults\<close>), validation of the member namespaces
  (\<open>checkGetNSAuth\<close>, \<open>getValidatedNamespaces\<close>, \<open>UpdateStatus\<close>), the unprojected roles
  (\<open>UpdateUnprojectedRolesStatus\<close>), the union over the instances that share a ConfigMap
  (\<open>getAllValidatedNamespaceMembers\<close>), the rolling history
  (\<open>recordOperationTimingAndStatus\<close>) and the finalizer (\<open>addFinalizer\<close>).

  The Go code mutates \<open>*instance\<close>; the model returns the new instance. \<open>Status().Update\<close> and
  \<open>Update\<close> replace the instance in memory by the object the API server returns.
\<close>

section \<open>Defaults\<close>

definition default_spec :: "nss_spec \<Rightarrow> nss_spec" where
  "default_spec s =
     (let s1 = (if configmapName s = [] then s\<lparr>configmapName := NamespaceScopeConfigmapName\<rparr> else s)
      in if length (restartLabels s1) = 0
         then s1\<lparr>restartLabels := [(DefaultRestartLabelsKey, DefaultRestartLabelsValue)]\<rparr>
         else s1)"

definition setDefaults :: "nss \<Rightarrow> nss" where
  "setDefaults inst = inst\<lparr>spec := default_spec (spec inst)\<rparr>"

section \<open>Validated namespaces\<close>

definition checkGetNSAuth :: "bool proc" where
  "checkGetNSAuth =
     bind (call (Review \<lparr>raGroup = [], raResource = ''namespaces'', raNamespace = [], raVerb = ''get''\<rparr>)
             as_review)
       (\<lambda>x. case x of Inl e \<Rightarrow> Ret False | Inr st \<Rightarrow> Ret (rsAllowed st))"

primrec validate_loop :: "string \<Rightarrow> string list \<Rightarrow> string list \<Rightarrow> (err + string list) proc" where
  "validate_loop operatorNs [] validatedNs = Ret (Inr validatedNs)"
| "validate_loop operatorNs (nsMem # rest) validatedNs =
     (if nsMem = operatorNs then validate_loop operatorNs rest (validatedNs @ [nsMem])
      else bind checkGetNSAuth (\<lambda>auth.
        if auth then
          bind (call (Get Live KNamespace ([], nsMem)) (as_obj the_namespace)) (\<lambda>x.
            case x of
              Inl e \<Rightarrow> if is_not_found e then validate_loop operatorNs rest validatedNs
                       else Ret (Inl e)
            | Inr ns \<Rightarrow> if nsTerminating ns then validate_loop operatorNs rest validatedNs
                        else validate_loop operatorNs rest (validatedNs @ [nsMem]))
        else validate_loop operatorNs rest (validatedNs @ [nsMem])))"

definition getValidatedNamespaces :: "nss \<Rightarrow> (err + string list) proc" where
  "getValidatedNamespaces inst =
     go_try GetOperatorNamespace (\<lambda>operatorNs.
       validate_loop operatorNs (namespaceMembers (spec inst)) [])"

text \<open>\<open>r.Client.Status().Update(ctx, instance)\<close> and \<open>r.Client.Update(ctx, instance)\<close>.\<close>

definition put_status :: "nss \<Rightarrow> (err + nss) proc" where
  "put_status inst = call (StatusUpdate (ONss inst)) (as_obj the_nss)"

definition put_nss :: "nss \<Rightarrow> (err + nss) proc" where
  "put_nss inst = call (Update (ONss inst)) (as_obj the_nss)"

definition UpdateStatus :: "nss \<Rightarrow> (err + nss) proc" where
  "UpdateStatus inst =
     go_try (getValidatedNamespaces inst) (\<lambda>validatedNamespaces.
       if \<not> StringSliceContentEqual (validatedMembers (nssStatus inst)) validatedNamespaces
       then put_status (inst\<lparr>nssStatus := (nssStatus inst)\<lparr>validatedMembers := validatedNamespaces\<rparr>\<rparr>)
       else Ret (Inr inst))"

definition UpdateUnprojectedRolesStatus :: "nss \<Rightarrow> string list \<Rightarrow> (err + nss) proc" where
  "UpdateUnprojectedRolesStatus inst roles =
     (if 0 < length roles then
        bind (ToStringSlice (MakeSet roles)) (\<lambda>uniqueRoles.
          if \<not> StringSliceContentEqual (unprojectedRoles (nssStatus inst)) uniqueRoles
          then put_status (inst\<lparr>nssStatus := (nssStatus inst)\<lparr>unprojectedRoles := uniqueRoles\<rparr>\<rparr>)
          else Ret (Inr inst))
      else if 0 < length (unprojectedRoles (nssStatus inst)) then
        put_status (inst\<lparr>nssStatus := (nssStatus inst)\<lparr>unprojectedRoles := []\<rparr>\<rparr>)
      else Ret (Inr inst))"

section \<open>The instances that share a ConfigMap\<close>

fun members_loop :: "nss \<Rightarrow> nss list \<Rightarrow> string list \<Rightarrow> string list" where
  "members_loop inst [] acc = acc"
| "members_loop inst (item # items) acc =
     (let cr = setDefaults item in
      if \<not> time_is_zero (omDeletionTimestamp (nssMeta cr)) then members_loop inst items acc
      else if configmapName (spec inst) = configmapName (spec cr)
           then members_loop inst items (acc @ validatedMembers (nssStatus cr))
           else members_loop inst items acc)"

definition getAllValidatedNamespaceMembers :: "nss \<Rightarrow> (err + string list) proc" where
  "getAllValidatedNamespaceMembers inst =
     go_try (call (ListOf Cached KNss (nss_namespace inst) []) (as_list the_nss)) (\<lambda>items.
       bind (ToStringSlice (MakeSet (members_loop inst items []))) (\<lambda>xs. Ret (Inr xs)))"

section \<open>History and timing\<close>

definition new_history :: "string \<Rightarrow> string list \<Rightarrow> string list" where
  "new_history m hist =
     (let newHistory = m # hist in if length newHistory > 3 then take 3 newHistory else newHistory)"

definition record_status :: "time \<Rightarrow> time \<Rightarrow> string \<Rightarrow> err option \<Rightarrow> nss_status \<Rightarrow> nss_status" where
  "record_status startT endT ph reconcileErr st =
     (let st1 = st\<lparr>status := ph\<rparr>;
          st2 = (case reconcileErr of
                   Some e \<Rightarrow> st1\<lparr>reconcileHistory :=
                     new_history (format_time endT @ '' '' @ err_text e) (reconcileHistory st1)\<rparr>
                 | None \<Rightarrow>
                     if ph = ''Completed'' then st1\<lparr>reconcileHistory :=
                       new_history (format_time endT @
                         '' The last reconciliation was completed successfully.'') (reconcileHistory st1)\<rparr>
                     else st1);
          newEntry = \<lparr>startTime = startT, endTime = endT,
                      totalDuration = duration_string (round_second (endT - startT)),
                      phase = ph, dependencyTime = []\<rparr>;
          updatedTiming = newEntry # operationTiming st2;
          trimmed = (if length updatedTiming > 5 then take 5 updatedTiming else updatedTiming)
      in st2\<lparr>operationTiming := trimmed\<rparr>)"

text \<open>The argument \<open>endMessage\<close> is not used by the code. Failures are logged only.\<close>

definition recordOperationTimingAndStatus ::
  "nss \<Rightarrow> time \<Rightarrow> string \<Rightarrow> string \<Rightarrow> err option \<Rightarrow> unit proc" where
  "recordOperationTimingAndStatus inst startT ph endMessage reconcileErr =
     bind (call Now as_time) (\<lambda>endT.
       bind (call (Get Cached KNss (nss_key inst)) (as_obj the_nss)) (\<lambda>x.
         case x of
           Inl e \<Rightarrow> Ret ()
         | Inr latest \<Rightarrow>
             bind (put_status (latest\<lparr>nssStatus :=
                 record_status startT endT ph reconcileErr (nssStatus latest)\<rparr>))
               (\<lambda>_. Ret ())))"

section \<open>The finalizer\<close>

definition addFinalizer :: "pkg \<Rightarrow> nss \<Rightarrow> (err + nss) proc" where
  "addFinalizer p inst =
     (if map_get (omLabels (nssMeta inst)) ''cpfs.helm/install'' = ''true'' then Ret (Inr inst)
      else
        let m = nssMeta inst;
            inst' = inst\<lparr>nssMeta :=
              m\<lparr>omFinalizers := pkgAddFinalizer p (omFinalizers m) NamespaceScopeFinalizer\<rparr>\<rparr>
        in put_nss inst')"

section \<open>Lemmas\<close>

lemma default_spec_idem [simp]: "default_spec (default_spec s) = default_spec s"
  by (simp add: default_spec_def Let_def NamespaceScopeConfigmapName_def)

lemma setDefaults_idem [simp]: "setDefaults (setDefaults n) = setDefaults n"
  by (simp add: setDefaults_def)

lemma setDefaults_sel [simp]:
  "nssMeta (setDefaults n) = nssMeta n" "nssStatus (setDefaults n) = nssStatus n"
  "spec (setDefaults n) = default_spec (spec n)"
  by (simp_all add: setDefaults_def)

lemma default_spec_sel [simp]:
  "namespaceMembers (default_spec s) = namespaceMembers s"
  "allowSubsetProjection (default_spec s) = allowSubsetProjection s"
  "serviceAccountMembers (default_spec s) = serviceAccountMembers s"
  "csvInjector (default_spec s) = csvInjector s"
  "configmapName (default_spec s) =
     (if configmapName s = [] then NamespaceScopeConfigmapName else configmapName s)"
  "restartLabels (default_spec s) = (if restartLabels s = []
     then [(DefaultRestartLabelsKey, DefaultRestartLabelsValue)] else restartLabels s)"
  by (simp_all add: default_spec_def Let_def)

lemma default_spec_nonempty [simp]:
  "configmapName (default_spec s) \<noteq> []" "restartLabels (default_spec s) \<noteq> []"
  by (simp_all add: NamespaceScopeConfigmapName_def)

text \<open>The live instances of the list that use the given ConfigMap, and their members.\<close>

definition shares_config_map :: "nss \<Rightarrow> nss \<Rightarrow> bool" where
  "shares_config_map inst cr \<longleftrightarrow>
     time_is_zero (omDeletionTimestamp (nssMeta cr)) \<and>
     configmapName (spec inst) = configmapName (default_spec (spec cr))"

lemma members_loop_eq:
  "members_loop inst items acc =
     acc @ concat (map (\<lambda>cr. validatedMembers (nssStatus cr)) (filter (shares_config_map inst) items))"
  by (induction inst items acc rule: members_loop.induct)
     (simp_all add: Let_def shares_config_map_def del: default_spec_sel)

lemma wp_put_status [proc_simps]:
  "wp P S Q (put_status n) \<longleftrightarrow>
     P (StatusUpdate (ONss n)) \<and> (\<forall>r. Q (Done (as_obj the_nss r)))"
  by (simp add: put_status_def wp_call)

lemma wp_put_nss [proc_simps]:
  "wp P S Q (put_nss n) \<longleftrightarrow> P (Update (ONss n)) \<and> (\<forall>r. Q (Done (as_obj the_nss r)))"
  by (simp add: put_nss_def wp_call)

lemma length_new_history: "length (new_history m h) \<le> 3"
  by (simp add: new_history_def Let_def)

lemma new_history_take: "new_history m h = take 3 (m # h)"
  by (simp add: new_history_def Let_def)

end
