(* ===== verification/Sha256.thy ===== *)
theory Sha256
  imports Go_Strings "HOL-Library.Word"
begin

text \<open>
  \<open>crypto/sha256\<close> and \<open>encoding/hex\<close> of Go's standard library, as the operator uses them: the
  names of projected roles and the restart annotation carry the first seven bytes of a digest,
  in hexadecimal. The digest is FIPS 180-4, on 32-bit words.
\<close>

unbundle bit_operations_syntax

type_synonym w32 = "32 word"

text \<open>The round constants and the initial state, in decimal.\<close>

definition sha_k :: "w32 list" where
  "sha_k = [
    1116352408, 1899447441, 3049323471, 3921009573, 961987163, 1508970993, 2453635748, 2870763221,
    3624381080, 310598401, 607225278, 1426881987, 1925078388, 2162078206, 2614888103, 3248222580,
    3835390401, 4022224774, 264347078, 604807628, 770255983, 1249150122, 1555081692, 1996064986,
    2554220882, 2821834349, 2952996808, 3210313671, 3336571891, 3584528711, 113926993, 338241895,
    666307205, 773529912, 1294757372, 1396182291, 1695183700, 1986661051, 2177026350, 2456956037,
    2730485921, 2820302411, 3259730800, 3345764771, 3516065817, 3600352804, 4094571909, 275423344,
    430227734, 506948616, 659060556, 883997877, 958139571, 1322822218, 1537002063, 1747873779,
    1955562222, 2024104815, 2227730452, 2361852424, 2428436474, 2756734187, 3204031479, 3329325298]"

type_synonym sha_state = "w32 \<times> w32 \<times> w32 \<times> w32 \<times> w32 \<times> w32 \<times> w32 \<times> w32"

definition sha_init :: sha_state where
  "sha_init = (1779033703, 3144134277, 1013904242, 2773480762,
               1359893119, 2600822924, 528734635, 1541459225)"

definition rotr32 :: "nat \<Rightarrow> w32 \<Rightarrow> w32" where
  "rotr32 n x = drop_bit n x OR push_bit (32 - n) x"

definition small_sigma0 :: "w32 \<Rightarrow> w32" where
  "small_sigma0 x = rotr32 7 x XOR rotr32 18 x XOR drop_bit 3 x"
definition small_sigma1 :: "w32 \<Rightarrow> w32" where
  "small_sigma1 x = rotr32 17 x XOR rotr32 19 x XOR drop_bit 10 x"
definition big_sigma0 :: "w32 \<Rightarrow> w32" where
  "big_sigma0 x = rotr32 2 x XOR rotr32 13 x XOR rotr32 22 x"
definition big_sigma1 :: "w32 \<Rightarrow> w32" where
  "big_sigma1 x = rotr32 6 x XOR rotr32 11 x XOR rotr32 25 x"

text \<open>The message schedule, latest word first: each new word is read off the last sixteen.\<close>

primrec sha_schedule :: "nat \<Rightarrow> w32 list \<Rightarrow> w32 list" where
  "sha_schedule 0 ws = ws"
| "sha_schedule (Suc n) ws =
     sha_schedule n ((small_sigma1 (ws ! 1) + ws ! 6 + small_sigma0 (ws ! 14) + ws ! 15) # ws)"

fun sha_round :: "sha_state \<Rightarrow> w32 \<times> w32 \<Rightarrow> sha_state" where
  "sha_round (a, b, c, d, e, f, g, h) (k, w) =
     (let t1 = h + big_sigma1 e + ((e AND f) XOR (NOT e AND g)) + k + w;
          t2 = big_sigma0 a + ((a AND b) XOR (a AND c) XOR (b AND c))
      in (t1 + t2, a, b, c, d + t1, e, f, g))"

fun sha_add :: "sha_state \<Rightarrow> sha_state \<Rightarrow> sha_state" where
  "sha_add (a, b, c, d, e, f, g, h) (a', b', c', d', e', f', g', h') =
     (a + a', b + b', c + c', d + d', e + e', f + f', g + g', h + h')"

definition sha_block :: "sha_state \<Rightarrow> w32 list \<Rightarrow> sha_state" where
  "sha_block st ws = sha_add st (foldl sha_round st (zip sha_k (rev (sha_schedule 48 (rev ws)))))"

text \<open>Bytes are integers from 0 to 255; words are big-endian.\<close>

definition bytes_of_string :: "string \<Rightarrow> int list" where
  "bytes_of_string s = map of_char s"

definition be_bytes :: "nat \<Rightarrow> int \<Rightarrow> int list" where
  "be_bytes n x = map (\<lambda>i. (x div 256 ^ (n - 1 - i)) mod 256) [0..<n]"

definition sha_pad :: "int list \<Rightarrow> int list" where
  "sha_pad bs =
     (let l = length bs in bs @ [128] @ replicate ((119 - l mod 64) mod 64) 0 @ be_bytes 8 (8 * int l))"

fun words_of_bytes :: "int list \<Rightarrow> w32 list" where
  "words_of_bytes (a # b # c # d # bs) =
     word_of_int (((a * 256 + b) * 256 + c) * 256 + d) # words_of_bytes bs"
| "words_of_bytes _ = []"

function sha_blocks :: "sha_state \<Rightarrow> w32 list \<Rightarrow> sha_state" where
  "sha_blocks st ws = (if ws = [] then st else sha_blocks (sha_block st (take 16 ws)) (drop 16 ws))"
  by pat_completeness auto
termination
  by (relation "measure (\<lambda>(st, ws). length ws)") auto

declare sha_blocks.simps [simp del]

fun bytes_of_state :: "sha_state \<Rightarrow> int list" where
  "bytes_of_state (a, b, c, d, e, f, g, h) =
     concat (map (\<lambda>w. be_bytes 4 (uint w)) [a, b, c, d, e, f, g, h])"

definition sha256_sum :: "string \<Rightarrow> int list" where
  "sha256_sum s = bytes_of_state (sha_blocks sha_init (words_of_bytes (sha_pad (bytes_of_string s))))"

definition hex_encode :: "int list \<Rightarrow> string" where
  "hex_encode bs = concat (map (\<lambda>b. [hex_digit (nat (b div 16)), hex_digit (nat b)]) bs)"

text \<open>\<open>h := sha256.Sum256([]byte(s)); hex.EncodeToString(h[:7])\<close>.\<close>

definition hash7 :: "string \<Rightarrow> string" where
  "hash7 s = hex_encode (take 7 (sha256_sum s))"

lemma length_be_bytes [simp]: "length (be_bytes n x) = n"
  by (simp add: be_bytes_def)

lemma length_sha256_sum [simp]: "length (sha256_sum s) = 32"
proof -
  have "length (bytes_of_state st) = 32" for st
    by (cases st rule: bytes_of_state.cases) simp
  then show ?thesis
    by (simp add: sha256_sum_def)
qed

lemma length_hex_encode [simp]: "length (hex_encode bs) = 2 * length bs"
  by (induction bs) (auto simp: hex_encode_def)

lemma length_hash7 [simp]: "length (hash7 s) = 14"
  by (simp add: hash7_def)

lemma hex_digit_range: "hex_digit d \<in> set ''0123456789abcdef''"
  unfolding hex_digit_def by (rule nth_mem) simp

lemma hash7_chars: "set (hash7 s) \<subseteq> set ''0123456789abcdef''"
proof
  fix x
  assume "x \<in> set (hash7 s)"
  then obtain b where "x = hex_digit (nat (b div 16)) \<or> x = hex_digit (nat b)"
    by (auto simp: hash7_def hex_encode_def)
  then show "x \<in> set ''0123456789abcdef''"
    using hex_digit_range by metis
qed

end
