(* ===== verification/Rules_Filter.thy ===== *)
theory Rules_Filter
  imports Kube_Objects
begin

text \<open>
  \<open>rulesFilter\<close> and its helpers: which rules of a source Role may be copied into a member
  namespace. The rules are compared by what they allow, with the RBAC authorizer's matching of
  a request against a rule as the semantics, so that the statements speak of permissions and
  not of list manipulations.
\<close>

section \<open>The code\<close>

definition supportedVerbs :: "string list" where
  "supportedVerbs = [''create'', ''delete'', ''get'', ''list'', ''patch'', ''update'', ''watch'',
     ''deletecollection'']"

text \<open>\<open>result\<close> and the map \<open>seen\<close> of the source hold the same strings at every point.\<close>

definition add_once :: "string list \<Rightarrow> string \<Rightarrow> string list" where
  "add_once result v = (if v \<in> set result then result else result @ [v])"

fun normalize_loop :: "string list \<Rightarrow> string list \<Rightarrow> string list" where
  "normalize_loop [] result = result"
| "normalize_loop (v # vs) result =
     (if v = ''*'' then normalize_loop vs (foldl add_once result supportedVerbs)
      else if v \<in> set supportedVerbs then normalize_loop vs (add_once result v)
      else normalize_loop vs result)"

definition normalizeVerbs :: "string list \<Rightarrow> string list" where
  "normalizeVerbs verbs = normalize_loop verbs []"

fun split_wildcard_loop :: "string list \<Rightarrow> string list \<Rightarrow> bool \<Rightarrow> string list \<times> bool" where
  "split_wildcard_loop [] result wildcard = (result, wildcard)"
| "split_wildcard_loop (s # ss) result wildcard =
     (if s = ''*'' then split_wildcard_loop ss result True
      else split_wildcard_loop ss (result @ [s]) wildcard)"

definition splitWildcard :: "string list \<Rightarrow> string list \<times> bool" where
  "splitWildcard list = split_wildcard_loop list [] False"

fun intersect_loop :: "string list \<Rightarrow> string list \<Rightarrow> string list \<Rightarrow> string list" where
  "intersect_loop [] b result = result"
| "intersect_loop (s # ss) b result =
     (if s \<notin> set b then intersect_loop ss b result
      else intersect_loop ss b (add_once result s))"

definition intersectStrings :: "string list \<Rightarrow> string list \<Rightarrow> string list" where
  "intersectStrings a b = intersect_loop a b []"

definition intersectResourceNames :: "string list \<Rightarrow> string list \<Rightarrow> string list \<times> bool" where
  "intersectResourceNames a b =
     (if length a = 0 then (b, True)
      else if length b = 0 then (a, True)
      else let result = intersectStrings a b in (result, 0 < length result))"

definition intersectWithWildcard :: "string list \<Rightarrow> bool \<Rightarrow> string list \<Rightarrow> string list" where
  "intersectWithWildcard a aWild b0 =
     (let (b, bWild) = splitWildcard b0 in
      if aWild \<and> bWild then [''*'']
      else if aWild then b
      else if bWild then a
      else intersectStrings a b)"

definition new_rule :: "string list \<Rightarrow> string list \<Rightarrow> string list \<Rightarrow> string list \<Rightarrow> policy_rule" where
  "new_rule groups resources names verbs =
     \<lparr>prVerbs = verbs, prAPIGroups = groups, prResources = resources, prResourceNames = names,
      prNonResourceURLs = []\<rparr>"

text \<open>One pass of the inner loop, over a rule of the operator's own Role.\<close>

definition managed_part ::
  "policy_rule \<Rightarrow> string list \<Rightarrow> string list \<Rightarrow> bool \<Rightarrow> string list \<Rightarrow> bool \<Rightarrow> policy_rule
     \<Rightarrow> policy_rule list" where
  "managed_part rule verbs groups groupWildcard resources resourceWildcard managed =
     (let managedVerbs = intersectStrings verbs (normalizeVerbs (prVerbs managed)) in
      if length managedVerbs = 0 then []
      else
        let managedGroups = intersectWithWildcard groups groupWildcard (prAPIGroups managed);
            managedResources = intersectWithWildcard resources resourceWildcard (prResources managed)
        in if length managedGroups = 0 \<or> length managedResources = 0 then []
           else
             let (resourceNames, ok) =
                   intersectResourceNames (prResourceNames rule) (prResourceNames managed)
             in if \<not> ok then []
                else [new_rule managedGroups managedResources resourceNames managedVerbs])"

fun managed_loop ::
  "policy_rule \<Rightarrow> string list \<Rightarrow> string list \<Rightarrow> bool \<Rightarrow> string list \<Rightarrow> bool \<Rightarrow> policy_rule list
     \<Rightarrow> policy_rule list \<Rightarrow> policy_rule list" where
  "managed_loop rule verbs groups gw resources rw [] result = result"
| "managed_loop rule verbs groups gw resources rw (managed # ms) result =
     managed_loop rule verbs groups gw resources rw ms
       (result @ managed_part rule verbs groups gw resources rw managed)"

text \<open>One pass of the outer loop, over a rule of the source Role.\<close>

definition filter_rule :: "policy_rule list \<Rightarrow> policy_rule \<Rightarrow> policy_rule list \<Rightarrow> policy_rule list" where
  "filter_rule nssManagedRule rule result =
     (if length (prAPIGroups rule) = 0 \<or> length (prResources rule) = 0 then result
      else
        let verbs = normalizeVerbs (prVerbs rule) in
        if length verbs = 0 then result
        else
          let (groups, groupWildcard) = splitWildcard (prAPIGroups rule);
              (resources, resourceWildcard) = splitWildcard (prResources rule);
              result1 = (if 0 < length groups \<and> 0 < length resources
                         then result @ [new_rule groups resources (prResourceNames rule) verbs]
                         else result)
          in if \<not> groupWildcard \<and> \<not> resourceWildcard then result1
             else managed_loop rule verbs groups groupWildcard resources resourceWildcard
                    nssManagedRule result1)"

fun filter_loop :: "policy_rule list \<Rightarrow> policy_rule list \<Rightarrow> policy_rule list \<Rightarrow> policy_rule list" where
  "filter_loop nssManagedRule [] result = result"
| "filter_loop nssManagedRule (src # orgRule) result =
     filter_loop nssManagedRule orgRule (filter_rule nssManagedRule src result)"

text \<open>The three names go to the log only.\<close>

definition rulesFilter ::
  "string \<Rightarrow> string \<Rightarrow> string \<Rightarrow> policy_rule list \<Rightarrow> policy_rule list \<Rightarrow> policy_rule list \<times> bool" where
  "rulesFilter roleName fromNs toNs orgRule nssManagedRule =
     (let result = filter_loop nssManagedRule orgRule [] in (result, 0 < length result))"

section \<open>What a rule allows\<close>

text \<open>
  A resource request, and the RBAC authorizer's test of a rule against it. The resource of a
  rule is \<open>*\<close>, a resource, a resource with its subresource, or \<open>*/sub\<close>.
\<close>

record attributes =
  atVerb :: string
  atAPIGroup :: string
  atResource :: string
  atSubresource :: string
  atName :: string

definition combined_resource :: "attributes \<Rightarrow> string" where
  "combined_resource a =
     (if atSubresource a = [] then atResource a else atResource a @ ''/'' @ atSubresource a)"

definition matches_any :: "string list \<Rightarrow> string \<Rightarrow> bool" where
  "matches_any xs x \<longleftrightarrow> ''*'' \<in> set xs \<or> x \<in> set xs"

definition resource_matches :: "string list \<Rightarrow> attributes \<Rightarrow> bool" where
  "resource_matches rs a \<longleftrightarrow>
     matches_any rs (combined_resource a) \<or>
     (atSubresource a \<noteq> [] \<and> ''*/'' @ atSubresource a \<in> set rs)"

definition name_matches :: "string list \<Rightarrow> attributes \<Rightarrow> bool" where
  "name_matches ns a \<longleftrightarrow> ns = [] \<or> atName a \<in> set ns"

definition rule_allows :: "policy_rule \<Rightarrow> attributes \<Rightarrow> bool" where
  "rule_allows r a \<longleftrightarrow>
     matches_any (prVerbs r) (atVerb a) \<and> matches_any (prAPIGroups r) (atAPIGroup a) \<and>
     resource_matches (prResources r) a \<and> name_matches (prResourceNames r) a"

definition rules_allow :: "policy_rule list \<Rightarrow> attributes \<Rightarrow> bool" where
  "rules_allow rs a \<longleftrightarrow> (\<exists>r \<in> set rs. rule_allows r a)"

text \<open>The part of a rule without wildcards in its groups and resources.\<close>

definition no_star :: "string list \<Rightarrow> string list" where
  "no_star xs = filter (\<lambda>s. s \<noteq> ''*'') xs"

definition explicit_part :: "policy_rule \<Rightarrow> policy_rule" where
  "explicit_part r = r\<lparr>prAPIGroups := no_star (prAPIGroups r), prResources := no_star (prResources r)\<rparr>"

definition has_wildcard :: "policy_rule \<Rightarrow> bool" where
  "has_wildcard r \<longleftrightarrow> ''*'' \<in> set (prAPIGroups r) \<or> ''*'' \<in> set (prResources r)"

text \<open>No resource entry is of the form \<open>*/sub\<close>.\<close>

definition no_subresource_patterns :: "policy_rule list \<Rightarrow> bool" where
  "no_subresource_patterns rs \<longleftrightarrow>
     (\<forall>r \<in> set rs. \<forall>x \<in> set (prResources r). \<not> has_prefix ''*/'' x)"

section \<open>Lemmas on the helpers\<close>

named_theorems rule_sets \<open>the elements of the lists the helpers compute\<close>

lemma set_add_once [rule_sets]: "set (add_once xs v) = insert v (set xs)"
  by (auto simp: add_once_def)

lemma set_foldl_add_once [rule_sets]: "set (foldl add_once xs vs) = set xs \<union> set vs"
  by (induction vs arbitrary: xs) (auto simp: rule_sets)

lemma set_normalize_loop:
  "set (normalize_loop vs acc) =
     set acc \<union> {v \<in> set supportedVerbs. v \<in> set vs \<or> ''*'' \<in> set vs}"
  by (induction vs acc rule: normalize_loop.induct) (auto simp: rule_sets)

lemma set_normalizeVerbs [rule_sets]:
  "set (normalizeVerbs vs) = {v \<in> set supportedVerbs. v \<in> set vs \<or> ''*'' \<in> set vs}"
  by (simp add: normalizeVerbs_def set_normalize_loop)

lemma split_wildcard_loop_eq:
  "split_wildcard_loop xs acc w = (acc @ no_star xs, w \<or> ''*'' \<in> set xs)"
  by (induction xs acc w rule: split_wildcard_loop.induct) (auto simp: no_star_def)

lemma splitWildcard_eq [simp]: "splitWildcard xs = (no_star xs, ''*'' \<in> set xs)"
  by (simp add: splitWildcard_def split_wildcard_loop_eq)

lemma set_no_star [rule_sets]: "set (no_star xs) = set xs - {''*''}"
  by (auto simp: no_star_def)

lemma set_intersect_loop: "set (intersect_loop a b acc) = set acc \<union> (set a \<inter> set b)"
  by (induction a b acc rule: intersect_loop.induct) (auto simp: rule_sets)

lemma set_intersectStrings [rule_sets]: "set (intersectStrings a b) = set a \<inter> set b"
  by (simp add: intersectStrings_def set_intersect_loop)

lemma distinct_add_once: "distinct xs \<Longrightarrow> distinct (add_once xs v)"
  by (simp add: add_once_def)

lemma distinct_intersect_loop: "distinct acc \<Longrightarrow> distinct (intersect_loop a b acc)"
  by (induction a b acc rule: intersect_loop.induct) (auto simp: distinct_add_once)

lemma set_intersectWithWildcard [rule_sets]:
  "set (intersectWithWildcard a w b) =
     (if w \<and> ''*'' \<in> set b then {''*''}
      else if w then set b - {''*''}
      else if ''*'' \<in> set b then set a
      else set a \<inter> set b)"
  by (auto simp: intersectWithWildcard_def rule_sets)

lemma star_not_supported [simp]: "''*'' \<notin> set supportedVerbs"
  by (simp add: supportedVerbs_def)

lemma length_zero_set: "length xs = 0 \<longleftrightarrow> set xs = {}"
  by simp

lemma new_rule_sel [simp]:
  "prVerbs (new_rule g r n v) = v" "prAPIGroups (new_rule g r n v) = g"
  "prResources (new_rule g r n v) = r" "prResourceNames (new_rule g r n v) = n"
  by (simp_all add: new_rule_def)

lemma explicit_part_sel [simp]:
  "prVerbs (explicit_part r) = prVerbs r" "prAPIGroups (explicit_part r) = no_star (prAPIGroups r)"
  "prResources (explicit_part r) = no_star (prResources r)"
  "prResourceNames (explicit_part r) = prResourceNames r"
  by (simp_all add: explicit_part_def)

lemma managed_loop_eq:
  "managed_loop rule verbs g gw r rw ms acc =
     acc @ concat (map (managed_part rule verbs g gw r rw) ms)"
  by (induction ms arbitrary: acc) auto

lemma filter_rule_append: "filter_rule ms src acc = acc @ filter_rule ms src []"
  by (simp add: filter_rule_def Let_def managed_loop_eq)

lemma filter_loop_eq: "filter_loop ms org acc = acc @ concat (map (\<lambda>src. filter_rule ms src []) org)"
proof (induction org arbitrary: acc)
  case (Cons src org)
  then show ?case
    using filter_rule_append [of ms src acc] by simp
qed simp

lemma in_rulesFilter:
  "r \<in> set (fst (rulesFilter rn f t org ms)) \<longleftrightarrow> (\<exists>src \<in> set org. r \<in> set (filter_rule ms src []))"
  by (auto simp: rulesFilter_def Let_def filter_loop_eq)

lemma rules_allow_rulesFilter:
  "rules_allow (fst (rulesFilter rn f t org ms)) a \<longleftrightarrow>
     (\<exists>src \<in> set org. rules_allow (filter_rule ms src []) a)"
  unfolding rules_allow_def using in_rulesFilter [of _ rn f t org ms] by blast

lemma resource_matches_mono: "set xs \<subseteq> set ys \<Longrightarrow> resource_matches xs a \<Longrightarrow> resource_matches ys a"
  by (auto simp: resource_matches_def matches_any_def)

lemma resource_matches_star: "''*'' \<in> set xs \<Longrightarrow> resource_matches xs a"
  by (simp add: resource_matches_def matches_any_def)

lemma intersectStrings_eq_Nil: "intersectStrings a b = [] \<longleftrightarrow> set a \<inter> set b = {}"
  by (metis set_empty set_intersectStrings)

lemma intersectResourceNames_iff:
  "intersectResourceNames a b = (ns, ok) \<Longrightarrow>
     ok \<and> name_matches ns at \<longleftrightarrow> name_matches a at \<and> name_matches b at"
  by (auto simp: intersectResourceNames_def name_matches_def Let_def rule_sets
      intersectStrings_eq_Nil split: if_splits)

section \<open>Permissions of one source rule\<close>

lemma matches_any_intersect:
  "matches_any (intersectWithWildcard (no_star g) (''*'' \<in> set g) gm) x \<longleftrightarrow>
     matches_any g x \<and> matches_any gm x"
  by (auto simp: matches_any_def rule_sets)

lemma resource_matches_intersect_sound:
  "resource_matches (intersectWithWildcard (no_star g) (''*'' \<in> set g) gm) a \<Longrightarrow>
     resource_matches g a \<and> resource_matches gm a"
  by (auto simp: resource_matches_def matches_any_def rule_sets split: if_splits)

lemma resource_matches_intersect:
  assumes "atSubresource a = [] \<or>
     (\<forall>x \<in> set g. \<not> has_prefix ''*/'' x) \<and> (\<forall>x \<in> set gm. \<not> has_prefix ''*/'' x)"
  shows "resource_matches (intersectWithWildcard (no_star g) (''*'' \<in> set g) gm) a \<longleftrightarrow>
     resource_matches g a \<and> resource_matches gm a"
proof -
  have "resource_matches xs a = matches_any xs (combined_resource a)"
    if "atSubresource a = [] \<or> (\<forall>x \<in> set xs. \<not> has_prefix ''*/'' x)" for xs
    using that by (auto simp: resource_matches_def)
  moreover have "atSubresource a = [] \<or>
     (\<forall>x \<in> set (intersectWithWildcard (no_star g) (''*'' \<in> set g) gm). \<not> has_prefix ''*/'' x)"
    using assms by (auto simp: rule_sets)
  ultimately show ?thesis
    using assms by (simp add: matches_any_intersect) blast
qed

lemma matches_any_nonempty: "matches_any xs x \<Longrightarrow> 0 < length xs"
  by (auto simp: matches_any_def)

lemma resource_matches_nonempty: "resource_matches xs a \<Longrightarrow> 0 < length xs"
  by (auto simp: resource_matches_def matches_any_def)

lemma matches_any_verbs [simp]:
  "matches_any (normalizeVerbs vs) v \<longleftrightarrow> v \<in> set supportedVerbs \<and> matches_any vs v"
  by (auto simp: matches_any_def rule_sets)

lemma matches_any_managed_verbs [simp]:
  "matches_any (intersectStrings (normalizeVerbs vs) (normalizeVerbs ws)) v \<longleftrightarrow>
     v \<in> set supportedVerbs \<and> matches_any vs v \<and> matches_any ws v"
  by (auto simp: matches_any_def rule_sets)

text \<open>The rule made from a source rule and a managed rule, as the inner loop builds it.\<close>

lemma in_managed_part:
  "r \<in> set (managed_part rule verbs g gw res rw m) \<longleftrightarrow>
     (\<exists>ns. intersectResourceNames (prResourceNames rule) (prResourceNames m) = (ns, True) \<and>
        intersectStrings verbs (normalizeVerbs (prVerbs m)) \<noteq> [] \<and>
        intersectWithWildcard g gw (prAPIGroups m) \<noteq> [] \<and>
        intersectWithWildcard res rw (prResources m) \<noteq> [] \<and>
        r = new_rule (intersectWithWildcard g gw (prAPIGroups m))
              (intersectWithWildcard res rw (prResources m)) ns
              (intersectStrings verbs (normalizeVerbs (prVerbs m))))"
  by (cases "intersectResourceNames (prResourceNames rule) (prResourceNames m)")
     (simp add: managed_part_def Let_def)

abbreviation wild_part :: "policy_rule \<Rightarrow> policy_rule \<Rightarrow> policy_rule list" where
  "wild_part src m \<equiv>
     managed_part src (normalizeVerbs (prVerbs src))
       (no_star (prAPIGroups src)) (''*'' \<in> set (prAPIGroups src))
       (no_star (prResources src)) (''*'' \<in> set (prResources src)) m"

lemma wild_part_sound:
  "rules_allow (wild_part src m) a \<Longrightarrow>
     atVerb a \<in> set supportedVerbs \<and> rule_allows src a \<and> rule_allows m a"
proof -
  assume "rules_allow (wild_part src m) a"
  then obtain ns where
    ns: "intersectResourceNames (prResourceNames src) (prResourceNames m) = (ns, True)" and
    al: "rule_allows (new_rule
      (intersectWithWildcard (no_star (prAPIGroups src)) (''*'' \<in> set (prAPIGroups src)) (prAPIGroups m))
      (intersectWithWildcard (no_star (prResources src)) (''*'' \<in> set (prResources src)) (prResources m))
      ns (intersectStrings (normalizeVerbs (prVerbs src)) (normalizeVerbs (prVerbs m)))) a"
    by (auto simp: rules_allow_def in_managed_part)
  show ?thesis
    using al intersectResourceNames_iff [OF ns, of a]
      resource_matches_intersect_sound [of "prResources src" "prResources m" a]
    by (simp add: rule_allows_def matches_any_intersect)
qed

lemma wild_part_complete:
  assumes "atVerb a \<in> set supportedVerbs" "rule_allows src a" "rule_allows m a"
    and "atSubresource a = [] \<or> no_subresource_patterns [src] \<and> no_subresource_patterns [m]"
  shows "rules_allow (wild_part src m) a"
proof -
  let ?v = "intersectStrings (normalizeVerbs (prVerbs src)) (normalizeVerbs (prVerbs m))"
  let ?g = "intersectWithWildcard (no_star (prAPIGroups src)) (''*'' \<in> set (prAPIGroups src)) (prAPIGroups m)"
  let ?r = "intersectWithWildcard (no_star (prResources src)) (''*'' \<in> set (prResources src)) (prResources m)"
  obtain ns ok where ns: "intersectResourceNames (prResourceNames src) (prResourceNames m) = (ns, ok)"
    by fastforce
  have names: "ok" "name_matches ns a"
    using intersectResourceNames_iff [OF ns, of a] assms(2,3) by (auto simp: rule_allows_def)
  have v: "matches_any ?v (atVerb a)" and g: "matches_any ?g (atAPIGroup a)"
    using assms(1-3) by (simp_all add: rule_allows_def matches_any_intersect)
  have r: "resource_matches ?r a"
    using assms(2-4) by (subst resource_matches_intersect)
      (auto simp: rule_allows_def no_subresource_patterns_def)
  have "new_rule ?g ?r ns ?v \<in> set (wild_part src m)"
    using ns names(1) matches_any_nonempty [OF v] matches_any_nonempty [OF g]
      resource_matches_nonempty [OF r] by (simp add: in_managed_part)
  moreover have "rule_allows (new_rule ?g ?r ns ?v) a"
    using v g r names(2) by (simp add: rule_allows_def)
  ultimately show ?thesis
    by (auto simp: rules_allow_def)
qed

lemma explicit_rule_allows:
  "rule_allows (new_rule (no_star (prAPIGroups src)) (no_star (prResources src))
      (prResourceNames src) (normalizeVerbs (prVerbs src))) a \<longleftrightarrow>
   atVerb a \<in> set supportedVerbs \<and> rule_allows (explicit_part src) a"
  by (auto simp: rule_allows_def)

lemma explicit_allows_nonempty:
  "rule_allows (explicit_part src) a \<Longrightarrow>
     no_star (prAPIGroups src) \<noteq> [] \<and> no_star (prResources src) \<noteq> []"
  by (auto simp: rule_allows_def resource_matches_def matches_any_def)

lemma rule_allows_nonempty:
  "rule_allows src a \<Longrightarrow> atVerb a \<in> set supportedVerbs \<Longrightarrow>
     prAPIGroups src \<noteq> [] \<and> prResources src \<noteq> [] \<and> normalizeVerbs (prVerbs src) \<noteq> []"
  using matches_any_nonempty [of "normalizeVerbs (prVerbs src)" "atVerb a"]
  by (auto simp: rule_allows_def resource_matches_def matches_any_def rule_sets)

lemma explicit_allows_src: "rule_allows (explicit_part src) a \<Longrightarrow> rule_allows src a"
  by (auto simp: rule_allows_def resource_matches_def matches_any_def rule_sets)

text \<open>What the filter makes of one source rule: the explicit part, then the managed parts.\<close>

lemma rules_allow_filter_rule:
  "rules_allow (filter_rule ms src []) a \<longleftrightarrow>
     atVerb a \<in> set supportedVerbs \<and> rule_allows (explicit_part src) a \<or>
     has_wildcard src \<and> (\<exists>m \<in> set ms. rules_allow (wild_part src m) a)"
  (is "?l \<longleftrightarrow> ?r")
proof
  assume ?l
  then show ?r
    by (auto simp: filter_rule_def Let_def managed_loop_eq rules_allow_def has_wildcard_def
        explicit_rule_allows split: if_splits)
next
  assume r: ?r
  then have allows: "rule_allows src a" and verb: "atVerb a \<in> set supportedVerbs"
    using wild_part_sound explicit_allows_src by blast+
  note ne = rule_allows_nonempty [OF allows verb]
  show ?l
    using r ne explicit_allows_nonempty [of src a]
    by (auto simp: filter_rule_def Let_def managed_loop_eq rules_allow_def has_wildcard_def
        explicit_rule_allows)
qed

lemma filter_rule_parts:
  "set (filter_rule ms src []) \<subseteq>
     insert (new_rule (no_star (prAPIGroups src)) (no_star (prResources src))
        (prResourceNames src) (normalizeVerbs (prVerbs src))) (\<Union>m \<in> set ms. set (wild_part src m))"
  unfolding filter_rule_def Let_def splitWildcard_eq prod.case managed_loop_eq
  by (simp add: subset_insertI2) blast

section \<open>Properties\<close>

lemma rules_allow_explicit:
  "(\<exists>src \<in> set org. rule_allows (explicit_part src) a) \<longleftrightarrow> rules_allow (map explicit_part org) a"
  by (simp add: rules_allow_def)

lemma rulesFilter_sound:
  assumes "rules_allow (fst (rulesFilter roleName fromNs toNs orgRule nssManagedRule)) a"
  shows "atVerb a \<in> set supportedVerbs \<and> rules_allow orgRule a \<and>
    (rules_allow (map explicit_part orgRule) a \<or> rules_allow nssManagedRule a)"
proof -
  from assms obtain src where src: "src \<in> set orgRule" and
    parts: "atVerb a \<in> set supportedVerbs \<and> rule_allows (explicit_part src) a \<or>
      (\<exists>m \<in> set nssManagedRule. rules_allow (wild_part src m) a)"
    by (auto simp: rules_allow_rulesFilter rules_allow_filter_rule)
  from parts have "atVerb a \<in> set supportedVerbs \<and> rule_allows src a \<and>
      (rule_allows (explicit_part src) a \<or> (\<exists>m \<in> set nssManagedRule. rule_allows m a))"
    using wild_part_sound explicit_allows_src by blast
  with src show ?thesis
    by (auto simp: rules_allow_def)
qed

text \<open>
  C1: \<open>rulesFilter\<close> grants exactly what it should. A request is allowed by the projected rules
  if and only if its verb is one that can be projected and either an explicit (wildcard-free)
  part of a source rule allows it, or a source rule with a wildcard allows it and the
  operator's own Role allows it too. (Entries \<open>*/sub\<close> match subresources only, and the
  string intersection of the code does not expand them: for a request on a subresource the
  equivalence asks that there are none.)
\<close>

theorem rulesFilter_exact:
  assumes "atSubresource a = [] \<or>
    no_subresource_patterns orgRule \<and> no_subresource_patterns nssManagedRule"
  shows "rules_allow (fst (rulesFilter roleName fromNs toNs orgRule nssManagedRule)) a \<longleftrightarrow>
    atVerb a \<in> set supportedVerbs \<and>
    (rules_allow (map explicit_part orgRule) a \<or>
     rules_allow (filter has_wildcard orgRule) a \<and> rules_allow nssManagedRule a)"
proof -
  have "rules_allow (wild_part src m) a \<longleftrightarrow>
      atVerb a \<in> set supportedVerbs \<and> rule_allows src a \<and> rule_allows m a"
    if "src \<in> set orgRule" "m \<in> set nssManagedRule" for src m
  proof -
    have "atSubresource a = [] \<or> no_subresource_patterns [src] \<and> no_subresource_patterns [m]"
      using assms that by (auto simp: no_subresource_patterns_def)
    then show ?thesis
      using wild_part_sound [of src m a] wild_part_complete [of a src m] by blast
  qed
  then show ?thesis
    unfolding rules_allow_rulesFilter rules_allow_filter_rule rules_allow_explicit [symmetric]
    by (auto simp: rules_allow_def [of "filter _ _"] rules_allow_def [of nssManagedRule])
qed

definition admin_rule :: policy_rule where
  "admin_rule = new_rule [''*''] [''*''] [] supportedVerbs"

definition reader_rule :: policy_rule where
  "reader_rule = new_rule [''*''] [''*''] [] [''get'']"

definition get_secret :: attributes where
  "get_secret = \<lparr>atVerb = ''get'', atAPIGroup = [], atResource = ''secrets'', atSubresource = [],
     atName = ''cert''\<rparr>"

lemma admin_allows [simp]: "rules_allow [admin_rule] get_secret" "rules_allow [reader_rule] get_secret"
  by (simp_all add: rules_allow_def rule_allows_def admin_rule_def reader_rule_def get_secret_def
      matches_any_def resource_matches_def name_matches_def supportedVerbs_def)

theorem rulesFilter_exact_witness:
  "rules_allow (fst (rulesFilter ''odlm'' ''from'' ''to'' [reader_rule] [admin_rule])) get_secret"
  using rulesFilter_exact [of get_secret "[reader_rule]" "[admin_rule]" "''odlm''" "''from''" "''to''"]
  by (simp add: has_wildcard_def reader_rule_def [THEN arg_cong, of prAPIGroups])
     (simp add: get_secret_def supportedVerbs_def)

text \<open>
  C24: no escalation. Whatever the two rule lists are, subresource patterns included, a request
  that the projected rules allow has a projectable verb, is allowed by the source Role, and is
  either allowed by a wildcard-free part of the source or within the operator's own Role.
\<close>

theorem rulesFilter_no_escalation:
  "{a. rules_allow (fst (rulesFilter roleName fromNs toNs orgRule nssManagedRule)) a} \<subseteq>
     {a. atVerb a \<in> set supportedVerbs} \<inter> {a. rules_allow orgRule a} \<inter>
     ({a. rules_allow (map explicit_part orgRule) a} \<union> {a. rules_allow nssManagedRule a})"
  using rulesFilter_sound by blast

text \<open>
  C25: a wildcard survives only where both sides have it. Every projected rule that still has
  \<open>*\<close> in its API groups (or in its resources) comes from a source Role and an operator's Role
  that both have \<open>*\<close> there, and no projected rule has the verb \<open>*\<close>.
\<close>

theorem rulesFilter_wildcards:
  "set (fst (rulesFilter roleName fromNs toNs orgRule nssManagedRule)) \<subseteq>
     {r. ''*'' \<notin> set (prVerbs r) \<and>
        (''*'' \<in> set (prAPIGroups r) \<longrightarrow>
           (\<exists>src \<in> set orgRule. ''*'' \<in> set (prAPIGroups src)) \<and>
           (\<exists>m \<in> set nssManagedRule. ''*'' \<in> set (prAPIGroups m))) \<and>
        (''*'' \<in> set (prResources r) \<longrightarrow>
           (\<exists>src \<in> set orgRule. ''*'' \<in> set (prResources src)) \<and>
           (\<exists>m \<in> set nssManagedRule. ''*'' \<in> set (prResources m)))}"
proof
  fix r
  assume "r \<in> set (fst (rulesFilter roleName fromNs toNs orgRule nssManagedRule))"
  then obtain src where src: "src \<in> set orgRule" and r: "r \<in> set (filter_rule nssManagedRule src [])"
    by (auto simp: in_rulesFilter)
  from subsetD [OF filter_rule_parts r]
  have parts: "r = new_rule (no_star (prAPIGroups src)) (no_star (prResources src))
        (prResourceNames src) (normalizeVerbs (prVerbs src)) \<or>
      (\<exists>m \<in> set nssManagedRule. r \<in> set (wild_part src m))"
    by (simp only: insert_iff UN_iff)
  have "''*'' \<notin> set (prVerbs r) \<and>
      (''*'' \<in> set (prAPIGroups r) \<longrightarrow> ''*'' \<in> set (prAPIGroups src) \<and>
         (\<exists>m \<in> set nssManagedRule. ''*'' \<in> set (prAPIGroups m))) \<and>
      (''*'' \<in> set (prResources r) \<longrightarrow> ''*'' \<in> set (prResources src) \<and>
         (\<exists>m \<in> set nssManagedRule. ''*'' \<in> set (prResources m)))"
    using parts
  proof
    assume "r = new_rule (no_star (prAPIGroups src)) (no_star (prResources src))
        (prResourceNames src) (normalizeVerbs (prVerbs src))"
    then show ?thesis by (simp add: rule_sets)
  next
    assume "\<exists>m \<in> set nssManagedRule. r \<in> set (wild_part src m)"
    then show ?thesis by (auto simp: in_managed_part rule_sets split: if_splits)
  qed
  with src show "r \<in> {r. ''*'' \<notin> set (prVerbs r) \<and>
        (''*'' \<in> set (prAPIGroups r) \<longrightarrow>
           (\<exists>src \<in> set orgRule. ''*'' \<in> set (prAPIGroups src)) \<and>
           (\<exists>m \<in> set nssManagedRule. ''*'' \<in> set (prAPIGroups m))) \<and>
        (''*'' \<in> set (prResources r) \<longrightarrow>
           (\<exists>src \<in> set orgRule. ''*'' \<in> set (prResources src)) \<and>
           (\<exists>m \<in> set nssManagedRule. ''*'' \<in> set (prResources m)))}"
    by blast
qed

lemma sample_filter:
  "fst (rulesFilter ''odlm'' ''from'' ''to'' [reader_rule] [admin_rule]) =
     [new_rule [''*''] [''*''] [] [''get'']]"
  by code_simp

theorem rulesFilter_wildcards_witness:
  "''*'' \<notin> set (prVerbs (hd (fst (rulesFilter ''odlm'' ''from'' ''to'' [reader_rule] [admin_rule])))) \<and>
   (\<exists>m \<in> set [admin_rule]. ''*'' \<in> set (prAPIGroups m))"
  using rulesFilter_wildcards [of "''odlm''" "''from''" "''to''" "[reader_rule]" "[admin_rule]"]
  by (simp add: sample_filter new_rule_def)

end
