(* ===== verification/History.thy ===== *)
theory History
  imports Interaction
begin

text \<open>
  Weakest preconditions that see the history: the requests made so far with their answers. A
  condition on a request may then say that it is justified by what was read before, for example
  that the rules written into a Role come from a Role that was read. Conditions are monotone in
  the history, which makes them stable when other goroutines add to it.
\<close>

type_synonym history = "(request \<times> response) set"

definition hist_mono :: "(history \<Rightarrow> 'x \<Rightarrow> bool) \<Rightarrow> bool" where
  "hist_mono P \<longleftrightarrow> (\<forall>H H' x. H \<subseteq> H' \<longrightarrow> P H x \<longrightarrow> P H' x)"

primrec hwp :: "(history \<Rightarrow> request \<Rightarrow> bool) \<Rightarrow> (history \<Rightarrow> msg \<Rightarrow> bool)
    \<Rightarrow> (history \<Rightarrow> 'a outcome \<Rightarrow> bool) \<Rightarrow> 'a proc \<Rightarrow> history \<Rightarrow> bool" where
  "hwp P S Q (Ret a) = (\<lambda>H. Q H (Done a))"
| "hwp P S Q Panic = (\<lambda>H. Q H Panicked)"
| "hwp P S Q Block = (\<lambda>H. Q H Blocked)"
| "hwp P S Q (Call q k) = (\<lambda>H. P H q \<and> (\<forall>r. hwp P S Q (k r) (insert (q, r) H)))"
| "hwp P S Q (Send m p) = (\<lambda>H. S H m \<and> hwp P S Q p H)"

declare hwp.simps [proc_simps]

lemma hist_monoD: "hist_mono P \<Longrightarrow> P H x \<Longrightarrow> H \<subseteq> H' \<Longrightarrow> P H' x"
  by (auto simp: hist_mono_def)

lemma hist_mono_const [simp]: "hist_mono (\<lambda>_. P)"
  by (simp add: hist_mono_def)

lemma wp_iff_hwp: "wp P S Q p \<longleftrightarrow> hwp (\<lambda>_. P) (\<lambda>_. S) (\<lambda>_. Q) p H"
  by (induction p arbitrary: H) auto

lemma hwp_bind [proc_simps]:
  "hwp P S Q (bind p f) H =
     hwp P S (\<lambda>H. and_then (Q H) (\<lambda>a. hwp P S Q (f a) H)) p H"
  by (induction p arbitrary: H) auto

lemma hwp_call [proc_simps]:
  "hwp P S Q (call q dec) H \<longleftrightarrow> P H q \<and> (\<forall>r. Q (insert (q, r) H) (Done (dec r)))"
  by (simp add: call_def)

lemma hwp_go_try [proc_simps]:
  "hwp P S Q (go_try p f) H =
     hwp P S (\<lambda>H. and_then (Q H)
       (\<lambda>x. case x of Inl e \<Rightarrow> Q H (Done (Inl e)) | Inr a \<Rightarrow> hwp P S Q (f a) H)) p H"
proof -
  have "hwp P S Q (case x of Inl e \<Rightarrow> Ret (Inl e) | Inr a \<Rightarrow> f a) H =
        (case x of Inl e \<Rightarrow> Q H (Done (Inl e)) | Inr a \<Rightarrow> hwp P S Q (f a) H)" for x H
    by (simp split: sum.split)
  then show ?thesis
    by (simp add: go_try_def hwp_bind)
qed

text \<open>A request with its two continuations, as the code tests the error of each call.\<close>

lemma hwp_call_cases:
  assumes "P H q"
    and "\<And>r e. dec r = Inl e \<Longrightarrow> hwp P S Q (f e) (insert (q, r) H)"
    and "\<And>r a. dec r = Inr a \<Longrightarrow> hwp P S Q (g a) (insert (q, r) H)"
  shows "hwp P S Q (bind (call q dec) (\<lambda>x. case x of Inl e \<Rightarrow> f e | Inr a \<Rightarrow> g a)) H"
  using assms by (auto simp: bind_call split: sum.split)

lemma hwp_conseq:
  "hwp P S Q p H \<Longrightarrow> (\<And>H' q. H \<subseteq> H' \<Longrightarrow> P H' q \<Longrightarrow> P' H' q) \<Longrightarrow>
   (\<And>H' m. H \<subseteq> H' \<Longrightarrow> S H' m \<Longrightarrow> S' H' m) \<Longrightarrow>
   (\<And>H' oc. H \<subseteq> H' \<Longrightarrow> Q H' oc \<Longrightarrow> Q' H' oc) \<Longrightarrow> hwp P' S' Q' p H"
proof (induction p arbitrary: H)
  case (Call q k)
  have "hwp P' S' Q' (k r) (insert (q, r) H)" for r
    using Call.prems by (intro Call.IH) auto
  then show ?case using Call.prems by simp
qed auto

lemma hwp_outcome:
  "hwp P S Q p H \<Longrightarrow> wp P' S' Q' p \<Longrightarrow> hwp P S (\<lambda>H' oc. Q H' oc \<and> Q' oc) p H"
  by (induction p arbitrary: H) auto

lemma hwp_both:
  "hwp P S Q p H \<Longrightarrow> hwp P' S Q' p H \<Longrightarrow> hwp P S (\<lambda>H' oc. Q H' oc \<and> Q' H' oc) p H"
  by (induction p arbitrary: H) auto

lemma hwp_grow:
  "hwp P S Q p H \<Longrightarrow> H \<subseteq> H' \<Longrightarrow> hist_mono P \<Longrightarrow> hist_mono S \<Longrightarrow> hist_mono Q \<Longrightarrow> hwp P S Q p H'"
proof (induction p arbitrary: H H')
  case (Call q k)
  have "hwp P S Q (k r) (insert (q, r) H')" for r
  proof (rule Call.IH [OF rangeI _ _ Call.prems(3-5)])
    show "hwp P S Q (k r) (insert (q, r) H)" using Call.prems(1) by simp
  qed (use Call.prems(2) in blast)
  moreover have "P H' q"
    using hist_monoD [OF Call.prems(3) _ Call.prems(2)] Call.prems(1) by simp
  ultimately show ?case by simp
next
  case (Send m p)
  have "hwp P S Q p H'"
    using Send.prems(1) by (intro Send.IH [OF _ Send.prems(2-5)]) simp
  moreover have "S H' m"
    using hist_monoD [OF Send.prems(4) _ Send.prems(2)] Send.prems(1) by simp
  ultimately show ?case by simp
next
  case (Ret a)
  show ?case using hist_monoD [OF Ret.prems(5) _ Ret.prems(2)] Ret.prems(1) by simp
next
  case Panic
  show ?case using hist_monoD [OF Panic.prems(5) _ Panic.prems(2)] Panic.prems(1) by simp
next
  case Block
  show ?case using hist_monoD [OF Block.prems(5) _ Block.prems(2)] Block.prems(1) by simp
qed

section \<open>Sequencing\<close>

text \<open>A condition on outcomes that holds whenever a step returns or panics.\<close>

definition any_end :: "history \<Rightarrow> (history \<Rightarrow> 'a outcome \<Rightarrow> bool) \<Rightarrow> bool" where
  "any_end H Q \<longleftrightarrow> (\<forall>H' oc. H \<subseteq> H' \<longrightarrow> oc \<noteq> Blocked \<longrightarrow> Q H' oc)"

lemma any_endD: "any_end H Q \<Longrightarrow> H \<subseteq> H' \<Longrightarrow> Q H' (Done x)" "any_end H Q \<Longrightarrow> H \<subseteq> H' \<Longrightarrow> Q H' Panicked"
  by (simp_all add: any_end_def)

lemma any_end_grow: "any_end H Q \<Longrightarrow> H \<subseteq> H' \<Longrightarrow> any_end H' Q"
  unfolding any_end_def by blast

text \<open>
  \<open>good_end R H Q\<close>: \<open>Q\<close> holds for every end, but a successful one needs to come with \<open>R\<close>. Of two
  steps in sequence, the first has to establish the \<open>R\<close> that the second starts from.
\<close>

definition good_end :: "(history \<Rightarrow> 'a \<Rightarrow> bool) \<Rightarrow> history \<Rightarrow> (history \<Rightarrow> (err + 'a) outcome \<Rightarrow> bool) \<Rightarrow> bool" where
  "good_end R H Q \<longleftrightarrow>
     (\<forall>H' oc. H \<subseteq> H' \<longrightarrow> oc \<noteq> Blocked \<longrightarrow> (\<forall>a. oc = Done (Inr a) \<longrightarrow> R H' a) \<longrightarrow> Q H' oc)"

lemma good_endD:
  "good_end R H Q \<Longrightarrow> H \<subseteq> H' \<Longrightarrow> Q H' (Done (Inl e))" "good_end R H Q \<Longrightarrow> H \<subseteq> H' \<Longrightarrow> Q H' Panicked"
  "good_end R H Q \<Longrightarrow> H \<subseteq> H' \<Longrightarrow> R H' a \<Longrightarrow> Q H' (Done (Inr a))"
  by (simp_all add: good_end_def)

lemma good_end_grow: "good_end R H Q \<Longrightarrow> H \<subseteq> H' \<Longrightarrow> good_end R H' Q"
  unfolding good_end_def by blast

lemma good_end_mono:
  assumes "good_end R H Q" "H \<subseteq> H'" "\<And>H2 a. H' \<subseteq> H2 \<Longrightarrow> R' H2 a \<Longrightarrow> R H2 a"
  shows "good_end R' H' Q"
  unfolding good_end_def
proof (intro allI impI)
  fix H2 and oc :: "(err + _) outcome"
  assume H2: "H' \<subseteq> H2" "oc \<noteq> Blocked" and R': "\<forall>a. oc = Done (Inr a) \<longrightarrow> R' H2 a"
  have "\<forall>a. oc = Done (Inr a) \<longrightarrow> R H2 a" using R' assms(3) [OF H2(1)] by simp
  moreover have "H \<subseteq> H2" using assms(2) H2(1) by (rule order_trans)
  ultimately show "Q H2 oc" using assms(1) H2(2) unfolding good_end_def by simp
qed

text \<open>A step whose success comes with \<open>R\<close>, then one whose success comes with \<open>R'\<close>.\<close>

lemma hwp_go_try_good:
  assumes "good_end R' H Q"
    and "\<And>Q'. good_end R H Q' \<Longrightarrow> hwp P S Q' p H"
    and "\<And>a H'. H \<subseteq> H' \<Longrightarrow> R H' a \<Longrightarrow> hwp P S Q (f a) H'"
  shows "hwp P S Q (go_try p f) H"
  unfolding hwp_go_try
proof (rule assms(2))
  show "good_end R H (\<lambda>H. and_then (Q H) (\<lambda>x. case x of Inl e \<Rightarrow> Q H (Done (Inl e)) | Inr a \<Rightarrow> hwp P S Q (f a) H))"
    unfolding good_end_def
  proof (intro allI impI, goal_cases)
    case (1 H' oc)
    then show ?case
      using good_endD(1,2) [OF assms(1)] assms(3) by (cases oc) (auto split: sum.split)
  qed
qed

lemma hwp_go_try_after:
  assumes "any_end H Q"
    and "\<And>Q'. good_end R H Q' \<Longrightarrow> hwp P S Q' p H"
    and "\<And>a H'. H \<subseteq> H' \<Longrightarrow> R H' a \<Longrightarrow> hwp P S Q (f a) H'"
  shows "hwp P S Q (go_try p f) H"
  by (rule hwp_go_try_good [OF _ assms(2,3)]) (use assms(1) in \<open>simp_all add: any_end_def good_end_def\<close>)

lemma hwp_go_try_any:
  assumes "any_end H Q" "\<And>a H'. H \<subseteq> H' \<Longrightarrow> hwp P S Q (f a) H'"
    and "\<And>Q'. any_end H Q' \<Longrightarrow> hwp P S Q' p H"
  shows "hwp P S Q (go_try p f) H"
  by (rule hwp_go_try_after [where R = "\<lambda>_ _. True", OF assms(1)])
     (auto simp: good_end_def any_end_def intro: assms(2,3))

section \<open>Runs\<close>

text \<open>
  The runs that are possible at all: those under the environment that may give any answer. Every
  run under an environment is one of them. \<open>ensures p P Q\<close> says that, whatever the environment
  does, every request of a run of \<open>p\<close> satisfies \<open>P\<close> of what was asked and answered before it,
  and the outcome of the run satisfies \<open>Q\<close> of everything that was asked and answered.
\<close>

definition possible :: "'a proc \<Rightarrow> trace \<Rightarrow> 'a outcome \<Rightarrow> bool" where
  "possible p tr oc \<longleftrightarrow> runs (\<lambda>(_ :: unit) _ _ _. True) p () tr oc ()"

definition ensures ::
  "'a proc \<Rightarrow> (history \<Rightarrow> request \<Rightarrow> bool) \<Rightarrow> (history \<Rightarrow> 'a outcome \<Rightarrow> bool) \<Rightarrow> bool" where
  "ensures p P Q \<longleftrightarrow>
     (\<forall>tr oc. possible p tr oc \<longrightarrow>
        (\<forall>i < length tr. P (set (take i tr)) (fst (tr ! i))) \<and> Q (set tr) oc)"

definition finishes :: "'a outcome \<Rightarrow> bool" where
  "finishes oc \<longleftrightarrow> (\<exists>a. oc = Done a)"

lemma finishes_simps [simp]: "finishes (Done a)" "\<not> finishes Panicked" "\<not> finishes Blocked"
  by (simp_all add: finishes_def)

lemma runs_possible: "runs E p s tr oc t \<Longrightarrow> possible p tr oc"
  unfolding possible_def by (induction rule: runs.induct) (auto intro: runs.intros)

lemma possible_exists: "\<exists>tr oc. possible p tr oc"
  unfolding possible_def
proof (induction p)
  case (Call q k)
  then obtain tr oc where "runs (\<lambda>(_ :: unit) _ _ _. True) (k ROk) () tr oc ()" by blast
  then show ?case by (auto simp: proc_simps)
qed (auto simp: proc_simps)

text \<open>A handler that sends nothing outside a fork cannot end on a send.\<close>

lemma hwp_runs:
  "runs E p s tr oc t \<Longrightarrow> hwp P (\<lambda>_ _. False) Q p H \<Longrightarrow>
     (\<forall>i < length tr. P (H \<union> set (take i tr)) (fst (tr ! i))) \<and> Q (H \<union> set tr) oc"
proof (induction arbitrary: H rule: runs.induct)
  case (runs_Call s q s1 r k tr oc t)
  have eq: "insert (q, r) H \<union> X = H \<union> insert (q, r) X" for X by auto
  have "hwp P (\<lambda>_ _. False) Q (k r) (insert (q, r) H)" "P H q"
    using runs_Call.prems by simp_all
  with runs_Call.IH [of "insert (q, r) H"] show ?case
    by (auto simp: eq less_Suc_eq_0_disj)
qed auto

lemma ensuresI: "hwp P (\<lambda>_ _. False) Q p {} \<Longrightarrow> ensures p P Q"
  unfolding ensures_def possible_def using hwp_runs [where H = "{}" and P = P and Q = Q] by fastforce

lemma ensures_wpI: "wp P (\<lambda>_. False) Q p \<Longrightarrow> ensures p (\<lambda>_. P) (\<lambda>_. Q)"
  by (rule ensuresI) (simp add: wp_iff_hwp [symmetric])

lemma ensures_conj:
  "ensures p P Q \<Longrightarrow> ensures p P' Q' \<Longrightarrow> ensures p (\<lambda>H q. P H q \<and> P' H q) (\<lambda>H oc. Q H oc \<and> Q' H oc)"
  by (auto simp: ensures_def)

lemma ensures_mono:
  "ensures p P Q \<Longrightarrow> (\<And>H q. P H q \<Longrightarrow> P' H q) \<Longrightarrow> (\<And>H oc. Q H oc \<Longrightarrow> Q' H oc) \<Longrightarrow> ensures p P' Q'"
  unfolding ensures_def by blast

lemma ensures_outcome: "ensures p P Q \<Longrightarrow> possible p tr oc \<Longrightarrow> Q (set tr) oc"
  by (simp add: ensures_def)

text \<open>Every request made anywhere in a run, and its answer.\<close>

lemma ensures_request:
  assumes "ensures p P Q" "possible p tr oc" "(q, r) \<in> set tr"
  obtains tr1 tr2 where "tr = tr1 @ (q, r) # tr2" "P (set tr1) q"
proof -
  obtain i where i: "i < length tr" "tr ! i = (q, r)"
    using assms(3) by (metis in_set_conv_nth)
  then have "P (set (take i tr)) q"
    using assms(1,2) by (force simp: ensures_def)
  then show ?thesis
    using that [of "take i tr" "drop (Suc i) tr"] i by (metis id_take_nth_drop)
qed

end
