(* ===== verification/Fork_Join.thy ===== *)
theory Fork_Join
  imports History
begin

text \<open>
  The concurrency idiom of \<open>PushRbacToNamespace\<close> and \<open>generateRBACToNamespace\<close>: one goroutine
  per element, a \<open>sync.WaitGroup\<close>, and two buffered channels of capacity \<open>n\<close> (errors, and lists
  of unprojected roles) that are read after \<open>wg.Wait()\<close>.

  A goroutine is a handler; its requests and its channel sends are its atomic steps. The
  scheduler is the environment: it answers \<open>Schedule n\<close> with a list of choices, each of which
  lets one goroutine make its next step; what is left when the choices are used up runs
  goroutine by goroutine. Every interleaving of a fork is the run of some list of choices. A
  send to a full channel waits; since nobody receives before \<open>wg.Wait()\<close>, a goroutine that
  still waits when all the others are done waits forever (\<open>Block\<close>).
\<close>

section \<open>Channels\<close>

fun is_err :: "msg \<Rightarrow> bool" where
  "is_err (SendErr e) = True"
| "is_err (SendUnprojected us) = False"

definition channel_count :: "bool \<Rightarrow> msg list \<Rightarrow> nat" where
  "channel_count b buf = length (filter (\<lambda>m. is_err m = b) buf)"

definition has_room :: "nat \<Rightarrow> msg list \<Rightarrow> msg \<Rightarrow> bool" where
  "has_room n buf m \<longleftrightarrow> channel_count (is_err m) buf < n"

fun errors_of :: "msg list \<Rightarrow> err list" where
  "errors_of [] = []"
| "errors_of (SendErr e # ms) = e # errors_of ms"
| "errors_of (SendUnprojected us # ms) = errors_of ms"

fun unprojected_of :: "msg list \<Rightarrow> string list" where
  "unprojected_of [] = []"
| "unprojected_of (SendErr e # ms) = unprojected_of ms"
| "unprojected_of (SendUnprojected us # ms) = us @ unprojected_of ms"

section \<open>Running the goroutines\<close>

primrec run_alone :: "nat \<Rightarrow> unit proc \<Rightarrow> msg list \<Rightarrow> msg list proc" where
  "run_alone n (Ret a) buf = Ret buf"
| "run_alone n Panic buf = Panic"
| "run_alone n Block buf = Block"
| "run_alone n (Call q k) buf = Call q (\<lambda>r. run_alone n (k r) buf)"
| "run_alone n (Send m p) buf = (if has_room n buf m then run_alone n p (buf @ [m]) else Block)"

primrec drain :: "nat \<Rightarrow> unit proc list \<Rightarrow> msg list \<Rightarrow> msg list proc" where
  "drain n [] buf = Ret buf"
| "drain n (t # ts) buf = bind (run_alone n t buf) (\<lambda>buf'. drain n ts buf')"

text \<open>One choice of the scheduler: the goroutine it names makes its next step.\<close>

definition step_thread ::
  "nat \<Rightarrow> nat \<Rightarrow> (unit proc list \<Rightarrow> msg list \<Rightarrow> msg list proc) \<Rightarrow> unit proc list \<Rightarrow> msg list \<Rightarrow> msg list proc" where
  "step_thread n i rest ts buf =
     (if ts = [] then rest ts buf
      else let j = i mod length ts in
        case ts ! j of
          Ret a \<Rightarrow> rest ts buf
        | Panic \<Rightarrow> Panic
        | Block \<Rightarrow> rest ts buf
        | Call q k \<Rightarrow> Call q (\<lambda>r. rest (ts[j := k r]) buf)
        | Send m p \<Rightarrow> if has_room n buf m then rest (ts[j := p]) (buf @ [m]) else rest ts buf)"

primrec interleave :: "nat \<Rightarrow> nat list \<Rightarrow> unit proc list \<Rightarrow> msg list \<Rightarrow> msg list proc" where
  "interleave n [] ts buf = drain n ts buf"
| "interleave n (i # sched) ts buf = step_thread n i (interleave n sched) ts buf"

definition fork_join :: "unit proc list \<Rightarrow> nat \<Rightarrow> msg list proc" where
  "fork_join ts n = bind (call (Schedule (length ts)) as_schedule) (\<lambda>sched. interleave n sched ts [])"

section \<open>Safety: what every goroutine keeps, the fork keeps\<close>

text \<open>
  The messages of a goroutine satisfy \<open>M\<close> of the history at the time of the send. The fork
  itself sends nothing; the messages in its result satisfy \<open>M\<close> of the history at the end.
\<close>

definition all_msgs :: "(history \<Rightarrow> msg \<Rightarrow> bool) \<Rightarrow> history \<Rightarrow> msg list outcome \<Rightarrow> bool" where
  "all_msgs M H oc = (case oc of Done buf \<Rightarrow> \<forall>m \<in> set buf. M H m | _ \<Rightarrow> True)"

lemma all_msgs_simps [simp]:
  "all_msgs M H (Done buf) \<longleftrightarrow> (\<forall>m \<in> set buf. M H m)" "all_msgs M H Panicked" "all_msgs M H Blocked"
  by (simp_all add: all_msgs_def)

text \<open>What the goroutines share: monotone conditions on requests and on messages.\<close>

locale goroutine_contract =
  fixes P :: "history \<Rightarrow> request \<Rightarrow> bool" and M :: "history \<Rightarrow> msg \<Rightarrow> bool"
  assumes monoP: "hist_mono P" and monoM: "hist_mono M"
begin

lemma msgs_grow: "\<forall>m \<in> set buf. M H m \<Longrightarrow> H \<subseteq> H' \<Longrightarrow> \<forall>m \<in> set buf. M H' m"
  using hist_monoD [OF monoM] by blast

lemma thread_grow: "hwp P M (\<lambda>_ _. True) t H \<Longrightarrow> H \<subseteq> H' \<Longrightarrow> hwp P M (\<lambda>_ _. True) t H'"
  by (rule hwp_grow [OF _ _ monoP monoM hist_mono_const])

lemma hwp_run_alone:
  "hwp P M (\<lambda>_ _. True) t H \<Longrightarrow> \<forall>m \<in> set buf. M H m \<Longrightarrow> hwp P S (all_msgs M) (run_alone n t buf) H"
proof (induction t arbitrary: buf H)
  case (Call q k)
  have "\<forall>m \<in> set buf. M (insert (q, r) H) m" for r
    using Call.prems(2) by (rule msgs_grow) auto
  with Call show ?case by simp
qed auto

lemma hwp_drain:
  "\<forall>t \<in> set ts. hwp P M (\<lambda>_ _. True) t H \<Longrightarrow> \<forall>m \<in> set buf. M H m \<Longrightarrow>
     hwp P S (all_msgs M) (drain n ts buf) H"
proof (induction ts arbitrary: buf H)
  case (Cons t ts)
  have "hwp P S (all_msgs M) (run_alone n t buf) H"
    using Cons.prems by (intro hwp_run_alone) auto
  then have "hwp P S (\<lambda>H. and_then (all_msgs M H) (\<lambda>buf'. hwp P S (all_msgs M) (drain n ts buf') H))
      (run_alone n t buf) H"
  proof (rule hwp_conseq)
    fix H' oc
    assume "H \<subseteq> H'" "all_msgs M H' oc"
    moreover have "\<forall>t \<in> set ts. hwp P M (\<lambda>_ _. True) t H'"
      using Cons.prems(1) \<open>H \<subseteq> H'\<close> by (auto intro: thread_grow)
    ultimately show "and_then (all_msgs M H') (\<lambda>buf'. hwp P S (all_msgs M) (drain n ts buf') H') oc"
      by (cases oc) (auto intro: Cons.IH)
  qed auto
  then show ?case
    by (simp add: hwp_bind)
qed simp

lemma hwp_interleave:
  "\<forall>t \<in> set ts. hwp P M (\<lambda>_ _. True) t H \<Longrightarrow> \<forall>m \<in> set buf. M H m \<Longrightarrow>
     hwp P S (all_msgs M) (interleave n sched ts buf) H"
proof (induction sched arbitrary: ts buf H)
  case Nil
  then show ?case by (simp add: hwp_drain)
next
  case (Cons i sched)
  show ?case
  proof (cases "ts = []")
    case True
    with Cons show ?thesis by (simp add: step_thread_def)
  next
    case False
    define j where "j = i mod length ts"
    have j: "j < length ts" using False by (simp add: j_def)
    then have t: "hwp P M (\<lambda>_ _. True) (ts ! j) H" using Cons.prems by simp
    have ih: "hwp P S (all_msgs M) (interleave n sched (ts[j := p]) buf') H'"
      if "hwp P M (\<lambda>_ _. True) p H'" "H \<subseteq> H'" "\<forall>m \<in> set buf'. M H' m" for p buf' H'
    proof (rule Cons.IH)
      have "\<forall>t \<in> set ts. hwp P M (\<lambda>_ _. True) t H'"
        using Cons.prems(1) thread_grow [OF _ that(2)] by blast
      then show "\<forall>t \<in> set (ts[j := p]). hwp P M (\<lambda>_ _. True) t H'"
        using that(1) set_update_subset_insert [of ts j p] by blast
    qed (rule that(3))
    show ?thesis
    proof (cases "ts ! j")
      case (Call q k)
      have "hwp P S (all_msgs M) (interleave n sched (ts[j := k r]) buf) (insert (q, r) H)" for r
        using t Call by (intro ih msgs_grow [OF Cons.prems(2)]) auto
      then show ?thesis
        using t Call False by (simp add: step_thread_def Let_def j_def [symmetric])
    next
      case (Send m p)
      have "hwp P S (all_msgs M) (interleave n sched (ts[j := p]) (buf @ [m])) H"
        using t Send Cons.prems(2) by (intro ih) auto
      then show ?thesis
        using Send False Cons.IH [OF Cons.prems] by (simp add: step_thread_def Let_def j_def [symmetric])
    qed (use False Cons.IH [OF Cons.prems] in \<open>auto simp: step_thread_def Let_def j_def [symmetric]\<close>)
  qed
qed

lemma hwp_fork_join:
  assumes "\<And>H. P H (Schedule (length ts))" "\<forall>t \<in> set ts. hwp P M (\<lambda>_ _. True) t H"
    and "\<And>H' buf. H \<subseteq> H' \<Longrightarrow> \<forall>m \<in> set buf. M H' m \<Longrightarrow> Q H' (Done buf)"
    and "\<And>H'. Q H' Panicked" "\<And>H'. Q H' Blocked"
  shows "hwp P S Q (fork_join ts n) H"
proof -
  have "hwp P S Q (interleave n sched ts []) (insert (Schedule (length ts), r) H)" for sched r
  proof (rule hwp_conseq)
    show "hwp P S (all_msgs M) (interleave n sched ts []) (insert (Schedule (length ts), r) H)"
    proof (rule hwp_interleave)
      show "\<forall>t \<in> set ts. hwp P M (\<lambda>_ _. True) t (insert (Schedule (length ts), r) H)"
        using assms(2) thread_grow [OF _ subset_insertI] by blast
    qed simp
    show "Q H' oc" if "insert (Schedule (length ts), r) H \<subseteq> H'" "all_msgs M H' oc" for H' oc
      using that assms(3-5) by (cases oc) auto
  qed
  with assms(1) show ?thesis
    by (simp add: fork_join_def proc_simps)
qed

end

text \<open>Conditions that ignore the history are monotone: the plain weakest precondition of a fork.\<close>

interpretation plain: goroutine_contract "\<lambda>_. P" "\<lambda>_. M" for P M
  by unfold_locales simp_all

lemma wp_fork_join:
  assumes "P (Schedule (length ts))" "\<forall>t \<in> set ts. wp P M (\<lambda>_. True) t"
    and "\<And>buf. \<forall>m \<in> set buf. M m \<Longrightarrow> Q (Done buf)" "Q Panicked" "Q Blocked"
  shows "wp P S Q (fork_join ts n)"
  unfolding wp_iff_hwp [of P S Q _ "{}"]
  using assms by (intro plain.hwp_fork_join [where M = M]) (auto simp: wp_iff_hwp [symmetric])

section \<open>Progress: channels of the capacity of the fork never block\<close>

text \<open>
  \<open>sends_within ne nu p\<close>: \<open>p\<close> neither panics nor waits by itself, and on every path it sends at
  most \<open>ne\<close> errors and \<open>nu\<close> lists.
\<close>

primrec sends_within :: "nat \<Rightarrow> nat \<Rightarrow> 'a proc \<Rightarrow> bool" where
  "sends_within ne nu (Ret a) = True"
| "sends_within ne nu Panic = False"
| "sends_within ne nu Block = False"
| "sends_within ne nu (Call q k) = (\<forall>r. sends_within ne nu (k r))"
| "sends_within ne nu (Send m p) =
     (if is_err m then 0 < ne \<and> sends_within (ne - 1) nu p else 0 < nu \<and> sends_within ne (nu - 1) p)"

text \<open>
  The budget of a fork: goroutine by goroutine, and in all no more than the room that is left.
\<close>

definition budget_ok :: "nat \<Rightarrow> unit proc list \<Rightarrow> (nat \<times> nat) list \<Rightarrow> msg list \<Rightarrow> bool" where
  "budget_ok n ts bs buf \<longleftrightarrow>
     list_all2 (\<lambda>t (ne, nu). sends_within ne nu t) ts bs \<and>
     sum_list (map fst bs) + channel_count True buf \<le> n \<and>
     sum_list (map snd bs) + channel_count False buf \<le> n"

lemma channel_count_snoc [simp]:
  "channel_count b (buf @ [m]) = channel_count b buf + (if is_err m = b then 1 else 0)"
  by (simp add: channel_count_def)

lemma sends_within_bind:
  "sends_within 0 0 p \<Longrightarrow> (\<And>a. sends_within ne nu (f a)) \<Longrightarrow> sends_within ne nu (bind p f)"
  by (induction p) (auto split: if_splits)

lemma sends_within_call [simp]: "sends_within ne nu (call q dec)"
  by (simp add: call_def)

lemma sends_within_bind_call [simp]:
  "sends_within ne nu (bind (call q dec) f) \<longleftrightarrow> (\<forall>r. sends_within ne nu (f (dec r)))"
  by (simp add: call_def)

lemma sends_within_go_try:
  "sends_within 0 0 p \<Longrightarrow> (\<And>a. sends_within ne nu (f a)) \<Longrightarrow> sends_within ne nu (go_try p f)"
  unfolding go_try_def by (intro sends_within_bind) (auto split: sum.split)

text \<open>Running one goroutine to its end uses up its budget and blocks nowhere.\<close>

lemma wp_run_alone_budget:
  assumes "sends_within ne nu t" "ne + me + channel_count True buf \<le> n" "nu + mu + channel_count False buf \<le> n"
  shows "wp (\<lambda>_. True) S
    (\<lambda>oc. case oc of Done buf' \<Rightarrow> me + channel_count True buf' \<le> n \<and> mu + channel_count False buf' \<le> n
                  | _ \<Rightarrow> False) (run_alone n t buf)"
  using assms
proof (induction t arbitrary: ne nu buf)
  case (Call q k)
  then show ?case by (simp only: run_alone.simps wp.simps sends_within.simps) (blast intro: rangeI)
next
  case (Send m p)
  show ?case
  proof (cases m)
    case (SendErr e)
    with Send.prems have "0 < ne" "sends_within (ne - 1) nu p" by simp_all
    with Send.prems Send.IH [of "ne - 1" nu "buf @ [m]"] SendErr show ?thesis
      by (simp add: has_room_def)
  next
    case (SendUnprojected us)
    with Send.prems have "0 < nu" "sends_within ne (nu - 1) p" by simp_all
    with Send.prems Send.IH [of ne "nu - 1" "buf @ [m]"] SendUnprojected show ?thesis
      by (simp add: has_room_def)
  qed
qed auto

lemma wp_drain_budget:
  "budget_ok n ts bs buf \<Longrightarrow> wp (\<lambda>_. True) S finishes (drain n ts buf)"
proof (induction ts arbitrary: bs buf)
  case (Cons t ts)
  obtain ne nu bs' where bs: "bs = (ne, nu) # bs'"
    using Cons.prems by (cases bs) (auto simp: budget_ok_def)
  have "wp (\<lambda>_. True) S
      (\<lambda>oc. case oc of Done buf' \<Rightarrow> sum_list (map fst bs') + channel_count True buf' \<le> n \<and>
                        sum_list (map snd bs') + channel_count False buf' \<le> n
                  | _ \<Rightarrow> False) (run_alone n t buf)"
    using Cons.prems bs by (intro wp_run_alone_budget [of ne nu]) (auto simp: budget_ok_def)
  then have "wp (\<lambda>_. True) S
      (and_then finishes (\<lambda>buf'. wp (\<lambda>_. True) S finishes (drain n ts buf'))) (run_alone n t buf)"
    using Cons.prems bs
    by (elim wp_mono) (auto simp: budget_ok_def split: outcome.splits intro!: Cons.IH [of bs'])
  then show ?case by (simp add: wp_bind)
qed simp

lemma budget_step:
  assumes "list_all2 (\<lambda>t (ne, nu). sends_within ne nu t) ts bs" "j < length ts"
    and "sends_within ne' nu' p"
  shows "list_all2 (\<lambda>t (ne, nu). sends_within ne nu t) (ts[j := p]) (bs[j := (ne', nu')])"
  using assms by (auto intro!: list_all2_update_cong)

lemma sum_fst_update:
  "j < length bs \<Longrightarrow> sum_list (map fst (bs[j := (x, y)])) + fst (bs ! j) = sum_list (map fst bs) + (x :: nat)"
  using sum_list_update_nat [of j "map fst bs" x] by (simp add: map_update)

lemma sum_snd_update:
  "j < length bs \<Longrightarrow> sum_list (map snd (bs[j := (x, y)])) + snd (bs ! j) = sum_list (map snd bs) + (y :: nat)"
  using sum_list_update_nat [of j "map snd bs" y] by (simp add: map_update)

lemma budget_same:
  assumes "budget_ok n ts bs buf" "j < length ts" "bs ! j = (ne, nu)" "sends_within ne nu p"
  shows "budget_ok n (ts[j := p]) bs buf"
  using assms budget_step [of ts bs j ne nu p] list_update_id [of bs j]
  by (simp add: budget_ok_def)

lemma budget_spend:
  assumes "budget_ok n ts bs buf" "j < length ts" "bs ! j = (ne, nu)" "sends_within ne' nu' p"
    and "ne' + (if is_err m then 1 else 0) \<le> ne" "nu' + (if is_err m then 0 else 1) \<le> nu"
  shows "budget_ok n (ts[j := p]) (bs[j := (ne', nu')]) (buf @ [m])"
proof -
  have all: "list_all2 (\<lambda>t (ne, nu). sends_within ne nu t) ts bs"
    using assms(1) by (simp add: budget_ok_def)
  then have j: "j < length bs" using assms(2) by (simp add: list_all2_lengthD)
  show ?thesis
    using assms budget_step [OF all assms(2,4)] sum_fst_update [OF j, of ne' nu'] sum_snd_update [OF j, of ne' nu']
    by (auto simp: budget_ok_def split: if_splits)
qed

lemma budget_send:
  assumes "budget_ok n ts bs buf" "j < length ts" "bs ! j = (ne, nu)" "sends_within ne nu (Send m p)"
  shows "\<exists>bs'. budget_ok n (ts[j := p]) bs' (buf @ [m])"
proof (cases "is_err m")
  case True
  then show ?thesis
    using assms(4) by (intro exI [of _ "bs[j := (ne - 1, nu)]"] budget_spend [OF assms(1-3)]) auto
next
  case False
  then show ?thesis
    using assms(4) by (intro exI [of _ "bs[j := (ne, nu - 1)]"] budget_spend [OF assms(1-3)]) auto
qed

lemma wp_interleave_budget:
  "budget_ok n ts bs buf \<Longrightarrow> wp (\<lambda>_. True) S finishes (interleave n sched ts buf)"
proof (induction sched arbitrary: ts bs buf)
  case Nil
  then show ?case by (simp add: wp_drain_budget)
next
  case (Cons i sched)
  show ?case
  proof (cases "ts = []")
    case True
    with Cons show ?thesis by (simp add: step_thread_def)
  next
    case False
    define j where "j = i mod length ts"
    have j: "j < length ts" using False by (simp add: j_def)
    obtain ne nu where b: "bs ! j = (ne, nu)" by fastforce
    have t: "sends_within ne nu (ts ! j)"
      using Cons.prems j b by (auto simp: budget_ok_def dest: list_all2_nthD)
    note step = step_thread_def Let_def j_def [symmetric]
    show ?thesis
    proof (cases "ts ! j")
      case (Call q k)
      with t have "\<And>r. sends_within ne nu (k r)" by simp
      then show ?thesis
        using Call False by (simp add: step) (blast intro: Cons.IH budget_same [OF Cons.prems j b])
    next
      case (Send m p)
      obtain bs' where "budget_ok n (ts[j := p]) bs' (buf @ [m])"
        using budget_send [OF Cons.prems j b] t Send by fastforce
      then show ?thesis
        using Send False Cons.IH Cons.prems by (cases "has_room n buf m") (auto simp: step)
    qed (use False Cons t in \<open>auto simp: step\<close>)
  qed
qed

text \<open>
  A fork whose goroutines send at most one error and one list each, on channels that hold as
  many messages as there are goroutines, always comes to its end.
\<close>

lemma fork_join_finishes:
  assumes "\<forall>t \<in> set ts. sends_within 1 1 t" "length ts \<le> n"
  shows "wp (\<lambda>_. True) S finishes (fork_join ts n)"
proof -
  have "budget_ok n ts (replicate (length ts) (1, 1)) []"
    using assms by (auto simp: budget_ok_def channel_count_def list_all2_conv_all_nth sum_list_replicate)
  then show ?thesis
    by (simp add: fork_join_def proc_simps wp_interleave_budget)
qed

end
