(* ===== verification/Rbac_Projection.thy ===== *)
theory Rbac_Projection
  imports Namespace_Status Sha256 Rules_Filter Fork_Join
begin

text \<open>
  The projection of Roles into the member namespaces: \<open>PushRbacToNamespace\<close>,
  \<open>generateRBACToNamespace\<close>, \<open>CreateRole\<close>, \<open>CreateRoleBinding\<close>, the two lookups of service
  accounts and of their Roles, and the runtime Role of an instance. A Go result \<open>(T, error)\<close> of
  which the caller uses both parts is a pair with an optional error.
\<close>

section \<open>Service accounts and their Roles\<close>

fun pod_service_accounts :: "pod list \<Rightarrow> string list \<Rightarrow> string list" where
  "pod_service_accounts [] saNames = saNames"
| "pod_service_accounts (pod # pods) saNames =
     (if length (podServiceAccountName pod) \<noteq> 0
      then pod_service_accounts pods (saNames @ [podServiceAccountName pod])
      else pod_service_accounts pods saNames)"

text \<open>A listed service account that cannot be read is skipped.\<close>

primrec member_service_accounts :: "string \<Rightarrow> string list \<Rightarrow> string list \<Rightarrow> string list proc" where
  "member_service_accounts ns [] saNames = Ret saNames"
| "member_service_accounts ns (sa # sas) saNames =
     bind (call (Get Cached KServiceAccount (ns, sa)) (as_obj the_service_account)) (\<lambda>x.
       case x of
         Inl e \<Rightarrow> member_service_accounts ns sas saNames
       | Inr _ \<Rightarrow> member_service_accounts ns sas (saNames @ [sa]))"

definition GetServiceAccountFromNamespace :: "nss \<Rightarrow> string \<Rightarrow> (err + string list) proc" where
  "GetServiceAccountFromNamespace inst ns =
     go_try (call (ListOf Cached KPod ns (restartLabels (spec inst))) (as_list the_pod)) (\<lambda>pods.
       bind (member_service_accounts ns (serviceAccountMembers (spec inst)) (pod_service_accounts pods []))
         (\<lambda>saNames. bind (ToStringSlice (MakeSet saNames)) (\<lambda>xs. Ret (Inr xs))))"

text \<open>The name of the role reference is taken whatever its kind.\<close>

fun subjects_loop :: "string \<Rightarrow> string \<Rightarrow> string \<Rightarrow> subject list \<Rightarrow> string list \<Rightarrow> string list" where
  "subjects_loop sa ns refName [] acc = acc"
| "subjects_loop sa ns refName (s # ss) acc =
     (if sbName s = sa \<and> sbKind s = ''ServiceAccount'' \<and> sbNamespace s = ns
      then subjects_loop sa ns refName ss (acc @ [refName])
      else subjects_loop sa ns refName ss acc)"

fun bindings_loop :: "string \<Rightarrow> string \<Rightarrow> role_binding list \<Rightarrow> string list \<Rightarrow> string list" where
  "bindings_loop sa ns [] acc = acc"
| "bindings_loop sa ns (rb # rbs) acc =
     bindings_loop sa ns rbs (subjects_loop sa ns (rrName (rbRoleRef rb)) (rbSubjects rb) acc)"

definition GetRolesFromServiceAccount :: "string \<Rightarrow> string \<Rightarrow> (err + string list) proc" where
  "GetRolesFromServiceAccount sa ns =
     go_try (call (ListOf Live KRoleBinding ns []) (as_list the_role_binding)) (\<lambda>rbs.
       bind (ToStringSlice (MakeSet (bindings_loop sa ns rbs []))) (\<lambda>xs. Ret (Inr xs)))"

section \<open>Names and labels of projected objects\<close>

definition projected_name :: "string \<Rightarrow> string \<Rightarrow> string \<Rightarrow> string" where
  "projected_name roleName saName fromNs =
     hd (split_on CHR ''.'' roleName) @ ''-'' @ hash7 (roleName @ saName @ fromNs)"

definition configmap_label_value :: "nss \<Rightarrow> string" where
  "configmap_label_value inst =
     GetFirstNCharacter (configmapName (spec inst) @ ''-'' @ nss_namespace inst) 63"

definition projected_labels :: "nss \<Rightarrow> labels" where
  "projected_labels inst =
     [(''namespace-scope-configmap'', configmap_label_value inst),
      (''app.kubernetes.io/instance'', ''namespace-scope''),
      (''app.kubernetes.io/managed-by'', ''ibm-namespace-scope-operator''),
      (''app.kubernetes.io/name'', configmapName (spec inst))]"

section \<open>Roles\<close>

definition get_role :: "key \<Rightarrow> (err + role) proc" where
  "get_role k = call (Get Live KRole k) (as_obj the_role)"

definition projected_role :: "string \<Rightarrow> labels \<Rightarrow> string \<Rightarrow> string \<Rightarrow> string \<Rightarrow> policy_rule list \<Rightarrow> role" where
  "projected_role roleName lbls saName fromNs toNs rules =
     \<lparr>roleMeta = new_meta (projected_name roleName saName fromNs) toNs lbls, roleRules = rules\<rparr>"

definition slash :: "string \<Rightarrow> string \<Rightarrow> string" where
  "slash a b = a @ ''/'' @ b"

primrec create_role_loop ::
  "labels \<Rightarrow> string \<Rightarrow> string \<Rightarrow> string \<Rightarrow> bool \<Rightarrow> policy_rule list \<Rightarrow> string list \<Rightarrow> string list
     \<Rightarrow> (string list \<times> err option) proc" where
  "create_role_loop lbls saName fromNs toNs allowSubset managed [] unprojected = Ret (unprojected, None)"
| "create_role_loop lbls saName fromNs toNs allowSubset managed (roleName # rest) unprojected =
     bind (get_role (fromNs, roleName)) (\<lambda>x.
       case x of
         Inl e \<Rightarrow>
           if is_not_found e then
             (if allowSubset then create_role_loop lbls saName fromNs toNs allowSubset managed rest
                (unprojected @ [slash fromNs roleName @ '': role not found''])
              else create_role_loop lbls saName fromNs toNs allowSubset managed rest unprojected)
           else if allowSubset then create_role_loop lbls saName fromNs toNs allowSubset managed rest
                (unprojected @ [slash fromNs roleName @ '': failed to get role''])
           else Ret (unprojected, Some e)
       | Inr originalRole \<Rightarrow>
           let (rules, canProject) = rulesFilter roleName fromNs toNs (roleRules originalRole) managed in
           if \<not> canProject then
             (if allowSubset then create_role_loop lbls saName fromNs toNs allowSubset managed rest
                (unprojected @ [slash fromNs roleName @ '': insufficient permissions''])
              else Ret (unprojected, Some (PlainErr
                (''role '' @ roleName @ '' cannot be projected due to insufficient permissions''))))
           else
             let role = projected_role roleName lbls saName fromNs toNs rules in
             bind (call (Create (ORole role)) as_unit) (\<lambda>y.
               case y of
                 Inl e \<Rightarrow>
                   if is_already_exists e then
                     bind (call (Update (ORole role)) as_unit) (\<lambda>z.
                       case z of
                         Inl e' \<Rightarrow>
                           if allowSubset then create_role_loop lbls saName fromNs toNs allowSubset managed rest
                             (unprojected @ [slash toNs roleName @ '': failed to update from namespace '' @ fromNs])
                           else Ret (unprojected, Some e')
                       | Inr _ \<Rightarrow> create_role_loop lbls saName fromNs toNs allowSubset managed rest unprojected)
                   else if allowSubset then create_role_loop lbls saName fromNs toNs allowSubset managed rest
                     (unprojected @ [slash toNs roleName @ '': failed to create from namespace '' @ fromNs])
                   else Ret (unprojected, Some e)
               | Inr _ \<Rightarrow> create_role_loop lbls saName fromNs toNs allowSubset managed rest unprojected))"

definition CreateRole ::
  "string list \<Rightarrow> labels \<Rightarrow> string \<Rightarrow> string \<Rightarrow> string \<Rightarrow> bool \<Rightarrow> (string list \<times> err option) proc" where
  "CreateRole roleNames lbls saName fromNs toNs allowSubset =
     bind (get_role (toNs, NamespaceScopeManagedPrefix @ fromNs)) (\<lambda>x.
       case x of
         Inl e \<Rightarrow>
           if \<not> is_not_found e then Ret ([], Some e)
           else create_role_loop lbls saName fromNs toNs allowSubset [] roleNames []
       | Inr nssManagedRole \<Rightarrow>
           create_role_loop lbls saName fromNs toNs allowSubset (roleRules nssManagedRole) roleNames [])"

section \<open>RoleBindings\<close>

definition projected_binding :: "string \<Rightarrow> labels \<Rightarrow> string \<Rightarrow> string \<Rightarrow> string \<Rightarrow> role_binding" where
  "projected_binding roleName lbls saName fromNs toNs =
     (let nm = projected_name roleName saName fromNs in
      \<lparr>rbMeta = new_meta nm toNs lbls,
       rbSubjects = [\<lparr>sbKind = ''ServiceAccount'', sbName = saName, sbNamespace = fromNs\<rparr>],
       rbRoleRef = \<lparr>rrKind = ''Role'', rrName = nm, rrAPIGroup = ''rbac.authorization.k8s.io''\<rparr>\<rparr>)"

text \<open>A binding that already exists ends the loop, with success.\<close>

primrec CreateRoleBinding ::
  "string list \<Rightarrow> labels \<Rightarrow> string \<Rightarrow> string \<Rightarrow> string \<Rightarrow> (err + unit) proc" where
  "CreateRoleBinding [] lbls saName fromNs toNs = Ret (Inr ())"
| "CreateRoleBinding (roleName # roleNames) lbls saName fromNs toNs =
     bind (call (Create (ORoleBinding (projected_binding roleName lbls saName fromNs toNs))) as_unit) (\<lambda>x.
       case x of
         Inl e \<Rightarrow> if is_already_exists e then Ret (Inr ()) else Ret (Inl e)
       | Inr _ \<Rightarrow> CreateRoleBinding roleNames lbls saName fromNs toNs)"

section \<open>The two forks\<close>

definition forbidden_message :: "string \<Rightarrow> string \<Rightarrow> string \<Rightarrow> string" where
  "forbidden_message verb resources toNs =
     ''cannot '' @ verb @ '' resource '' @ resources @
     '' in API group rbac.authorization.k8s.io in the namespace '' @ toNs @
     ''. Please authorize service account ibm-namespace-scope-operator namespace admin permission of '' @
     toNs @ '' namespace''"

definition warn_forbidden :: "nss \<Rightarrow> string \<Rightarrow> string \<Rightarrow> string \<Rightarrow> unit proc" where
  "warn_forbidden inst verb resources toNs =
     call (Event (nss_key inst) ''Forbidden'' (forbidden_message verb resources toNs)) (\<lambda>_. ())"

text \<open>A failed step of a goroutine: forbidden errors leave an event, and count only without
  \<open>allowSubsetProjection\<close>; every other error is sent.\<close>

definition goroutine_error :: "nss \<Rightarrow> string \<Rightarrow> string \<Rightarrow> err \<Rightarrow> unit proc" where
  "goroutine_error inst resources toNs e =
     (if is_forbidden e then
        bind (warn_forbidden inst ''create'' resources toNs) (\<lambda>_.
          if allowSubsetProjection (spec inst) then Ret () else Send (SendErr e) (Ret ()))
      else Send (SendErr e) (Ret ()))"

definition rbac_goroutine :: "nss \<Rightarrow> labels \<Rightarrow> string \<Rightarrow> string \<Rightarrow> string \<Rightarrow> unit proc" where
  "rbac_goroutine inst lbls fromNs toNs sa =
     bind (GetRolesFromServiceAccount sa fromNs) (\<lambda>x.
       case x of
         Inl e \<Rightarrow> Send (SendErr e) (Ret ())
       | Inr roleList \<Rightarrow>
           bind (CreateRole roleList lbls sa fromNs toNs (allowSubsetProjection (spec inst)))
             (\<lambda>(unprojected, er).
               case er of
                 Some e \<Rightarrow> goroutine_error inst ''roles'' toNs e
               | None \<Rightarrow>
                   let bindings =
                     bind (CreateRoleBinding roleList lbls sa fromNs toNs) (\<lambda>y.
                       case y of
                         Inl e \<Rightarrow> goroutine_error inst ''rolebindings'' toNs e
                       | Inr _ \<Rightarrow> Ret ())
                   in if 0 < length unprojected then Send (SendUnprojected unprojected) bindings
                      else bindings))"

definition first_error :: "err list \<Rightarrow> err option" where
  "first_error es = (case es of [] \<Rightarrow> None | e # _ \<Rightarrow> Some e)"

definition generateRBACToNamespace ::
  "nss \<Rightarrow> string list \<Rightarrow> string \<Rightarrow> string \<Rightarrow> (string list \<times> err option) proc" where
  "generateRBACToNamespace inst saNames fromNs toNs =
     bind (fork_join (map (rbac_goroutine inst (projected_labels inst) fromNs toNs) saNames) (length saNames))
       (\<lambda>buf. Ret (unprojected_of buf, first_error (errors_of buf)))"

definition push_goroutine :: "nss \<Rightarrow> string list \<Rightarrow> string \<Rightarrow> string \<Rightarrow> unit proc" where
  "push_goroutine inst saNames fromNs toNs =
     bind (generateRBACToNamespace inst saNames fromNs toNs) (\<lambda>(unprojected, er).
       let report = (if 0 < length unprojected then Send (SendUnprojected unprojected) (Ret ()) else Ret ())
       in case er of
            Some e \<Rightarrow> if \<not> allowSubsetProjection (spec inst) then Send (SendErr e) (Ret ()) else report
          | None \<Rightarrow> report)"

definition PushRbacToNamespace :: "nss \<Rightarrow> (string list \<times> err option) proc" where
  "PushRbacToNamespace inst =
     (let fromNs = nss_namespace inst; members = validatedMembers (nssStatus inst) in
      bind (GetServiceAccountFromNamespace inst fromNs) (\<lambda>x.
        case x of
          Inl e \<Rightarrow> Ret ([], Some e)
        | Inr saNames \<Rightarrow>
            bind GetOperatorNamespace (\<lambda>y.
              case y of
                Inl e \<Rightarrow> Ret ([], Some e)
              | Inr operatorNs \<Rightarrow>
                  bind (fork_join (map (push_goroutine inst saNames fromNs)
                         (filter (\<lambda>toNs. toNs \<noteq> operatorNs) members)) (length members))
                    (\<lambda>buf. Ret (unprojected_of buf, first_error (errors_of buf))))))"

section \<open>The runtime Role\<close>

definition runtime_role :: "policy_rule list \<Rightarrow> string \<Rightarrow> string \<Rightarrow> role" where
  "runtime_role summarizedRules fromNs toNs =
     \<lparr>roleMeta = new_meta (NamespaceScopeRuntimePrefix @ fromNs) toNs [], roleRules = summarizedRules\<rparr>"

definition createRuntimeRoleForNSS :: "policy_rule list \<Rightarrow> string \<Rightarrow> string \<Rightarrow> (err + unit) proc" where
  "createRuntimeRoleForNSS summarizedRules fromNs toNs =
     call (Create (ORole (runtime_role summarizedRules fromNs toNs))) as_unit"

definition updateRuntimeRoleForNSS :: "policy_rule list \<Rightarrow> string \<Rightarrow> string \<Rightarrow> (err + unit) proc" where
  "updateRuntimeRoleForNSS summarizedRules fromNs toNs =
     call (Update (ORole (runtime_role summarizedRules fromNs toNs))) as_unit"

definition generateRuntimeRoleForNSS ::
  "nss \<Rightarrow> policy_rule list \<Rightarrow> string \<Rightarrow> string \<Rightarrow> (err + unit) proc" where
  "generateRuntimeRoleForNSS inst summarizedRules fromNs toNs =
     bind (createRuntimeRoleForNSS summarizedRules fromNs toNs) (\<lambda>x.
       case x of
         Inl e \<Rightarrow>
           if is_already_exists e then updateRuntimeRoleForNSS summarizedRules fromNs toNs
           else if is_forbidden e then
             bind (warn_forbidden inst ''create'' ''roles'' toNs) (\<lambda>_.
               if allowSubsetProjection (spec inst) then Ret (Inr ()) else Ret (Inl e))
           else Ret (Inl e)
       | Inr _ \<Rightarrow> Ret (Inr ()))"

definition CreateRuntimeRoleToNamespace ::
  "nss \<Rightarrow> string \<Rightarrow> policy_rule list \<Rightarrow> (err + unit) proc" where
  "CreateRuntimeRoleToNamespace inst toNs summarizedRules =
     go_try GetOperatorNamespace (\<lambda>operatorNs.
       if toNs = operatorNs then Ret (Inr ())
       else generateRuntimeRoleForNSS inst summarizedRules (nss_namespace inst) toNs)"

text \<open>The Roles of a namespace that carry the label of the instance's ConfigMap.\<close>

definition labelled_for :: "nss \<Rightarrow> role \<Rightarrow> bool" where
  "labelled_for inst role \<longleftrightarrow>
     map_of (omLabels (roleMeta role)) NamespaceScopeConfigmapLabelKey = Some (configmap_label_value inst)"

definition GetRolesFromNamespace :: "nss \<Rightarrow> string \<Rightarrow> (err + role list) proc" where
  "GetRolesFromNamespace inst ns =
     bind (call (ListOf Live KRole ns []) (as_list the_role)) (\<lambda>x.
       case x of
         Inl e \<Rightarrow> if is_not_found e then Ret (Inr []) else Ret (Inl e)
       | Inr roles \<Rightarrow> Ret (Inr (filter (labelled_for inst) roles)))"

end
