(* ===== verification/Rbac_Properties.thy ===== *)
theory Rbac_Properties
  imports Rbac_Projection
begin

text \<open>
  What the projection of RBAC guarantees: which Roles and RoleBindings it may write and on what
  grounds (least privilege), that every Role is accounted for, that its goroutines always come
  to an end, and what the two modes of \<open>allowSubsetProjection\<close> mean for errors.
\<close>

section \<open>Samples\<close>

text \<open>A sample instance and reconciler, for the witnesses.\<close>

definition sample_nss :: nss where
  "sample_nss = \<lparr>
     nssMeta = new_meta ''common-service'' ''ibm-common-services'' [],
     spec = \<lparr>namespaceMembers = [''ibm-common-services'', ''app''], serviceAccountMembers = [],
       configmapName = ''namespace-scope'', restartLabels = [(''intent'', ''projected'')],
       manualManagement = False, csvInjector = \<lparr>enable = True\<rparr>,
       license = \<lparr>accept = True, licenseUse = [], licenseName = [], licenseKey = []\<rparr>,
       allowSubsetProjection = False\<rparr>,
     nssStatus = \<lparr>validatedMembers = [''ibm-common-services'', ''app''], managedCSVList = [],
       patchedCSVList = [], managedWebhookList = [], patchedWebhookList = [], unprojectedRoles = [],
       status = [], reconcileHistory = [], operationTiming = []\<rparr>\<rparr>"

definition sample_reconciler :: reconciler where
  "sample_reconciler = \<lparr>hasOLMAPI = True, daemonSetPermissionChecker = None\<rparr>"

section \<open>What was read\<close>

text \<open>The grounds for a write, as facts about the history; all are monotone.\<close>

definition role_read :: "history \<Rightarrow> key \<Rightarrow> role \<Rightarrow> bool" where
  "role_read H k r \<longleftrightarrow> (Get Live KRole k, RObj (ORole r)) \<in> H"

text \<open>The operator's own rules: those of its Role in the target, or none when it was not found.\<close>

definition managed_read :: "history \<Rightarrow> string \<Rightarrow> string \<Rightarrow> policy_rule list \<Rightarrow> bool" where
  "managed_read H fromNs toNs ms \<longleftrightarrow>
     (\<exists>r. role_read H (toNs, NamespaceScopeManagedPrefix @ fromNs) r \<and> ms = roleRules r) \<or>
     (\<exists>e. (Get Live KRole (toNs, NamespaceScopeManagedPrefix @ fromNs), RErr e) \<in> H \<and> is_not_found e \<and> ms = [])"

text \<open>A RoleBinding of the namespace names the role and has the service account as a subject.\<close>

definition binds :: "string \<Rightarrow> string \<Rightarrow> string \<Rightarrow> role_binding \<Rightarrow> bool" where
  "binds sa ns roleName rb \<longleftrightarrow>
     rrName (rbRoleRef rb) = roleName \<and>
     (\<exists>s \<in> set (rbSubjects rb). sbName s = sa \<and> sbKind s = ''ServiceAccount'' \<and> sbNamespace s = ns)"

definition bound_in :: "history \<Rightarrow> string \<Rightarrow> string \<Rightarrow> string \<Rightarrow> bool" where
  "bound_in H sa ns roleName \<longleftrightarrow>
     (\<exists>obs rb. (ListOf Live KRoleBinding ns [], RList obs) \<in> H \<and> ORoleBinding rb \<in> set obs \<and>
        binds sa ns roleName rb)"

definition operator_namespace_read :: "history \<Rightarrow> string \<Rightarrow> bool" where
  "operator_namespace_read H ns \<longleftrightarrow>
     (LookupEnv ''OPERATOR_NAMESPACE'', REnv (Some ns)) \<in> H \<or>
     (\<exists>bs. (ReadFile service_account_namespace_file, RFile bs) \<in> H \<and> ns = trim_space bs)"

text \<open>The Role \<open>r\<close> is the filtered copy, for \<open>toNs\<close>, of a Role that was read in \<open>fromNs\<close>.\<close>

definition role_grounds ::
  "history \<Rightarrow> labels \<Rightarrow> string \<Rightarrow> string \<Rightarrow> string \<Rightarrow> string \<Rightarrow> role \<Rightarrow> bool" where
  "role_grounds H lbls sa fromNs toNs roleName r \<longleftrightarrow>
     (\<exists>src ms. role_read H (fromNs, roleName) src \<and> managed_read H fromNs toNs ms \<and>
        r = projected_role roleName lbls sa fromNs toNs
              (fst (rulesFilter roleName fromNs toNs (roleRules src) ms)) \<and>
        roleRules r \<noteq> [])"

lemma role_read_mono [intro]: "role_read H k r \<Longrightarrow> H \<subseteq> H' \<Longrightarrow> role_read H' k r"
  by (auto simp: role_read_def)

lemma managed_read_mono [intro]: "managed_read H f t ms \<Longrightarrow> H \<subseteq> H' \<Longrightarrow> managed_read H' f t ms"
  unfolding managed_read_def by (blast intro: role_read_mono)

lemma bound_in_mono [intro]: "bound_in H sa ns rn \<Longrightarrow> H \<subseteq> H' \<Longrightarrow> bound_in H' sa ns rn"
  unfolding bound_in_def by blast

lemma operator_namespace_read_mono [intro]:
  "operator_namespace_read H ns \<Longrightarrow> H \<subseteq> H' \<Longrightarrow> operator_namespace_read H' ns"
  unfolding operator_namespace_read_def by blast

lemma role_grounds_mono [intro]:
  "role_grounds H l sa f t rn r \<Longrightarrow> H \<subseteq> H' \<Longrightarrow> role_grounds H' l sa f t rn r"
  unfolding role_grounds_def by (blast intro: role_read_mono managed_read_mono)

lemma as_obj_role [simp]: "as_obj the_role r = Inr x \<longleftrightarrow> r = RObj (ORole x)"
  by (auto simp: as_obj_def split: response.splits option.splits elim: the_role.elims)

lemma as_obj_not_found: "as_obj prj r = Inl e \<Longrightarrow> is_not_found e \<Longrightarrow> r = RErr e"
  by (rule as_obj_Inl_err) auto

section \<open>Roles of a service account\<close>

lemma set_subjects_loop:
  "set (subjects_loop sa ns rn ss acc) = set acc \<union>
     (if \<exists>s \<in> set ss. sbName s = sa \<and> sbKind s = ''ServiceAccount'' \<and> sbNamespace s = ns then {rn} else {})"
  by (induction sa ns rn ss acc rule: subjects_loop.induct) auto

lemma set_bindings_loop:
  "set (bindings_loop sa ns rbs acc) = set acc \<union> {rn. \<exists>rb \<in> set rbs. binds sa ns rn rb}"
  by (induction sa ns rbs acc rule: bindings_loop.induct)
     (auto simp: set_subjects_loop binds_def split: if_splits)

lemma hwp_GetRolesFromServiceAccount:
  assumes "\<And>H. P H (ListOf Live KRoleBinding ns [])" "\<And>H xs. P H (IterSet xs)"
    and "\<And>H' e. H \<subseteq> H' \<Longrightarrow> Q H' (Done (Inl e))"
    and "\<And>H' xs. H \<subseteq> H' \<Longrightarrow> (\<And>rn. rn \<in> set xs \<Longrightarrow> bound_in H' sa ns rn) \<Longrightarrow> Q H' (Done (Inr xs))"
  shows "hwp P S Q (GetRolesFromServiceAccount sa ns) H"
proof -
  have found: "Q H' (Done (Inr (as_order (MakeSet (bindings_loop sa ns rbs [])) r')))"
    if r: "as_list the_role_binding r = Inr rbs" and
       H': "insert (ListOf Live KRoleBinding ns [], r) H \<subseteq> H'" for r rbs r' H'
  proof (rule assms(4))
    fix rn
    assume "rn \<in> set (as_order (MakeSet (bindings_loop sa ns rbs [])) r')"
    then obtain rb where "rb \<in> set rbs" "binds sa ns rn rb"
      by (auto simp: set_bindings_loop)
    moreover obtain obs where "r = RList obs" "\<And>rb. rb \<in> set rbs \<Longrightarrow> \<exists>ob \<in> set obs. the_role_binding ob = Some rb"
      using as_list_InrE [OF r] by blast
    ultimately show "bound_in H' sa ns rn"
      using H' unfolding bound_in_def by fastforce
  qed (use H' in blast)
  show ?thesis
    by (auto simp: GetRolesFromServiceAccount_def ToStringSlice_def proc_simps assms(1,2)
        split: sum.split intro!: assms(3) found)
qed

section \<open>Writing Roles and RoleBindings\<close>

text \<open>Every request \<open>CreateRole\<close> makes, and what becomes of each Role name.\<close>

definition create_role_request ::
  "labels \<Rightarrow> string \<Rightarrow> string \<Rightarrow> string \<Rightarrow> string list \<Rightarrow> history \<Rightarrow> request \<Rightarrow> bool" where
  "create_role_request lbls sa fromNs toNs roleNames H q \<longleftrightarrow>
     (case q of
        Get Live KRole k \<Rightarrow> True
      | Create (ORole r) \<Rightarrow> \<exists>rn \<in> set roleNames. role_grounds H lbls sa fromNs toNs rn r
      | Update (ORole r) \<Rightarrow> \<exists>rn \<in> set roleNames. role_grounds H lbls sa fromNs toNs rn r
      | _ \<Rightarrow> False)"

text \<open>
  A name is accounted for when its Role was not found, or was written successfully, or is
  reported as unprojected with a reason.
\<close>

definition accounted ::
  "labels \<Rightarrow> string \<Rightarrow> string \<Rightarrow> string \<Rightarrow> history \<Rightarrow> string list \<Rightarrow> string \<Rightarrow> bool" where
  "accounted lbls sa fromNs toNs H unprojected rn \<longleftrightarrow>
     (\<exists>e. (Get Live KRole (fromNs, rn), RErr e) \<in> H \<and> is_not_found e) \<or>
     (\<exists>r resp. role_grounds H lbls sa fromNs toNs rn r \<and> as_unit resp = Inr () \<and>
        ((Create (ORole r), resp) \<in> H \<or> (Update (ORole r), resp) \<in> H)) \<or>
     (\<exists>ns reason. ns \<in> {fromNs, toNs} \<and> slash ns rn @ '': '' @ reason \<in> set unprojected)"

lemma accounted_mono:
  "accounted l sa f t H u rn \<Longrightarrow> H \<subseteq> H' \<Longrightarrow> set u \<subseteq> set u' \<Longrightarrow> accounted l sa f t H' u' rn"
  unfolding accounted_def by (meson role_grounds_mono subsetD)

lemma accountedI:
  "(Get Live KRole (f, rn), RErr e) \<in> H \<Longrightarrow> is_not_found e \<Longrightarrow> accounted l sa f t H u rn"
  "role_grounds H l sa f t rn r \<Longrightarrow> as_unit resp = Inr () \<Longrightarrow> (Create (ORole r), resp) \<in> H \<Longrightarrow> accounted l sa f t H u rn"
  "role_grounds H l sa f t rn r \<Longrightarrow> as_unit resp = Inr () \<Longrightarrow> (Update (ORole r), resp) \<in> H \<Longrightarrow> accounted l sa f t H u rn"
  "slash f rn @ '': '' @ reason \<in> set u \<Longrightarrow> accounted l sa f t H u rn"
  "slash t rn @ '': '' @ reason \<in> set u \<Longrightarrow> accounted l sa f t H u rn"
  unfolding accounted_def by blast+

definition create_role_result ::
  "labels \<Rightarrow> string \<Rightarrow> string \<Rightarrow> string \<Rightarrow> bool \<Rightarrow> string list \<Rightarrow> string list \<Rightarrow> history
     \<Rightarrow> (string list \<times> err option) outcome \<Rightarrow> bool" where
  "create_role_result lbls sa fromNs toNs allowSubset names u H oc \<longleftrightarrow>
     (\<exists>u' er. oc = Done (u', er) \<and> set u \<subseteq> set u' \<and> (\<not> allowSubset \<longrightarrow> u' = u) \<and>
        (er = None \<longrightarrow> (\<forall>rn \<in> set names. accounted lbls sa fromNs toNs H u' rn)))"

lemma create_role_result_step:
  assumes "create_role_result l sa f t allow rest u2 H' oc" "accounted l sa f t H u2 rn" "H \<subseteq> H'"
    and "set u \<subseteq> set u2" "\<not> allow \<longrightarrow> u2 = u"
  shows "create_role_result l sa f t allow (rn # rest) u H' oc"
  using assms accounted_mono [OF assms(2,3)] unfolding create_role_result_def
  by (metis dual_order.trans set_ConsD)

text \<open>The write of a copy: it is created, or updated when it is there already.\<close>

lemma hwp_write_copy:
  assumes "\<And>H'. H \<subseteq> H' \<Longrightarrow> P H' (Create ob)" "\<And>H'. H \<subseteq> H' \<Longrightarrow> P H' (Update ob)"
    and ok: "\<And>H' r. H \<subseteq> H' \<Longrightarrow> as_unit r = Inr () \<Longrightarrow> (Create ob, r) \<in> H' \<or> (Update ob, r) \<in> H' \<Longrightarrow> hwp P S Q p H'"
    and "\<And>H' e. H \<subseteq> H' \<Longrightarrow> hwp P S Q (f e) H'" "\<And>H' e. H \<subseteq> H' \<Longrightarrow> hwp P S Q (g e) H'"
  shows "hwp P S Q (bind (call (Create ob) as_unit) (\<lambda>y. case y of
      Inl e \<Rightarrow> if is_already_exists e
        then bind (call (Update ob) as_unit) (\<lambda>z. case z of Inl e' \<Rightarrow> f e' | Inr _ \<Rightarrow> p) else g e
    | Inr _ \<Rightarrow> p)) H"
proof -
  have update: "hwp P S Q (bind (call (Update ob) as_unit) (\<lambda>z. case z of Inl e' \<Rightarrow> f e' | Inr _ \<Rightarrow> p)) H'"
    if "H \<subseteq> H'" for H'
    by (rule hwp_call_cases) (use that in \<open>auto intro!: assms\<close>)
  show ?thesis
    by (rule hwp_call_cases) (auto intro!: assms update)
qed

lemma create_role_step:
  assumes "hwp (create_role_request l sa f t all) S (create_role_result l sa f t allow rest u2) p H"
    and "accounted l sa f t H u2 rn" "set u \<subseteq> set u2" "\<not> allow \<longrightarrow> u2 = u"
  shows "hwp (create_role_request l sa f t all) S (create_role_result l sa f t allow (rn # rest) u) p H"
proof (rule hwp_conseq [OF assms(1)])
  fix H' oc
  assume "H \<subseteq> H'" "create_role_result l sa f t allow rest u2 H' oc"
  then show "create_role_result l sa f t allow (rn # rest) u H' oc"
    using create_role_result_step [OF _ assms(2) _ assms(3,4)] by blast
qed

lemma projected_grounds:
  assumes "role_read H (f, rn) src" "managed_read H f t ms" "fst (rulesFilter rn f t (roleRules src) ms) \<noteq> []"
  shows "role_grounds H l sa f t rn (projected_role rn l sa f t (fst (rulesFilter rn f t (roleRules src) ms)))"
  using assms unfolding role_grounds_def projected_role_def by force

text \<open>
  One round of the loop: \<open>L\<close> is the rest of it, which may go on with any list of unprojected Roles
  that accounts for the present one.
\<close>

definition may_continue ::
  "labels \<Rightarrow> string \<Rightarrow> string \<Rightarrow> string \<Rightarrow> bool \<Rightarrow> string list \<Rightarrow> string \<Rightarrow> string list \<Rightarrow> string list
     \<Rightarrow> (string list \<Rightarrow> (string list \<times> err option) proc) \<Rightarrow> history \<Rightarrow> bool" where
  "may_continue l sa f t allow all rn rest u L H \<longleftrightarrow>
     (\<forall>H' u' S. H \<subseteq> H' \<longrightarrow> accounted l sa f t H' u' rn \<longrightarrow> set u \<subseteq> set u' \<longrightarrow> (\<not> allow \<longrightarrow> u' = u) \<longrightarrow>
        hwp (create_role_request l sa f t all) S (create_role_result l sa f t allow (rn # rest) u) (L u') H')"

lemma may_continueD:
  "may_continue l sa f t allow all rn rest u L H \<Longrightarrow> H \<subseteq> H' \<Longrightarrow> accounted l sa f t H' u' rn \<Longrightarrow>
     set u \<subseteq> set u' \<Longrightarrow> \<not> allow \<longrightarrow> u' = u \<Longrightarrow>
     hwp (create_role_request l sa f t all) S (create_role_result l sa f t allow (rn # rest) u) (L u') H'"
  unfolding may_continue_def by blast

lemma hwp_skip_or_fail:
  assumes "may_continue l sa f t allow all rn rest u L H" "H \<subseteq> H'" "accounted l sa f t H' (u @ [x]) rn"
  shows "hwp (create_role_request l sa f t all) S (create_role_result l sa f t allow (rn # rest) u)
      (if allow then L (u @ [x]) else Ret (u, Some e)) H'"
  using may_continueD [OF assms(1,2,3)]
  by (cases allow) (simp_all add: create_role_result_def subset_insertI)

lemma hwp_skip:
  assumes "may_continue l sa f t allow all rn rest u L H" "H \<subseteq> H'" "\<And>u. accounted l sa f t H' u rn"
  shows "hwp (create_role_request l sa f t all) S (create_role_result l sa f t allow (rn # rest) u)
      (if allow then L (u @ [x]) else L u) H'"
  using may_continueD [OF assms(1,2)] assms(3) by (cases allow) (simp_all add: subset_insertI)

lemma hwp_project_role:
  assumes "may_continue l sa f t allow all rn rest u L H" "role_grounds H l sa f t rn role" "rn \<in> set all"
  shows "hwp (create_role_request l sa f t all) S (create_role_result l sa f t allow (rn # rest) u)
     (bind (call (Create (ORole role)) as_unit) (\<lambda>y. case y of
        Inl e \<Rightarrow> if is_already_exists e
          then bind (call (Update (ORole role)) as_unit) (\<lambda>z. case z of
                 Inl e' \<Rightarrow> if allow then L (u @ [slash t rn @ '': failed to update from namespace '' @ f])
                    else Ret (u, Some e')
               | Inr _ \<Rightarrow> L u)
          else if allow then L (u @ [slash t rn @ '': failed to create from namespace '' @ f])
          else Ret (u, Some e)
      | Inr _ \<Rightarrow> L u)) H"
proof -
  note copy = role_grounds_mono [OF assms(2)]
  have failed: "hwp (create_role_request l sa f t all) S (create_role_result l sa f t allow (rn # rest) u)
      (if allow then L (u @ [slash t rn @ m]) else Ret (u, Some e)) H'"
    if "H \<subseteq> H'" "m = '': '' @ reason" for m reason e H'
    using that(1) unfolding that(2) by (intro hwp_skip_or_fail [OF assms(1)] accountedI(5)) auto
  show ?thesis
  proof (rule hwp_write_copy, goal_cases)
    case (3 H' r)
    show ?case
      by (rule may_continueD [OF assms(1) 3(1)])
         (use 3(3) accountedI(2,3) [OF copy [OF 3(1)] 3(2)] in auto)
  next
    case (4 H' e)
    then show ?case by (rule failed) simp
  next
    case (5 H' e)
    then show ?case by (rule failed) simp
  qed (use copy assms(3) in \<open>auto simp: create_role_request_def\<close>)
qed

lemma hwp_create_role_loop:
  assumes "managed_read H f t ms" "set names \<subseteq> set all"
  shows "hwp (create_role_request l sa f t all) S (create_role_result l sa f t allow names u)
           (create_role_loop l sa f t allow ms names u) H"
  using assms
proof (induction names arbitrary: u H S)
  case Nil
  then show ?case by (simp add: create_role_result_def)
next
  case (Cons rn rest)
  let ?q = "Get Live KRole (f, rn)"
  have "hwp (create_role_request l sa f t all) S' (create_role_result l sa f t allow (rn # rest) u)
      (create_role_loop l sa f t allow ms rest u') H'"
    if "insert (?q, r) H \<subseteq> H'" "accounted l sa f t H' u' rn" "set u \<subseteq> set u'" "\<not> allow \<longrightarrow> u' = u" for r H' u' S'
    using Cons.prems that(1) by (intro create_role_step [OF _ that(2-4)] Cons.IH) auto
  then have next_round: "may_continue l sa f t allow all rn rest u (create_role_loop l sa f t allow ms rest) (insert (?q, r) H)" for r
    unfolding may_continue_def by blast
  show ?case
    unfolding create_role_loop.simps get_role_def
  proof (rule hwp_call_cases, goal_cases)
    case 1
    show ?case by (simp add: create_role_request_def)
  next
    case (2 r e)
    show ?case
    proof (cases "is_not_found e")
      case True
      show ?thesis
        unfolding if_P [OF True]
        by (rule hwp_skip [OF next_round]) (use True as_obj_not_found [OF 2 True] in \<open>auto intro: accountedI(1) [of _ _ e]\<close>)
    next
      case False
      show ?thesis
        unfolding if_not_P [OF False] by (rule hwp_skip_or_fail [OF next_round]) (auto intro: accountedI(4))
    qed
  next
    case (3 r src)
    define rules where "rules = fst (rulesFilter rn f t (roleRules src) ms)"
    have can: "rulesFilter rn f t (roleRules src) ms = (rules, rules \<noteq> [])"
      by (simp add: rules_def rulesFilter_def Let_def)
    have "role_read (insert (?q, r) H) (f, rn) src" "managed_read (insert (?q, r) H) f t ms"
      using 3 Cons.prems(1) by (auto simp: role_read_def intro: managed_read_mono)
    note copy = projected_grounds [OF this]
    show ?case
      unfolding can Let_def prod.case
      by (cases "rules = []"; simp only: simp_thms if_True if_False)
         (rule hwp_skip_or_fail [OF next_round] hwp_project_role [OF next_round];
          use copy Cons.prems(2) in \<open>auto simp: rules_def intro: accountedI(4)\<close>)+
  qed
qed

lemma hwp_CreateRole:
  "hwp (create_role_request l sa f t names) S (create_role_result l sa f t allow names [])
     (CreateRole names l sa f t allow) H"
proof -
  have loop: "hwp (create_role_request l sa f t names) S (create_role_result l sa f t allow names [])
      (create_role_loop l sa f t allow ms names []) H2" if "managed_read H2 f t ms" for ms H2
    using that by (rule hwp_create_role_loop) simp
  have "hwp (create_role_request l sa f t names) S (create_role_result l sa f t allow names [])
      (case as_obj the_role r of
         Inl e \<Rightarrow> if \<not> is_not_found e then Ret ([], Some e) else create_role_loop l sa f t allow [] names []
       | Inr m \<Rightarrow> create_role_loop l sa f t allow (roleRules m) names [])
      (insert (Get Live KRole (t, NamespaceScopeManagedPrefix @ f), r) H)" for r
  proof (cases "as_obj the_role r")
    case (Inl e)
    show ?thesis
    proof (cases "is_not_found e")
      case True
      with Inl as_obj_not_found [OF Inl] show ?thesis
        by (simp only: sum.case simp_thms if_False) (rule loop, auto simp: managed_read_def)
    next
      case False
      with Inl show ?thesis by (simp add: create_role_result_def)
    qed
  next
    case (Inr m)
    then show ?thesis
      by (simp only: sum.case) (rule loop, auto simp: managed_read_def role_read_def)
  qed
  then show ?thesis
    by (simp add: CreateRole_def get_role_def bind_call create_role_request_def)
qed

section \<open>The request condition of a whole projection\<close>

text \<open>The service accounts of the instance: of a Pod with its restart labels, or listed and there.\<close>

definition selected_sa :: "nss \<Rightarrow> history \<Rightarrow> string \<Rightarrow> bool" where
  "selected_sa inst H sa \<longleftrightarrow>
     (\<exists>obs pod. (ListOf Cached KPod (nss_namespace inst) (restartLabels (spec inst)), RList obs) \<in> H \<and>
        OPod pod \<in> set obs \<and> podServiceAccountName pod = sa \<and> sa \<noteq> []) \<or>
     (sa \<in> set (serviceAccountMembers (spec inst)) \<and>
        (\<exists>m. (Get Cached KServiceAccount (nss_namespace inst, sa), RObj (OServiceAccount m)) \<in> H))"

definition projection_target :: "nss \<Rightarrow> history \<Rightarrow> string \<Rightarrow> bool" where
  "projection_target inst H toNs \<longleftrightarrow>
     toNs \<in> set (validatedMembers (nssStatus inst)) \<and>
     (\<exists>operatorNs. operator_namespace_read H operatorNs \<and> toNs \<noteq> operatorNs)"

text \<open>
  An object the projection may write: the filtered copy of a Role of the instance's namespace,
  or the binding to that copy, in a validated member other than the operator's namespace, for a
  selected service account that is bound to the Role there.
\<close>

definition projected_object :: "nss \<Rightarrow> history \<Rightarrow> obj \<Rightarrow> bool" where
  "projected_object inst H ob \<longleftrightarrow>
     (\<exists>toNs sa roleName.
        projection_target inst H toNs \<and> selected_sa inst H sa \<and>
        bound_in H sa (nss_namespace inst) roleName \<and>
        (case ob of
           ORole r \<Rightarrow> role_grounds H (projected_labels inst) sa (nss_namespace inst) toNs roleName r
         | ORoleBinding b \<Rightarrow> b = projected_binding roleName (projected_labels inst) sa (nss_namespace inst) toNs
         | _ \<Rightarrow> False))"

fun is_role :: "obj \<Rightarrow> bool" where
  "is_role (ORole r) = True"
| "is_role _ = False"

fun is_write :: "request \<Rightarrow> bool" where
  "is_write (Create ob) = True"
| "is_write (Update ob) = True"
| "is_write (StatusUpdate ob) = True"
| "is_write (Patch a b) = True"
| "is_write (StatusPatch a b) = True"
| "is_write (Delete ob) = True"
| "is_write (DeleteAllOf k ns l) = True"
| "is_write _ = False"

definition push_request :: "nss \<Rightarrow> history \<Rightarrow> request \<Rightarrow> bool" where
  "push_request inst H q \<longleftrightarrow>
     (is_write q \<longrightarrow>
        (\<exists>ob. (q = Create ob \<or> q = Update ob \<and> is_role ob) \<and> projected_object inst H ob))"

lemma selected_sa_mono [intro]: "selected_sa inst H sa \<Longrightarrow> H \<subseteq> H' \<Longrightarrow> selected_sa inst H' sa"
  unfolding selected_sa_def by blast

lemma projection_target_mono [intro]: "projection_target inst H t \<Longrightarrow> H \<subseteq> H' \<Longrightarrow> projection_target inst H' t"
  unfolding projection_target_def by blast

lemma projected_object_mono: "projected_object inst H ob \<Longrightarrow> H \<subseteq> H' \<Longrightarrow> projected_object inst H' ob"
proof -
  assume p: "projected_object inst H ob" and sub: "H \<subseteq> H'"
  note mono = projection_target_mono [OF _ sub] selected_sa_mono [OF _ sub] bound_in_mono [OF _ sub]
    role_grounds_mono [OF _ sub]
  from p show ?thesis
    unfolding projected_object_def by (cases ob) (simp_all, (blast intro: mono)+)
qed

lemma push_request_mono: "hist_mono (push_request inst)"
  unfolding hist_mono_def push_request_def by (blast intro: projected_object_mono)

lemma push_request_read [simp]: "\<not> is_write q \<Longrightarrow> push_request inst H q"
  by (simp add: push_request_def)

lemma create_role_push_request:
  assumes "create_role_request (projected_labels inst) sa (nss_namespace inst) t names H q"
    and "projection_target inst H t" "selected_sa inst H sa"
    and "\<And>rn. rn \<in> set names \<Longrightarrow> bound_in H sa (nss_namespace inst) rn"
  shows "push_request inst H q"
proof -
  have "projected_object inst H (ORole r)"
    if "rn \<in> set names" "role_grounds H (projected_labels inst) sa (nss_namespace inst) t rn r" for rn r
    unfolding projected_object_def obj.case using that assms(2-4) by blast
  then show ?thesis
    using assms(1) unfolding create_role_request_def push_request_def
    by (auto split: request.splits source.splits kind.splits obj.splits)
qed

section \<open>The goroutines\<close>

lemma hwp_CreateRoleBinding:
  assumes "projection_target inst H t" "selected_sa inst H sa"
    and "\<And>rn. rn \<in> set names \<Longrightarrow> bound_in H sa (nss_namespace inst) rn"
    and "\<And>H' x. H \<subseteq> H' \<Longrightarrow> Q H' (Done x)"
  shows "hwp (push_request inst) S Q
     (CreateRoleBinding names (projected_labels inst) sa (nss_namespace inst) t) H"
  using assms
proof (induction names arbitrary: H)
  case (Cons rn rest)
  let ?b = "projected_binding rn (projected_labels inst) sa (nss_namespace inst) t"
  have "projected_object inst H (ORoleBinding ?b)"
    using Cons.prems(1-3) unfolding projected_object_def by force
  then have "push_request inst H (Create (ORoleBinding ?b))"
    by (simp add: push_request_def)
  moreover have "hwp (push_request inst) S Q
     (CreateRoleBinding rest (projected_labels inst) sa (nss_namespace inst) t)
     (insert (Create (ORoleBinding ?b), r) H)" for r
  proof (rule Cons.IH)
    show "bound_in (insert (Create (ORoleBinding ?b), r) H) sa (nss_namespace inst) x" if "x \<in> set rest" for x
      using Cons.prems(3) [of x] that by auto
  qed (use Cons.prems in auto)
  ultimately show ?case
    by (auto simp: bind_call split: sum.split intro!: Cons.prems(4) subset_insertI)
qed simp

text \<open>Messages of a goroutine: lists of unprojected roles only in the subset mode.\<close>

definition goroutine_msg :: "nss \<Rightarrow> history \<Rightarrow> msg \<Rightarrow> bool" where
  "goroutine_msg inst H m \<longleftrightarrow> allowSubsetProjection (spec inst) \<or> is_err m"

lemma goroutine_msg_mono [simp]: "hist_mono (goroutine_msg inst)"
  by (simp add: hist_mono_def goroutine_msg_def)

lemma goroutine_msg_err [simp]: "goroutine_msg inst H (SendErr e)"
  by (simp add: goroutine_msg_def)

lemma hwp_goroutine_error: "hwp (push_request inst) (goroutine_msg inst) (\<lambda>_ _. True) (goroutine_error inst res t e) H"
  by (simp add: goroutine_error_def warn_forbidden_def proc_simps)

lemma hwp_rbac_goroutine:
  assumes "projection_target inst H t" "selected_sa inst H sa"
  shows "hwp (push_request inst) (goroutine_msg inst) (\<lambda>_ _. True)
     (rbac_goroutine inst (projected_labels inst) (nss_namespace inst) t sa) H"
proof -
  let ?f = "nss_namespace inst" and ?l = "projected_labels inst" and ?allow = "allowSubsetProjection (spec inst)"
  let ?hwp = "hwp (push_request inst) (goroutine_msg inst) (\<lambda>_ _. True)"
  let ?bindings = "\<lambda>names. bind (CreateRoleBinding names ?l sa ?f t) (\<lambda>y.
      case y of Inl e \<Rightarrow> goroutine_error inst ''rolebindings'' t e | Inr _ \<Rightarrow> Ret ())"
  have bindings: "?hwp (?bindings names) H2"
    if "H \<subseteq> H2" "\<And>rn. rn \<in> set names \<Longrightarrow> bound_in H2 sa ?f rn" for names H2
    unfolding hwp_bind
    by (rule hwp_CreateRoleBinding)
       (use that assms in \<open>auto split: sum.split intro: hwp_goroutine_error\<close>)
  have roles: "?hwp (bind (CreateRole names ?l sa ?f t ?allow) (\<lambda>(u, er). case er of
        Some e \<Rightarrow> goroutine_error inst ''roles'' t e
      | None \<Rightarrow> let bindings = ?bindings names in
          if 0 < length u then Send (SendUnprojected u) bindings else bindings)) H2"
    if "H \<subseteq> H2" "\<And>rn. rn \<in> set names \<Longrightarrow> bound_in H2 sa ?f rn" for names H2
    unfolding hwp_bind
  proof (rule hwp_conseq [OF hwp_CreateRole])
    fix H3 q
    assume "H2 \<subseteq> H3" "create_role_request ?l sa ?f t names H3 q"
    then show "push_request inst H3 q"
      using assms that by (elim create_role_push_request) auto
  next
    fix H3 and oc :: "(string list \<times> err option) outcome"
    assume H3: "H2 \<subseteq> H3" and r: "create_role_result ?l sa ?f t ?allow names [] H3 oc"
    then obtain u er where oc: "oc = Done (u, er)" and strict: "\<not> ?allow \<longrightarrow> u = []"
      by (auto simp: create_role_result_def)
    have "?hwp (?bindings names) H3"
      using H3 that by (intro bindings) auto
    note b = this
    show "and_then (\<lambda>_. True) (\<lambda>x. ?hwp (case x of (u, er) \<Rightarrow> case er of
        Some e \<Rightarrow> goroutine_error inst ''roles'' t e
      | None \<Rightarrow> let bindings = ?bindings names in
          if 0 < length u then Send (SendUnprojected u) bindings else bindings) H3) oc"
    proof (cases er)
      case None
      then show ?thesis
        using b strict
        by (simp only: oc and_then_simps prod.case option.case Let_def hwp.simps goroutine_msg_def length_greater_0_conv split: if_split) blast
    qed (simp add: oc hwp_goroutine_error)
  qed auto
  show ?thesis
    unfolding rbac_goroutine_def hwp_bind
    by (rule hwp_GetRolesFromServiceAccount)
       (simp_all only: and_then_simps sum.case hwp.simps push_request_read is_write.simps
          goroutine_msg_err simp_thms roles)
qed

interpretation push: goroutine_contract "push_request inst" "goroutine_msg inst" for inst
  by unfold_locales (simp_all add: push_request_mono)

text \<open>The messages that arrive are those of one mode.\<close>

lemma unprojected_of_errs: "\<forall>m \<in> set buf. is_err m \<Longrightarrow> unprojected_of buf = []"
  by (induction buf rule: unprojected_of.induct) auto

lemma errors_of_lists: "\<forall>m \<in> set buf. \<not> is_err m \<Longrightarrow> errors_of buf = []"
  by (induction buf rule: errors_of.induct) auto

lemma hwp_generateRBACToNamespace:
  assumes "projection_target inst H t" "\<And>sa. sa \<in> set sas \<Longrightarrow> selected_sa inst H sa"
    and "\<And>H' u er. H \<subseteq> H' \<Longrightarrow> allowSubsetProjection (spec inst) \<or> u = [] \<Longrightarrow> Q H' (Done (u, er))"
    and "\<And>H'. Q H' Panicked" "\<And>H'. Q H' Blocked"
  shows "hwp (push_request inst) S Q (generateRBACToNamespace inst sas (nss_namespace inst) t) H"
  unfolding generateRBACToNamespace_def hwp_bind
proof (rule push.hwp_fork_join)
  show "\<forall>p \<in> set (map (rbac_goroutine inst (projected_labels inst) (nss_namespace inst) t) sas).
      hwp (push_request inst) (goroutine_msg inst) (\<lambda>_ _. True) p H"
    using assms(1,2) by (auto intro: hwp_rbac_goroutine)
qed (use assms(4,5) in \<open>auto simp: goroutine_msg_def intro!: assms(3) unprojected_of_errs\<close>)


section \<open>The whole projection\<close>

lemma set_pod_service_accounts:
  "set (pod_service_accounts pods acc) =
     set acc \<union> {sa. sa \<noteq> [] \<and> (\<exists>pod \<in> set pods. podServiceAccountName pod = sa)}"
  by (induction pods acc rule: pod_service_accounts.induct) auto

lemma as_obj_service_account [simp]: "as_obj the_service_account r = Inr x \<longleftrightarrow> r = RObj (OServiceAccount x)"
  by (auto simp: as_obj_def split: response.splits option.splits elim: the_service_account.elims)

lemma hwp_member_service_accounts:
  assumes "set sas \<subseteq> set (serviceAccountMembers (spec inst))" "\<forall>sa \<in> set acc. selected_sa inst H sa"
    and "\<And>H' xs. H \<subseteq> H' \<Longrightarrow> \<forall>sa \<in> set xs. selected_sa inst H' sa \<Longrightarrow> Q H' (Done xs)"
  shows "hwp (push_request inst) S Q (member_service_accounts (nss_namespace inst) sas acc) H"
  using assms
proof (induction sas arbitrary: acc H)
  case (Cons sa sas)
  let ?q = "Get Cached KServiceAccount (nss_namespace inst, sa)"
  have "hwp (push_request inst) S Q (member_service_accounts (nss_namespace inst) sas
      (case as_obj the_service_account r of Inl e \<Rightarrow> acc | Inr _ \<Rightarrow> acc @ [sa])) (insert (?q, r) H)" for r
  proof (rule Cons.IH)
    have old: "\<forall>sa \<in> set acc. selected_sa inst (insert (?q, r) H) sa"
      using Cons.prems(2) by auto
    have "selected_sa inst (insert (?q, r) H) sa" if "as_obj the_service_account r = Inr m" for m
      using Cons.prems(1) that by (auto simp: selected_sa_def)
    with old show "\<forall>sa \<in> set (case as_obj the_service_account r of Inl e \<Rightarrow> acc | Inr _ \<Rightarrow> acc @ [sa]).
        selected_sa inst (insert (?q, r) H) sa"
      by (auto split: sum.split)
  qed (use Cons.prems in auto)
  then show ?case
    by (simp add: bind_call sum.case_distrib cong: sum.case_cong)
qed simp

lemma hwp_GetServiceAccountFromNamespace:
  assumes "\<And>H' e. H \<subseteq> H' \<Longrightarrow> Q H' (Done (Inl e))"
    and "\<And>H' xs. H \<subseteq> H' \<Longrightarrow> \<forall>sa \<in> set xs. selected_sa inst H' sa \<Longrightarrow> Q H' (Done (Inr xs))"
  shows "hwp (push_request inst) S Q (GetServiceAccountFromNamespace inst (nss_namespace inst)) H"
proof -
  let ?q = "ListOf Cached KPod (nss_namespace inst) (restartLabels (spec inst))"
  have unique: "hwp (push_request inst) S Q (bind (ToStringSlice (MakeSet sas)) (\<lambda>xs. Ret (Inr xs))) H'"
    if "H \<subseteq> H'" "\<forall>sa \<in> set sas. selected_sa inst H' sa" for sas H'
    using that by (auto simp: ToStringSlice_def bind_call intro!: assms(2))
  have found: "hwp (push_request inst) S Q (bind (member_service_accounts (nss_namespace inst)
       (serviceAccountMembers (spec inst)) (pod_service_accounts pods []))
       (\<lambda>saNames. bind (ToStringSlice (MakeSet saNames)) (\<lambda>xs. Ret (Inr xs)))) (insert (?q, r) H)"
    if r: "as_list the_pod r = Inr pods" for r pods
    unfolding hwp_bind [of _ _ _ "member_service_accounts _ _ _"]
  proof (rule hwp_member_service_accounts)
    obtain obs where obs: "r = RList obs" "\<And>pod. pod \<in> set pods \<Longrightarrow> \<exists>ob \<in> set obs. the_pod ob = Some pod"
      using as_list_InrE [OF r] by blast
    then show "\<forall>sa \<in> set (pod_service_accounts pods []). selected_sa inst (insert (?q, r) H) sa"
      by (auto simp: set_pod_service_accounts selected_sa_def)
    show "and_then (Q H') (\<lambda>a. hwp (push_request inst) S Q (bind (ToStringSlice (MakeSet a)) (\<lambda>xs. Ret (Inr xs))) H') (Done xs)"
      if "insert (?q, r) H \<subseteq> H'" "\<forall>sa \<in> set xs. selected_sa inst H' sa" for H' xs
      unfolding and_then_simps using that by (intro unique) auto
  qed simp
  have "hwp (push_request inst) S Q (case as_list the_pod r of Inl e \<Rightarrow> Ret (Inl e) | Inr pods \<Rightarrow>
      bind (member_service_accounts (nss_namespace inst)
       (serviceAccountMembers (spec inst)) (pod_service_accounts pods []))
       (\<lambda>saNames. bind (ToStringSlice (MakeSet saNames)) (\<lambda>xs. Ret (Inr xs)))) (insert (?q, r) H)" for r
  proof (cases "as_list the_pod r")
    case (Inl e)
    then show ?thesis by (simp add: assms(1) subset_insertI)
  next
    case (Inr pods)
    then show ?thesis by (simp only: sum.case found)
  qed
  then show ?thesis
    by (simp add: GetServiceAccountFromNamespace_def go_try_def bind_call)
qed

lemma as_env_SomeD: "as_env r = Some ns \<Longrightarrow> r = REnv (Some ns)"
  by (cases r) (auto simp: as_env_def)

lemma as_file_InrD: "as_file r = Inr bs \<Longrightarrow> r = RFile bs"
  by (cases r) (auto simp: as_file_def)

lemma hwp_GetOperatorNamespace:
  assumes "\<And>H. P H (LookupEnv ''OPERATOR_NAMESPACE'')" "\<And>H. P H (ReadFile service_account_namespace_file)"
    and "\<And>H' e. H \<subseteq> H' \<Longrightarrow> Q H' (Done (Inl e))"
    and "\<And>H' ns. H \<subseteq> H' \<Longrightarrow> operator_namespace_read H' ns \<Longrightarrow> Q H' (Done (Inr ns))"
  shows "hwp P S Q GetOperatorNamespace H"
  by (auto simp: GetOperatorNamespace_def bind_call check_operator_namespace_def assms(1,2)
      operator_namespace_read_def split: option.split sum.split dest!: as_env_SomeD as_file_InrD
      intro!: assms(3,4))

section \<open>Progress\<close>

lemma sends_within_of_wp: "wp (\<lambda>_. True) (\<lambda>_. False) finishes p \<Longrightarrow> sends_within ne nu p"
  by (induction p) auto

lemma wp_of_sends_within: "sends_within 0 0 p \<Longrightarrow> wp (\<lambda>_. True) S finishes p"
  by (induction p) (auto split: if_splits)

lemma sends_within_weaken: "sends_within ne nu p \<Longrightarrow> ne \<le> ne' \<Longrightarrow> nu \<le> nu' \<Longrightarrow> sends_within ne' nu' p"
proof (induction p arbitrary: ne nu ne' nu')
  case (Send m p)
  then show ?case
    by (auto split: if_splits intro: Send.IH diff_le_mono)
qed (simp_all, blast)

lemma sends_within_create_role_loop: "sends_within 0 0 (create_role_loop l sa f t allow ms names u)"
  by (cases allow; induction names arbitrary: u)
     (simp_all add: get_role_def Let_def split: sum.split prod.split)

lemma sends_within_CreateRole: "sends_within 0 0 (CreateRole names l sa f t allow)"
  by (simp add: CreateRole_def get_role_def sends_within_create_role_loop split: sum.split)

lemma sends_within_CreateRoleBinding: "sends_within 0 0 (CreateRoleBinding names l sa f t)"
  by (induction names) (simp_all split: sum.split)

lemma sends_within_GetRolesFromServiceAccount: "sends_within 0 0 (GetRolesFromServiceAccount sa ns)"
  by (simp add: GetRolesFromServiceAccount_def go_try_def ToStringSlice_def split: sum.split)

lemma sends_within_goroutine_error: "sends_within 1 0 (goroutine_error inst res t e)"
  by (simp add: goroutine_error_def warn_forbidden_def)

lemma sends_within_rbac_goroutine: "sends_within 1 1 (rbac_goroutine inst l f t sa)"
proof -
  have err: "sends_within 1 nu (goroutine_error inst res t e)" for nu res e
    by (rule sends_within_weaken [OF sends_within_goroutine_error]) simp_all
  show ?thesis
    unfolding rbac_goroutine_def Let_def
    by (intro sends_within_bind sends_within_GetRolesFromServiceAccount)
       (auto split: sum.split option.split intro!: sends_within_bind sends_within_CreateRole
          sends_within_CreateRoleBinding simp: err simp del: One_nat_def)
qed

lemma sends_within_generate: "sends_within 0 0 (generateRBACToNamespace inst sas f t)"
  unfolding generateRBACToNamespace_def
  by (intro sends_within_bind sends_within_of_wp fork_join_finishes)
     (auto simp: sends_within_rbac_goroutine simp del: One_nat_def)

lemma sends_within_push_goroutine: "sends_within 1 1 (push_goroutine inst sas f t)"
  unfolding push_goroutine_def
  by (intro sends_within_bind sends_within_generate) (auto simp: Let_def split: option.split)

lemma wp_reads_GetServiceAccountFromNamespace:
  "wp (\<lambda>q. \<not> is_write q) (\<lambda>_. False) finishes (GetServiceAccountFromNamespace inst ns)"
proof -
  have members: "wp (\<lambda>q. \<not> is_write q) (\<lambda>_. False) finishes (member_service_accounts ns sas acc)" for sas acc
    by (induction sas arbitrary: acc) (simp_all add: bind_call split: sum.split)
  show ?thesis
    by (auto simp: GetServiceAccountFromNamespace_def proc_simps ToStringSlice_def finishes_def
        split: sum.split intro!: wp_mono [OF members])
qed

lemma wp_reads_GetOperatorNamespace: "wp (\<lambda>q. \<not> is_write q) (\<lambda>_. False) finishes GetOperatorNamespace"
  by (rule wp_GetOperatorNamespace) simp_all

lemma wp_PushRbacToNamespace_finishes: "wp (\<lambda>_. True) (\<lambda>_. False) finishes (PushRbacToNamespace inst)"
proof -
  have fork: "wp (\<lambda>_. True) (\<lambda>_. False) finishes
      (fork_join (map (push_goroutine inst sas f) (filter p ts)) (length ts))" for sas f p ts
    by (rule fork_join_finishes) (auto simp: sends_within_push_goroutine simp del: One_nat_def)
  note pieces = wp_reads_GetServiceAccountFromNamespace [THEN wp_mono] wp_reads_GetOperatorNamespace [THEN wp_mono]
    fork [THEN wp_mono]
  show ?thesis
    unfolding PushRbacToNamespace_def Let_def wp_bind
    by (rule pieces) (auto simp: proc_simps finishes_def split: sum.split intro!: pieces)
qed


section \<open>Safety of the whole projection\<close>

text \<open>The outer fork: errors in the strict mode, lists of unprojected roles in the subset mode.\<close>

definition push_msg :: "nss \<Rightarrow> history \<Rightarrow> msg \<Rightarrow> bool" where
  "push_msg inst H m \<longleftrightarrow> is_err m = (\<not> allowSubsetProjection (spec inst))"

interpretation pushes: goroutine_contract "push_request inst" "push_msg inst" for inst
  by unfold_locales (simp add: push_request_mono, simp add: hist_mono_def push_msg_def)

lemma hwp_push_goroutine:
  assumes "projection_target inst H t" "\<forall>sa \<in> set sas. selected_sa inst H sa"
  shows "hwp (push_request inst) (push_msg inst) (\<lambda>_ _. True)
     (push_goroutine inst sas (nss_namespace inst) t) H"
  unfolding push_goroutine_def hwp_bind
  using assms
  by (intro hwp_generateRBACToNamespace) (auto simp: Let_def push_msg_def split: option.split)

text \<open>A projection that reports an error in the subset mode has written nothing.\<close>

definition push_result :: "nss \<Rightarrow> history \<Rightarrow> (string list \<times> err option) outcome \<Rightarrow> bool" where
  "push_result inst H oc \<longleftrightarrow>
     (\<forall>u er. oc = Done (u, er) \<longrightarrow>
        (\<not> allowSubsetProjection (spec inst) \<longrightarrow> u = []) \<and>
        (allowSubsetProjection (spec inst) \<and> er \<noteq> None \<longrightarrow> (\<forall>(q, r) \<in> H. \<not> is_write q)))"

lemma hwp_only:
  "hwp P S Q p H \<Longrightarrow> wp P' S' Q' p \<Longrightarrow> \<forall>(q, r) \<in> H. P' q \<Longrightarrow>
     hwp P S (\<lambda>H' oc. Q H' oc \<and> (\<forall>(q, r) \<in> H'. P' q)) p H"
  by (induction p arbitrary: H) auto

text \<open>
  \<open>PushRbacToNamespace\<close> step by step: \<open>A\<close> is what is known of the service accounts, \<open>B\<close> what is known
  when the goroutines start.
\<close>

abbreviation push_fork :: "nss \<Rightarrow> string list \<Rightarrow> string \<Rightarrow> (string list \<times> err option) proc" where
  "push_fork inst sas ops \<equiv>
     bind (fork_join (map (push_goroutine inst sas (nss_namespace inst))
         (filter (\<lambda>t. t \<noteq> ops) (validatedMembers (nssStatus inst)))) (length (validatedMembers (nssStatus inst))))
       (\<lambda>buf. Ret (unprojected_of buf, first_error (errors_of buf)))"

fun known_or_fails ::
  "(history \<Rightarrow> (string list \<times> err option) outcome \<Rightarrow> bool) \<Rightarrow> (history \<Rightarrow> 'a \<Rightarrow> bool) \<Rightarrow> history \<Rightarrow> (err + 'a) outcome \<Rightarrow> bool" where
  "known_or_fails Q A H (Done (Inl e)) = Q H (Done ([], Some e))"
| "known_or_fails Q A H (Done (Inr a)) = A H a"
| "known_or_fails Q A H _ = False"

lemma known_or_failsI:
  "\<exists>x. oc = Done x \<and> (\<forall>a. x = Inr a \<longrightarrow> A H a) \<Longrightarrow> (\<And>e. Q H (Done ([], Some e))) \<Longrightarrow> known_or_fails Q A H oc"
  by (elim exE, rename_tac x, case_tac x) auto

lemma hwp_known:
  assumes "hwp P S (known_or_fails Q A) p H" "\<And>H' a. H \<subseteq> H' \<Longrightarrow> A H' a \<Longrightarrow> hwp P S Q (f a) H'"
  shows "hwp P S Q (bind p (\<lambda>x. case x of Inl e \<Rightarrow> Ret ([], Some e) | Inr a \<Rightarrow> f a)) H"
  unfolding hwp_bind
proof (rule hwp_conseq [OF assms(1)])
  fix H' oc
  assume "H \<subseteq> H'" "known_or_fails Q A H' oc"
  then show "and_then (Q H') (\<lambda>x. hwp P S Q (case x of Inl e \<Rightarrow> Ret ([], Some e) | Inr a \<Rightarrow> f a) H') oc"
    using assms(2) by (cases "(Q, A, H', oc)" rule: known_or_fails.cases) auto
qed auto

lemma hwp_push_steps:
  assumes "hwp P S (known_or_fails Q A) (GetServiceAccountFromNamespace inst (nss_namespace inst)) H"
    and "\<And>H' sas. H \<subseteq> H' \<Longrightarrow> A H' sas \<Longrightarrow> hwp P S (known_or_fails Q (\<lambda>H ops. B H sas ops)) GetOperatorNamespace H'"
    and "\<And>H' sas ops. B H' sas ops \<Longrightarrow> hwp P S Q (push_fork inst sas ops) H'"
  shows "hwp P S Q (PushRbacToNamespace inst) H"
  unfolding PushRbacToNamespace_def Let_def by (rule hwp_known hwp_known [OF assms(2)] assms | assumption)+

lemma hwp_push_fork:
  assumes "\<forall>sa \<in> set sas. selected_sa inst H sa" "operator_namespace_read H ops"
  shows "hwp (push_request inst) (\<lambda>_ _. False) (push_result inst) (push_fork inst sas ops) H"
  unfolding hwp_bind
proof (rule pushes.hwp_fork_join)
  show "\<forall>p \<in> set (map (push_goroutine inst sas (nss_namespace inst))
      (filter (\<lambda>t. t \<noteq> ops) (validatedMembers (nssStatus inst)))).
      hwp (push_request inst) (push_msg inst) (\<lambda>_ _. True) p H"
    using assms by (auto simp: projection_target_def intro!: hwp_push_goroutine)
next
  fix H' buf
  assume "\<forall>m \<in> set buf. push_msg inst H' m"
  then show "and_then (push_result inst H') (\<lambda>buf. hwp (push_request inst) (\<lambda>_ _. False) (push_result inst)
      (Ret (unprojected_of buf, first_error (errors_of buf))) H') (Done buf)"
    by (auto simp: push_result_def push_msg_def first_error_def unprojected_of_errs errors_of_lists)
qed (simp_all add: push_result_def)

lemma hwp_PushRbacToNamespace:
  "hwp (push_request inst) (\<lambda>_ _. False) (push_result inst) (PushRbacToNamespace inst) {}"
proof -
  let ?reads = "\<lambda>H :: history. \<forall>(q, r) \<in> H. \<not> is_write q"
  let ?A = "\<lambda>H sas. ?reads H \<and> (\<forall>sa \<in> set sas. selected_sa inst H sa)"
  let ?B = "\<lambda>H sas ops. (\<forall>sa \<in> set sas. selected_sa inst H sa) \<and> operator_namespace_read H ops"
  have failed: "push_result inst H (Done ([], Some e))" if "?reads H" for H e
    using that by (simp add: push_result_def)
  show ?thesis
  proof (rule hwp_push_steps [where A = ?A and B = ?B])
    show "hwp (push_request inst) (\<lambda>_ _. False) (known_or_fails (push_result inst) ?A)
        (GetServiceAccountFromNamespace inst (nss_namespace inst)) {}"
      by (rule hwp_conseq [OF hwp_only [OF hwp_GetServiceAccountFromNamespace wp_reads_GetServiceAccountFromNamespace,
            where Q = "\<lambda>H oc. \<exists>x. oc = Done x \<and> (\<forall>sas. x = Inr sas \<longrightarrow> (\<forall>sa \<in> set sas. selected_sa inst H sa))"]])
         (auto intro!: known_or_failsI failed)
    show "hwp (push_request inst) (\<lambda>_ _. False) (known_or_fails (push_result inst) (\<lambda>H ops. ?B H sas ops))
        GetOperatorNamespace H" if "?A H sas" for H sas
    proof -
      have keep: "\<forall>sa \<in> set sas. selected_sa inst H' sa" if "H \<subseteq> H'" for H'
        using \<open>?A H sas\<close> selected_sa_mono [OF _ that] by blast
      show ?thesis
        by (rule hwp_conseq [OF hwp_only [OF hwp_GetOperatorNamespace wp_reads_GetOperatorNamespace,
              where Q = "\<lambda>H oc. \<exists>x. oc = Done x \<and> (\<forall>ops. x = Inr ops \<longrightarrow> operator_namespace_read H ops)"]])
           (use that keep in \<open>auto intro!: known_or_failsI failed\<close>)
    qed
  qed (simp add: hwp_push_fork)
qed


section \<open>Properties\<close>

text \<open>
  C2: least privilege of the projection. Whatever the API server answers and however the
  goroutines interleave, \<open>PushRbacToNamespace\<close> writes nothing but Roles (created or updated) and
  RoleBindings (created), each of them justified by what was read before the write: its
  namespace is a validated member and not the operator's own, its service account was selected
  by the instance (a Pod with the restart labels runs under it, or it is listed and exists) and is
  bound in the instance's namespace to the source Role, and the Role written is the non-empty
  \<open>rulesFilter\<close> copy of that source Role against the operator's Role read in the target. In the
  strict mode no role is reported as unprojected; in the subset mode an error is reported only
  when nothing was written.
\<close>

theorem push_least_privilege:
  "ensures (PushRbacToNamespace inst) (push_request inst) (push_result inst)"
  by (rule ensuresI) (rule hwp_PushRbacToNamespace)

text \<open>A written Role against the Role it is a copy of, in terms of the requests they allow.\<close>

definition within_permissions :: "nss \<Rightarrow> history \<Rightarrow> role \<Rightarrow> bool" where
  "within_permissions inst H r \<longleftrightarrow>
     (\<exists>sa roleName src ms.
        selected_sa inst H sa \<and> bound_in H sa (nss_namespace inst) roleName \<and>
        role_read H (nss_namespace inst, roleName) src \<and>
        managed_read H (nss_namespace inst) (omNamespace (roleMeta r)) ms \<and>
        (\<forall>a. rules_allow (roleRules r) a \<longrightarrow>
           rules_allow (roleRules src) a \<and>
           (rules_allow (map explicit_part (roleRules src)) a \<or> rules_allow ms a)))"

lemma projected_within_permissions:
  assumes "projected_object inst H (ORole r)" shows "within_permissions inst H r"
proof -
  from assms obtain t sa rn src ms where
    "selected_sa inst H sa" "bound_in H sa (nss_namespace inst) rn"
    "role_read H (nss_namespace inst, rn) src" "managed_read H (nss_namespace inst) t ms" and
    r: "r = projected_role rn (projected_labels inst) sa (nss_namespace inst) t
          (fst (rulesFilter rn (nss_namespace inst) t (roleRules src) ms))"
    by (auto simp: projected_object_def role_grounds_def)
  moreover have "omNamespace (roleMeta r) = t"
    by (simp add: r projected_role_def new_meta_def)
  moreover have "rules_allow (roleRules r) a \<Longrightarrow> rules_allow (roleRules src) a \<and>
      (rules_allow (map explicit_part (roleRules src)) a \<or> rules_allow ms a)" for a
    using rulesFilter_sound by (simp add: r projected_role_def)
  ultimately show ?thesis
    unfolding within_permissions_def
    by (intro exI [of _ sa] exI [of _ rn] exI [of _ src] exI [of _ ms]) simp
qed

text \<open>
  C3: no escalation through the projection. Every request that a Role written by
  \<open>PushRbacToNamespace\<close> allows is allowed, in the instance's own namespace, by a Role that was
  read there and is bound to a selected service account; and what it allows beyond the
  wildcard-free parts of that Role is allowed by the operator's own Role in the target.
\<close>

theorem push_within_permissions:
  "ensures (PushRbacToNamespace inst)
     (\<lambda>H q. case q of Create (ORole r) \<Rightarrow> within_permissions inst H r
                    | Update (ORole r) \<Rightarrow> within_permissions inst H r | _ \<Rightarrow> True)
     (\<lambda>_ _. True)"
  by (rule ensures_mono [OF ensuresI [OF hwp_PushRbacToNamespace]])
     (auto simp: push_request_def projected_within_permissions split: request.split obj.split)

text \<open>
  C17: the projection always comes to an end. The buffered channels hold as many messages as
  there are goroutines, each goroutine sends at most one error and one list, and so, under every
  interleaving and every answer, no send of \<open>PushRbacToNamespace\<close> or of a nested
  \<open>generateRBACToNamespace\<close> waits forever, nothing panics, and a result is returned.
\<close>

theorem push_finishes:
  "ensures (PushRbacToNamespace inst) (\<lambda>_ _. True) (\<lambda>_ oc. \<exists>unprojected er. oc = Done (unprojected, er))"
  by (rule ensures_mono [OF ensures_wpI [OF wp_PushRbacToNamespace_finishes]]) (auto simp: finishes_def)

text \<open>
  C19: \<open>CreateRole\<close> accounts for every Role. It reads Roles and writes filtered copies of the
  Roles named, nothing else; and when it returns no error, every name of the list was not
  found, or has a copy that the API server accepted, or is reported as unprojected with a
  reason. Without \<open>allowSubsetProjection\<close> nothing is reported as unprojected.
\<close>

theorem CreateRole_accounts:
  "ensures (CreateRole roleNames lbls saName fromNs toNs allowSubset)
     (create_role_request lbls saName fromNs toNs roleNames)
     (create_role_result lbls saName fromNs toNs allowSubset roleNames [])"
  by (rule ensuresI) (rule hwp_CreateRole)

text \<open>
  C39: a RoleBinding that exists already hides the ones after it. When the binding of \<open>role\<close>
  exists, \<open>CreateRoleBinding\<close> returns success after it, although no binding was created (or
  looked at) for any of the roles that follow in the list.
\<close>

theorem CreateRoleBinding_stops:
  "possible (CreateRoleBinding (bound @ role # rest) lbls sa fromNs toNs)
     (map (\<lambda>n. (Create (ORoleBinding (projected_binding n lbls sa fromNs toNs)), ROk)) bound @
        [(Create (ORoleBinding (projected_binding role lbls sa fromNs toNs)), RErr (StatusErr AlreadyExists m))])
     (Done (Inr ()))"
  unfolding possible_def by (induction bound) (simp_all add: proc_simps response_simps)


end
