(* ===== verification/Push_Complete.thy ===== *)
theory Push_Complete
  imports Rbac_Properties
begin

text \<open>
  Completeness of the projection: what has been done when \<open>PushRbacToNamespace\<close> returns without an
  error in the strict mode. A goroutine either does all of its work or sends an error, whatever
  the other goroutines do in between; so a fork that ends with no error in its channel has done
  the work of all of its goroutines.
\<close>

section \<open>Work that is done or reported\<close>

text \<open>\<open>completes D t H\<close>: in every run of \<open>t\<close> from \<open>H\<close> on, also one in which others add to the
  history, \<open>D\<close> holds at the end or an error was sent.\<close>

primrec completes :: "(history \<Rightarrow> bool) \<Rightarrow> 'a proc \<Rightarrow> history \<Rightarrow> bool" where
  "completes D (Ret a) = D"
| "completes D Panic = (\<lambda>_. True)"
| "completes D Block = (\<lambda>_. True)"
| "completes D (Call q k) = (\<lambda>H. \<forall>r. completes D (k r) (insert (q, r) H))"
| "completes D (Send m p) = (\<lambda>H. is_err m \<or> completes D p H)"

definition grows :: "(history \<Rightarrow> bool) \<Rightarrow> bool" where
  "grows D \<longleftrightarrow> (\<forall>H H'. H \<subseteq> H' \<longrightarrow> D H \<longrightarrow> D H')"

definition has_err :: "msg list \<Rightarrow> bool" where
  "has_err buf \<longleftrightarrow> list_ex is_err buf"

lemma has_err_simps [simp]: "\<not> has_err []" "has_err (buf @ [m]) \<longleftrightarrow> has_err buf \<or> is_err m"
  by (auto simp: has_err_def)

lemma errors_of_Nil: "errors_of buf = [] \<longleftrightarrow> \<not> has_err buf"
  by (induction buf rule: errors_of.induct) (auto simp: has_err_def)

lemma growsD: "grows D \<Longrightarrow> D H \<Longrightarrow> H \<subseteq> H' \<Longrightarrow> D H'"
  by (auto simp: grows_def)

lemma completes_grow: "completes D t H \<Longrightarrow> H \<subseteq> H' \<Longrightarrow> grows D \<Longrightarrow> completes D t H'"
proof (induction t arbitrary: H H')
  case (Call q k)
  have "completes D (k r) (insert (q, r) H')" for r
  proof (rule Call.IH [OF rangeI])
    show "completes D (k r) (insert (q, r) H)" using Call.prems(1) by simp
  qed (use Call.prems(2,3) in auto)
  then show ?case by simp
qed (auto dest: growsD)

lemma completes_bind:
  "hwp (\<lambda>_ _. True) (\<lambda>_ _. False) (\<lambda>H. and_then (\<lambda>_. True) (\<lambda>a. completes D (f a) H)) p H \<Longrightarrow>
     completes D (bind p f) H"
  by (induction p arbitrary: H) auto

text \<open>What a fork ends with.\<close>

definition fork_done :: "(history \<Rightarrow> bool) list \<Rightarrow> history \<Rightarrow> msg list outcome \<Rightarrow> bool" where
  "fork_done Ds H oc \<longleftrightarrow> (\<forall>buf. oc = Done buf \<longrightarrow> has_err buf \<or> list_all (\<lambda>D. D H) Ds)"

definition pending :: "(history \<Rightarrow> bool) list \<Rightarrow> unit proc list \<Rightarrow> msg list \<Rightarrow> history \<Rightarrow> bool" where
  "pending Ds ts buf H \<longleftrightarrow> has_err buf \<or> list_all2 (\<lambda>D t. completes D t H) Ds ts"

abbreviation runs_to :: "(history \<Rightarrow> 'a outcome \<Rightarrow> bool) \<Rightarrow> 'a proc \<Rightarrow> history \<Rightarrow> bool" where
  "runs_to Q \<equiv> hwp (\<lambda>_ _. True) (\<lambda>_ _. False) Q"

lemma pending_grow:
  "pending Ds ts buf H \<Longrightarrow> H \<subseteq> H' \<Longrightarrow> list_all grows Ds \<Longrightarrow> pending Ds ts buf H'"
  by (auto simp: pending_def list_all_iff list_all2_conv_all_nth intro: completes_grow)

lemma runs_to_run_alone:
  "has_err buf \<or> completes D t H \<Longrightarrow>
     runs_to (\<lambda>H' oc. \<forall>buf'. oc = Done buf' \<longrightarrow> has_err buf' \<or> D H') (run_alone n t buf) H"
proof (induction t arbitrary: buf H)
  case (Call q k)
  then show ?case by (auto intro!: Call.IH)
qed auto

lemma runs_to_drain:
  "pending Ds ts buf H \<Longrightarrow> list_all grows Ds \<Longrightarrow> runs_to (fork_done Ds) (drain n ts buf) H"
proof (induction ts arbitrary: Ds buf H)
  case Nil
  then show ?case by (auto simp: pending_def fork_done_def)
next
  case (Cons t ts)
  show ?case
    unfolding drain.simps hwp_bind
  proof (cases "has_err buf")
    case True
    show "runs_to (\<lambda>H. and_then (fork_done Ds H) (\<lambda>buf'. runs_to (fork_done Ds) (drain n ts buf') H))
        (run_alone n t buf) H"
    proof (rule hwp_conseq [OF runs_to_run_alone [where D = "\<lambda>_. False"]])
      fix H' oc
      assume "\<forall>buf'. oc = Done buf' \<longrightarrow> has_err buf' \<or> False"
      then show "and_then (fork_done Ds H') (\<lambda>buf'. runs_to (fork_done Ds) (drain n ts buf') H') oc"
        using Cons.prems(2) by (cases oc) (auto simp: fork_done_def pending_def intro!: Cons.IH)
    qed (use True in auto)
  next
    case False
    then obtain D Ds' where Ds: "Ds = D # Ds'" and D: "completes D t H"
      and rest: "list_all2 (\<lambda>D t. completes D t H) Ds' ts"
      using Cons.prems by (auto simp: pending_def list_all2_Cons2)
    show "runs_to (\<lambda>H. and_then (fork_done Ds H) (\<lambda>buf'. runs_to (fork_done Ds) (drain n ts buf') H))
        (run_alone n t buf) H"
    proof (rule hwp_conseq [OF runs_to_run_alone [OF disjI2 [OF D]]])
      fix H' and oc :: "msg list outcome"
      assume H': "H \<subseteq> H'" and oc: "\<forall>buf'. oc = Done buf' \<longrightarrow> has_err buf' \<or> D H'"
      have erred: "runs_to (fork_done Ds) (drain n ts buf') H'" if "has_err buf'" for buf'
        using that Cons.prems(2) by (intro Cons.IH) (simp_all add: pending_def)
      have worked: "runs_to (fork_done Ds) (drain n ts buf') H'" if "D H'" for buf'
      proof (rule hwp_conseq [OF Cons.IH [where Ds = Ds']])
        have "pending Ds' ts [] H"
          using rest by (simp add: pending_def)
        then have "pending Ds' ts [] H'"
          using H' Cons.prems(2) Ds by (auto intro: pending_grow)
        then show "pending Ds' ts buf' H'"
          by (simp add: pending_def)
        show "fork_done Ds H2 oc" if "H' \<subseteq> H2" "fork_done Ds' H2 oc" for H2 oc
          using that growsD [of D H' H2] \<open>D H'\<close> Cons.prems(2) Ds by (auto simp: fork_done_def)
      qed (use Cons.prems(2) Ds in auto)
      then show "and_then (fork_done Ds H') (\<lambda>buf'. runs_to (fork_done Ds) (drain n ts buf') H') oc"
        using oc erred worked by (cases oc) (auto simp: fork_done_def)
    qed auto
  qed
qed

lemma pending_step:
  assumes "pending Ds ts buf H" "list_all grows Ds" "H \<subseteq> H'" "j < length ts"
    and "has_err buf' \<or> \<not> has_err buf \<and> completes (Ds ! j) p H'"
  shows "pending Ds (ts[j := p]) buf' H'"
proof (cases "has_err buf'")
  case False
  with assms have "pending Ds ts buf H'" "\<not> has_err buf" "completes (Ds ! j) p H'"
    by (auto intro: pending_grow)
  then have "list_all2 (\<lambda>D t. completes D t H') (Ds[j := Ds ! j]) (ts[j := p])"
    by (intro list_all2_update_cong) (auto simp: pending_def)
  then show ?thesis by (simp add: pending_def)
qed (simp add: pending_def)

lemma runs_to_interleave:
  "pending Ds ts buf H \<Longrightarrow> list_all grows Ds \<Longrightarrow> runs_to (fork_done Ds) (interleave n sched ts buf) H"
proof (induction sched arbitrary: ts buf H)
  case Nil
  then show ?case by (simp add: runs_to_drain)
next
  case (Cons i sched)
  show ?case
  proof (cases "ts = []")
    case True
    with Cons show ?thesis by (simp add: step_thread_def)
  next
    case False
    define j where "j = i mod length ts"
    have j: "j < length ts" using False by (simp add: j_def)
    have t: "has_err buf \<or> completes (Ds ! j) (ts ! j) H"
      using Cons.prems(1) j by (auto simp: pending_def list_all2_conv_all_nth)
    have next_step: "runs_to (fork_done Ds) (interleave n sched (ts[j := p]) buf') H'"
      if "H \<subseteq> H'" "has_err buf' \<or> \<not> has_err buf \<and> completes (Ds ! j) p H'" for p buf' H'
      using pending_step [OF Cons.prems that(1) j that(2)] Cons.prems(2) by (rule Cons.IH)
    show ?thesis
    proof (cases "ts ! j")
      case (Call q k)
      have "runs_to (fork_done Ds) (interleave n sched (ts[j := k r]) buf) (insert (q, r) H)" for r
        using t Call by (intro next_step) auto
      then show ?thesis
        using Call False by (simp add: step_thread_def Let_def j_def [symmetric])
    next
      case (Send m p)
      have "runs_to (fork_done Ds) (interleave n sched (ts[j := p]) (buf @ [m])) H"
        using t Send by (intro next_step) auto
      then show ?thesis
        using Send False Cons.IH [OF Cons.prems] by (simp add: step_thread_def Let_def j_def [symmetric])
    qed (use False Cons.IH [OF Cons.prems] in \<open>auto simp: step_thread_def Let_def j_def [symmetric] fork_done_def\<close>)
  qed
qed

lemma runs_to_fork_join:
  assumes "list_all2 (\<lambda>D t. completes D t H) Ds ts" "list_all grows Ds"
  shows "runs_to (fork_done Ds) (fork_join ts n) H"
proof -
  have "pending Ds ts [] H" using assms(1) by (simp add: pending_def)
  then have "pending Ds ts [] (insert (Schedule (length ts), r) H)" for r
    using assms(2) by (rule pending_grow [OF _ subset_insertI])
  then show ?thesis
    using assms(2) by (simp add: fork_join_def proc_simps runs_to_interleave)
qed

section \<open>One service account, one namespace\<close>

text \<open>
  The bindings were created in turn: all of them, or up to one that exists already, which ends the
  loop of the code.
\<close>

definition binding_answer :: "labels \<Rightarrow> string \<Rightarrow> string \<Rightarrow> string \<Rightarrow> string \<Rightarrow> history \<Rightarrow> (err + unit) set" where
  "binding_answer lbls sa fromNs toNs rn H =
     {as_unit r | r. (Create (ORoleBinding (projected_binding rn lbls sa fromNs toNs)), r) \<in> H}"

primrec bindings_placed :: "labels \<Rightarrow> string \<Rightarrow> string \<Rightarrow> string \<Rightarrow> history \<Rightarrow> string list \<Rightarrow> bool" where
  "bindings_placed lbls sa fromNs toNs H [] = True"
| "bindings_placed lbls sa fromNs toNs H (rn # names) =
     (Inr () \<in> binding_answer lbls sa fromNs toNs rn H \<and> bindings_placed lbls sa fromNs toNs H names \<or>
      (\<exists>e. Inl e \<in> binding_answer lbls sa fromNs toNs rn H \<and> is_already_exists e))"

text \<open>
  What it takes to serve a service account in a namespace: the RoleBindings of the instance's
  namespace were listed, every Role they bind to it was not found or has a filtered copy that the
  API server accepted, and the bindings to the copies were placed.
\<close>

definition sa_served :: "nss \<Rightarrow> string \<Rightarrow> string \<Rightarrow> history \<Rightarrow> bool" where
  "sa_served inst toNs sa H \<longleftrightarrow>
     (\<exists>r rbs names. (ListOf Live KRoleBinding (nss_namespace inst) [], r) \<in> H \<and>
        as_list the_role_binding r = Inr rbs \<and>
        set names = {rn. \<exists>rb \<in> set rbs. binds sa (nss_namespace inst) rn rb} \<and>
        (\<forall>rn \<in> set names. accounted (projected_labels inst) sa (nss_namespace inst) toNs H [] rn) \<and>
        bindings_placed (projected_labels inst) sa (nss_namespace inst) toNs H names)"

lemma binding_answer_mono: "H \<subseteq> H' \<Longrightarrow> binding_answer l sa f t rn H \<subseteq> binding_answer l sa f t rn H'"
  unfolding binding_answer_def by blast

lemma binding_answerI: "as_unit r \<in> binding_answer l sa f t rn
    (insert (Create (ORoleBinding (projected_binding rn l sa f t)), r) H)"
  unfolding binding_answer_def by blast

lemma bindings_placed_mono: "bindings_placed l sa f t H names \<Longrightarrow> H \<subseteq> H' \<Longrightarrow> bindings_placed l sa f t H' names"
  by (induction names) (auto dest: binding_answer_mono [THEN subsetD])

lemma sa_served_grows: "grows (sa_served inst t sa)"
  unfolding grows_def
proof (intro allI impI)
  fix H H' :: history
  assume sub: "H \<subseteq> H'" and "sa_served inst t sa H"
  then show "sa_served inst t sa H'"
    unfolding sa_served_def
    using accounted_mono [OF _ sub order_refl] bindings_placed_mono [OF _ sub] by blast
qed

lemma runs_to_CreateRoleBinding:
  "runs_to (\<lambda>H' oc. oc = Done (Inr ()) \<longrightarrow> bindings_placed l sa f t H' names) (CreateRoleBinding names l sa f t) H"
proof (induction names arbitrary: H)
  case (Cons rn names)
  let ?q = "Create (ORoleBinding (projected_binding rn l sa f t))"
  let ?Q = "\<lambda>H' (oc :: (err + unit) outcome). oc = Done (Inr ()) \<longrightarrow> bindings_placed l sa f t H' (rn # names)"
  have answer: "as_unit r \<in> binding_answer l sa f t rn H'" if "insert (?q, r) H \<subseteq> H'" for r H'
    using binding_answerI binding_answer_mono [OF that] by blast
  have "runs_to ?Q (CreateRoleBinding names l sa f t) (insert (?q, r) H)" if "as_unit r = Inr ()" for r
    by (rule hwp_conseq [OF Cons.IH]) (use answer [of r] that in auto)
  moreover have "?Q (insert (?q, r) H) (Done (Inr ()))" if "as_unit r = Inl e" "is_already_exists e" for r e
    using answer [of r, OF order_refl] that by auto
  ultimately have "runs_to ?Q (case as_unit r of
      Inl e \<Rightarrow> if is_already_exists e then Ret (Inr ()) else Ret (Inl e)
    | Inr _ \<Rightarrow> CreateRoleBinding names l sa f t) (insert (?q, r) H)" for r
    by (cases "as_unit r") auto
  then show ?case by (simp add: bind_call)
qed simp

lemma completes_error:
  "\<not> allowSubsetProjection (spec inst) \<Longrightarrow> completes D (goroutine_error inst res t e) H"
  by (simp add: goroutine_error_def warn_forbidden_def bind_call)

lemma runs_to_GetRoles:
  "runs_to (\<lambda>H' oc. \<forall>names. oc = Done (Inr names) \<longrightarrow>
      (\<exists>r rbs. (ListOf Live KRoleBinding ns [], r) \<in> H' \<and> as_list the_role_binding r = Inr rbs \<and>
         set names = {rn. \<exists>rb \<in> set rbs. binds sa ns rn rb})) (GetRolesFromServiceAccount sa ns) H"
  by (auto simp: GetRolesFromServiceAccount_def ToStringSlice_def proc_simps set_bindings_loop split: sum.split)

text \<open>\<open>names\<close> are the Roles bound to a service account, according to the bindings that were listed.\<close>

definition roles_listed :: "string \<Rightarrow> string \<Rightarrow> history \<Rightarrow> string list \<Rightarrow> bool" where
  "roles_listed sa ns H names \<longleftrightarrow>
     (\<exists>r rbs. (ListOf Live KRoleBinding ns [], r) \<in> H \<and> as_list the_role_binding r = Inr rbs \<and>
        set names = {rn. \<exists>rb \<in> set rbs. binds sa ns rn rb})"

lemma roles_listed_mono: "roles_listed sa ns H names \<Longrightarrow> H \<subseteq> H' \<Longrightarrow> roles_listed sa ns H' names"
  unfolding roles_listed_def by blast

abbreviation then_bindings :: "nss \<Rightarrow> string \<Rightarrow> string \<Rightarrow> string list \<Rightarrow> unit proc" where
  "then_bindings inst t sa names \<equiv>
     bind (CreateRoleBinding names (projected_labels inst) sa (nss_namespace inst) t) (\<lambda>y. case y of
       Inl e \<Rightarrow> goroutine_error inst ''rolebindings'' t e | Inr _ \<Rightarrow> Ret ())"

lemma completes_bindings:
  assumes "\<not> allowSubsetProjection (spec inst)" "roles_listed sa (nss_namespace inst) H names"
    and "\<forall>rn \<in> set names. accounted (projected_labels inst) sa (nss_namespace inst) t H [] rn"
  shows "completes (sa_served inst t sa) (then_bindings inst t sa names) H"
proof (rule completes_bind, rule hwp_conseq [OF runs_to_CreateRoleBinding])
  fix H' and oc :: "(err + unit) outcome"
  assume H': "H \<subseteq> H'"
    and placed: "oc = Done (Inr ()) \<longrightarrow> bindings_placed (projected_labels inst) sa (nss_namespace inst) t H' names"
  have "sa_served inst t sa H'"
    if "bindings_placed (projected_labels inst) sa (nss_namespace inst) t H' names"
    using roles_listed_mono [OF assms(2) H'] that assms(3) accounted_mono [OF _ H' order_refl]
    unfolding sa_served_def roles_listed_def by blast
  then show "and_then (\<lambda>_. True) (\<lambda>y. completes (sa_served inst t sa) (case y of
      Inl e \<Rightarrow> goroutine_error inst ''rolebindings'' t e | Inr _ \<Rightarrow> Ret ()) H') oc"
    using placed completes_error [OF assms(1)] by (cases oc) (auto split: sum.split)
qed auto

lemma completes_roles:
  assumes "\<not> allowSubsetProjection (spec inst)" "roles_listed sa (nss_namespace inst) H names"
  shows "completes (sa_served inst t sa)
    (bind (CreateRole names (projected_labels inst) sa (nss_namespace inst) t (allowSubsetProjection (spec inst)))
      (\<lambda>(u, er). case er of
        Some e \<Rightarrow> goroutine_error inst ''roles'' t e
      | None \<Rightarrow> let bindings = then_bindings inst t sa names
               in if 0 < length u then Send (SendUnprojected u) bindings else bindings)) H"
proof (rule completes_bind, rule hwp_conseq [OF hwp_CreateRole])
  let ?l = "projected_labels inst" and ?f = "nss_namespace inst"
  fix H' and oc :: "(string list \<times> err option) outcome"
  assume H': "H \<subseteq> H'" and "create_role_result ?l sa ?f t (allowSubsetProjection (spec inst)) names [] H' oc"
  then obtain er where oc: "oc = Done ([], er)"
    and copies: "er = None \<Longrightarrow> \<forall>rn \<in> set names. accounted ?l sa ?f t H' [] rn"
    using assms(1) by (auto simp: create_role_result_def)
  show "and_then (\<lambda>_. True) (\<lambda>x. completes (sa_served inst t sa) (case x of (u, er) \<Rightarrow> (case er of
      Some e \<Rightarrow> goroutine_error inst ''roles'' t e
    | None \<Rightarrow> let bindings = then_bindings inst t sa names
             in if 0 < length u then Send (SendUnprojected u) bindings else bindings)) H') oc"
  proof (cases er)
    case None
    show ?thesis
      unfolding oc None and_then_simps prod.case option.case Let_def list.size if_not_P [OF less_irrefl]
      by (rule completes_bindings [OF assms(1) roles_listed_mono [OF assms(2) H'] copies [OF None]])
  qed (simp add: oc completes_error [OF assms(1)])
qed auto

lemma completes_rbac_goroutine:
  assumes "\<not> allowSubsetProjection (spec inst)"
  shows "completes (sa_served inst t sa) (rbac_goroutine inst (projected_labels inst) (nss_namespace inst) t sa) H"
  unfolding rbac_goroutine_def
proof (rule completes_bind, rule hwp_conseq [OF runs_to_GetRoles])
  fix H' and oc :: "(err + string list) outcome"
  assume "\<forall>names. oc = Done (Inr names) \<longrightarrow>
      (\<exists>r rbs. (ListOf Live KRoleBinding (nss_namespace inst) [], r) \<in> H' \<and> as_list the_role_binding r = Inr rbs \<and>
         set names = {rn. \<exists>rb \<in> set rbs. binds sa (nss_namespace inst) rn rb})"
  then have listed: "roles_listed sa (nss_namespace inst) H' names" if "oc = Done (Inr names)" for names
    using that by (simp add: roles_listed_def)
  let ?roles = "\<lambda>names. bind (CreateRole names (projected_labels inst) sa (nss_namespace inst) t
      (allowSubsetProjection (spec inst))) (\<lambda>(u, er). case er of
        Some e \<Rightarrow> goroutine_error inst ''roles'' t e
      | None \<Rightarrow> let bindings = then_bindings inst t sa names
               in if 0 < length u then Send (SendUnprojected u) bindings else bindings)"
  show "and_then (\<lambda>_. True) (\<lambda>x. completes (sa_served inst t sa) (case x of
      Inl e \<Rightarrow> Send (SendErr e) (Ret ()) | Inr names \<Rightarrow> ?roles names) H') oc"
  proof (cases oc)
    case (Done x)
    then show ?thesis
      using listed completes_roles [OF assms]
      by (cases x) (simp_all only: and_then_simps sum.case, auto)
  qed simp_all
qed auto

section \<open>The whole projection\<close>

definition namespace_served :: "nss \<Rightarrow> string list \<Rightarrow> string \<Rightarrow> history \<Rightarrow> bool" where
  "namespace_served inst sas toNs H \<longleftrightarrow> list_all (\<lambda>sa. sa_served inst toNs sa H) sas"

lemma namespace_served_grows: "grows (namespace_served inst sas t)"
  unfolding grows_def namespace_served_def list_all_iff using growsD [OF sa_served_grows] by blast

lemma runs_to_generateRBAC:
  assumes "\<not> allowSubsetProjection (spec inst)"
  shows "runs_to (\<lambda>H' oc. \<forall>u. oc = Done (u, None) \<longrightarrow> namespace_served inst sas t H')
     (generateRBACToNamespace inst sas (nss_namespace inst) t) H"
  unfolding generateRBACToNamespace_def hwp_bind
proof (rule hwp_conseq [OF runs_to_fork_join])
  let ?Ds = "map (sa_served inst t) sas"
  show "list_all2 (\<lambda>D p. completes D p H) ?Ds
      (map (rbac_goroutine inst (projected_labels inst) (nss_namespace inst) t) sas)"
    by (simp add: list_all2_map1 list_all2_map2 list.rel_refl completes_rbac_goroutine [OF assms])
  show "list_all grows ?Ds"
    by (simp add: list_all_iff sa_served_grows)
  fix H' oc
  assume "fork_done ?Ds H' oc"
  then show "and_then (\<lambda>oc. \<forall>u. oc = Done (u, None) \<longrightarrow> namespace_served inst sas t H')
      (\<lambda>buf. runs_to (\<lambda>H' oc. \<forall>u. oc = Done (u, None) \<longrightarrow> namespace_served inst sas t H')
         (Ret (unprojected_of buf, first_error (errors_of buf))) H') oc"
    by (cases oc) (auto simp: fork_done_def namespace_served_def list_all_iff first_error_def errors_of_Nil
        split: list.splits)
qed auto

lemma completes_push_goroutine:
  assumes "\<not> allowSubsetProjection (spec inst)"
  shows "completes (namespace_served inst sas t) (push_goroutine inst sas (nss_namespace inst) t) H"
  unfolding push_goroutine_def
proof (rule completes_bind, rule hwp_conseq [OF runs_to_generateRBAC [OF assms, of sas t]])
  fix H' and oc :: "(string list \<times> err option) outcome"
  assume "\<forall>u. oc = Done (u, None) \<longrightarrow> namespace_served inst sas t H'"
  then show "and_then (\<lambda>_. True) (\<lambda>a. completes (namespace_served inst sas t) (case a of (unprojected, er) \<Rightarrow>
      let report = if 0 < length unprojected then Send (SendUnprojected unprojected) (Ret ()) else Ret ()
      in case er of Some e \<Rightarrow> if \<not> allowSubsetProjection (spec inst) then Send (SendErr e) (Ret ()) else report
         | None \<Rightarrow> report) H') oc"
    using assms by (cases oc) (auto simp: Let_def split: option.split)
qed auto

text \<open>
  The service accounts found: those of the Pods listed with the restart labels, and the listed
  members but for the ones that could not be read.
\<close>

definition accounts_read :: "nss \<Rightarrow> history \<Rightarrow> string list \<Rightarrow> bool" where
  "accounts_read inst H sas \<longleftrightarrow>
     (\<exists>r pods. (ListOf Cached KPod (nss_namespace inst) (restartLabels (spec inst)), r) \<in> H \<and>
        as_list the_pod r = Inr pods \<and>
        set (map podServiceAccountName pods) - {[]} \<subseteq> set sas) \<and>
     (\<forall>sa \<in> set (serviceAccountMembers (spec inst)) - set sas. \<exists>r e.
        (Get Cached KServiceAccount (nss_namespace inst, sa), r) \<in> H \<and> as_obj the_service_account r = Inl e)"

lemma accounts_read_mono: "accounts_read inst H sas \<Longrightarrow> H \<subseteq> H' \<Longrightarrow> accounts_read inst H' sas"
  unfolding accounts_read_def by (meson subsetD)

lemma runs_to_member_accounts:
  "runs_to (\<lambda>H' oc. H \<subseteq> H' \<and> (\<forall>xs. oc = Done xs \<longrightarrow> set acc \<subseteq> set xs \<and>
      (\<forall>sa \<in> set sas - set xs. \<exists>r e. (Get Cached KServiceAccount (ns, sa), r) \<in> H' \<and>
         as_obj the_service_account r = Inl e)))
     (member_service_accounts ns sas acc) H"
proof (induction sas arbitrary: acc H)
  case (Cons sa sas)
  let ?q = "Get Cached KServiceAccount (ns, sa)"
  let ?Q = "\<lambda>H' oc. H \<subseteq> H' \<and> (\<forall>xs. oc = Done xs \<longrightarrow> set acc \<subseteq> set xs \<and>
      (\<forall>sa \<in> set (sa # sas) - set xs. \<exists>r e. (Get Cached KServiceAccount (ns, sa), r) \<in> H' \<and>
         as_obj the_service_account r = Inl e))"
  have "runs_to ?Q (case as_obj the_service_account r of
      Inl e \<Rightarrow> member_service_accounts ns sas acc
    | Inr _ \<Rightarrow> member_service_accounts ns sas (acc @ [sa])) (insert (?q, r) H)" for r
  proof (cases "as_obj the_service_account r")
    case (Inl e)
    then show ?thesis by (simp only: sum.case) (rule hwp_conseq [OF Cons.IH], auto)
  next
    case (Inr m)
    then show ?thesis by (simp only: sum.case) (rule hwp_conseq [OF Cons.IH], auto)
  qed
  then show ?case by (simp add: bind_call)
qed simp

lemma runs_to_accounts:
  "runs_to (\<lambda>H' oc. \<forall>sas. oc = Done (Inr sas) \<longrightarrow> accounts_read inst H' sas)
     (GetServiceAccountFromNamespace inst (nss_namespace inst)) H"
proof -
  let ?q = "ListOf Cached KPod (nss_namespace inst) (restartLabels (spec inst))"
  let ?Q = "\<lambda>H' oc. \<forall>sas. oc = Done (Inr sas) \<longrightarrow> accounts_read inst H' sas"
  have "runs_to ?Q (bind (member_service_accounts (nss_namespace inst) (serviceAccountMembers (spec inst))
        (pod_service_accounts pods [])) (\<lambda>saNames. bind (ToStringSlice (MakeSet saNames)) (\<lambda>xs. Ret (Inr xs))))
      (insert (?q, r) H)" if "as_list the_pod r = Inr pods" for r pods
    unfolding hwp_bind [of _ _ _ "member_service_accounts _ _ _"]
  proof (rule hwp_conseq [OF runs_to_member_accounts])
    fix H' oc
    assume "insert (?q, r) H \<subseteq> H' \<and> (\<forall>xs. oc = Done xs \<longrightarrow> set (pod_service_accounts pods []) \<subseteq> set xs \<and>
      (\<forall>sa \<in> set (serviceAccountMembers (spec inst)) - set xs. \<exists>r e.
         (Get Cached KServiceAccount (nss_namespace inst, sa), r) \<in> H' \<and> as_obj the_service_account r = Inl e))"
    moreover from this have "accounts_read inst H' xs" if "oc = Done xs" for xs
      unfolding accounts_read_def using that \<open>as_list the_pod r = Inr pods\<close>
      by (intro conjI exI [of _ r] exI [of _ pods]) (auto simp: set_pod_service_accounts)
    ultimately show "and_then (?Q H') (\<lambda>saNames. runs_to ?Q (bind (ToStringSlice (MakeSet saNames))
        (\<lambda>xs. Ret (Inr xs))) H') oc"
      using accounts_read_mono [OF _ subset_insertI]
      by (cases oc) (auto simp: ToStringSlice_def bind_call accounts_read_def)
  qed auto
  then show ?thesis
    by (auto simp: GetServiceAccountFromNamespace_def go_try_def bind_call split: sum.split)
qed

definition push_complete_result :: "nss \<Rightarrow> history \<Rightarrow> (string list \<times> err option) outcome \<Rightarrow> bool" where
  "push_complete_result inst H oc \<longleftrightarrow>
     (\<forall>u. oc = Done (u, None) \<longrightarrow>
        (\<exists>operatorNs sas. operator_namespace_read H operatorNs \<and> accounts_read inst H sas \<and>
           (\<forall>toNs \<in> set (validatedMembers (nssStatus inst)) - {operatorNs}. \<forall>sa \<in> set sas.
              sa_served inst toNs sa H)))"

lemma runs_to_push_fork:
  assumes "\<not> allowSubsetProjection (spec inst)" "operator_namespace_read H ops" "accounts_read inst H sas"
  shows "runs_to (push_complete_result inst) (push_fork inst sas ops) H"
  unfolding hwp_bind
proof (rule hwp_conseq [OF runs_to_fork_join])
  let ?ms = "filter (\<lambda>t. t \<noteq> ops) (validatedMembers (nssStatus inst))"
  let ?Ds = "map (namespace_served inst sas) ?ms"
  show "list_all2 (\<lambda>D p. completes D p H) ?Ds (map (push_goroutine inst sas (nss_namespace inst)) ?ms)"
    by (simp add: list_all2_map1 list_all2_map2 list.rel_refl completes_push_goroutine [OF assms(1)])
  show "list_all grows ?Ds"
    by (simp add: list_all_iff namespace_served_grows)
  fix H' and oc :: "msg list outcome"
  assume H': "H \<subseteq> H'" and forked: "fork_done ?Ds H' oc"
  have "push_complete_result inst H' (Done (u, None))" if "list_all (\<lambda>D. D H') ?Ds" for u
    unfolding push_complete_result_def
    using that operator_namespace_read_mono [OF assms(2) H'] accounts_read_mono [OF assms(3) H']
    by (intro allI impI exI [of _ ops] exI [of _ sas]) (auto simp: list_all_iff namespace_served_def)
  then show "and_then (push_complete_result inst H') (\<lambda>buf. runs_to (push_complete_result inst)
      (Ret (unprojected_of buf, first_error (errors_of buf))) H') oc"
    using forked by (cases oc) (auto simp: fork_done_def errors_of_Nil first_error_def push_complete_result_def
        split: list.splits)
qed auto

lemma runs_to_PushRbac:
  assumes "\<not> allowSubsetProjection (spec inst)"
  shows "runs_to (push_complete_result inst) (PushRbacToNamespace inst) H"
proof (rule hwp_push_steps [where A = "accounts_read inst" and
      B = "\<lambda>H sas ops. operator_namespace_read H ops \<and> accounts_read inst H sas"])
  have failed: "push_complete_result inst H2 (Done (u, Some e))" for H2 u e
    by (simp add: push_complete_result_def)
  show "runs_to (known_or_fails (push_complete_result inst) (accounts_read inst))
      (GetServiceAccountFromNamespace inst (nss_namespace inst)) H"
    by (rule hwp_conseq [OF hwp_outcome [OF runs_to_accounts wp_reads_GetServiceAccountFromNamespace]])
       (auto simp: finishes_def intro!: known_or_failsI failed)
  show "runs_to (known_or_fails (push_complete_result inst) (\<lambda>H ops. operator_namespace_read H ops \<and> accounts_read inst H sas))
      GetOperatorNamespace H2" if "accounts_read inst H2 sas" for H2 sas
    by (rule hwp_GetOperatorNamespace) (auto simp: failed intro: accounts_read_mono [OF that])
qed (auto intro: runs_to_push_fork [OF assms])

section \<open>The property\<close>

text \<open>
  C7: the projection is complete. When \<open>PushRbacToNamespace\<close> returns without an error in the strict
  mode, then under every interleaving of the goroutines every service account that was found was
  served in every validated member but the operator's namespace: each Role bound to it in the
  instance's namespace was not found, or the API server accepted its filtered copy, and the
  bindings to the copies were placed (up to the first that existed already).
\<close>

theorem push_complete:
  assumes "\<not> allowSubsetProjection (spec inst)"
  shows "ensures (PushRbacToNamespace inst) (\<lambda>_ _. True) (push_complete_result inst)"
  by (rule ensuresI) (rule runs_to_PushRbac [OF assms])

theorem push_complete_witness:
  "ensures (PushRbacToNamespace sample_nss) (\<lambda>_ _. True) (push_complete_result sample_nss)"
  by (rule push_complete) (simp add: sample_nss_def)

end
