(* ===== verification/Goroutines.thy ===== *)
theory Goroutines
  imports Rbac_Properties
begin

text \<open>
  Goroutines by small steps, as the language has them, and the proof that \<open>interleave\<close>, which runs
  them under a schedule, has exactly those of their executions that return or panic (and waits for
  ever only where they may): any goroutine that can make a step may make the next one, a send waits for room in its channel, and a panic of one is the end of all. In these
  terms the goroutines of the projection are shown to be free of waiting.
\<close>

section \<open>Small steps\<close>

inductive go_steps ::
  "'s env \<Rightarrow> nat \<Rightarrow> unit proc list \<Rightarrow> msg list \<Rightarrow> 's \<Rightarrow> trace \<Rightarrow> unit proc list \<Rightarrow> msg list \<Rightarrow> 's \<Rightarrow> bool"
  for E n where
  none: "go_steps E n ts buf s [] ts buf s"
| request: "i < length ts \<Longrightarrow> ts ! i = Call q k \<Longrightarrow> E s q s1 r \<Longrightarrow>
     go_steps E n (ts[i := k r]) buf s1 tr ts' buf' t \<Longrightarrow> go_steps E n ts buf s ((q, r) # tr) ts' buf' t"
| send: "i < length ts \<Longrightarrow> ts ! i = Send m p \<Longrightarrow> has_room n buf m \<Longrightarrow>
     go_steps E n (ts[i := p]) (buf @ [m]) s tr ts' buf' t \<Longrightarrow> go_steps E n ts buf s tr ts' buf' t"

fun returned :: "unit proc \<Rightarrow> bool" where
  "returned (Ret a) = True"
| "returned _ = False"

text \<open>A goroutine that waits for ever: by itself, or for room that nobody makes.\<close>

fun waits :: "nat \<Rightarrow> msg list \<Rightarrow> unit proc \<Rightarrow> bool" where
  "waits n buf Block = True"
| "waits n buf (Send m p) = (\<not> has_room n buf m)"
| "waits n buf _ = False"

text \<open>How the fork can end: all returned, one panics, or one waits that will not go on.\<close>

fun ends :: "nat \<Rightarrow> unit proc list \<Rightarrow> msg list \<Rightarrow> msg list outcome \<Rightarrow> bool" where
  "ends n ts buf (Done b) = (list_all returned ts \<and> b = buf)"
| "ends n ts buf Panicked = (Panic \<in> set ts)"
| "ends n ts buf Blocked = list_ex (waits n buf) ts"

lemma go_steps_same: "ts ! i = p \<Longrightarrow> i < length ts \<Longrightarrow> go_steps E n ts buf s [] (ts[i := p]) buf s"
  using go_steps.none [of E n ts buf s] by (metis list_update_id)

lemma go_steps_trans:
  "go_steps E n ts buf s tr1 ts1 buf1 s1 \<Longrightarrow> go_steps E n ts1 buf1 s1 tr2 ts2 buf2 t \<Longrightarrow>
     go_steps E n ts buf s (tr1 @ tr2) ts2 buf2 t"
  by (induction rule: go_steps.induct) (auto intro: go_steps.intros)

text \<open>A channel only fills up while the goroutines run, so that who waits for room goes on waiting.\<close>

lemma channel_count_mono: "go_steps E n ts buf s tr ts' buf' t \<Longrightarrow> channel_count b buf \<le> channel_count b buf'"
  by (induction rule: go_steps.induct) auto

lemma has_room_mono: "go_steps E n ts buf s tr ts' buf' t \<Longrightarrow> has_room n buf' m \<Longrightarrow> has_room n buf m"
  using channel_count_mono [of E n ts buf s tr ts' buf' t "is_err m"] by (simp add: has_room_def)

lemma go_steps_length: "go_steps E n ts buf s tr ts' buf' t \<Longrightarrow> length ts' = length ts"
  by (induction rule: go_steps.induct) auto

section \<open>Every schedule is an execution\<close>

lemma run_alone_steps:
  "runs E (run_alone n p buf) s tr oc t \<Longrightarrow> i < length ts \<Longrightarrow> ts ! i = p \<Longrightarrow>
     \<exists>p' buf'. go_steps E n ts buf s tr (ts[i := p']) buf' t \<and> ends n [p'] buf' oc"
proof (induction p arbitrary: ts buf s tr)
  case (Call q k)
  from Call.prems(1) obtain s1 r tr1 where run: "E s q s1 r" "runs E (run_alone n (k r) buf) s1 tr1 oc t"
    and tr: "tr = (q, r) # tr1"
    by (auto simp: proc_simps)
  have "\<exists>p' buf'. go_steps E n (ts[i := k r]) buf s1 tr1 ((ts[i := k r])[i := p']) buf' t \<and> ends n [p'] buf' oc"
    using Call.prems(2) by (intro Call.IH [OF _ run(2)]) auto
  then show ?case
    unfolding tr using Call.prems(2,3) run(1) by (auto intro: go_steps.request)
next
  case (Send m p)
  show ?case
  proof (cases "has_room n buf m")
    case True
    then have "runs E (run_alone n p (buf @ [m])) s tr oc t" using Send.prems(1) by simp
    then have "\<exists>p' buf'. go_steps E n (ts[i := p]) (buf @ [m]) s tr ((ts[i := p])[i := p']) buf' t \<and> ends n [p'] buf' oc"
      using Send.prems(2) by (intro Send.IH) auto
    then show ?thesis
      using Send.prems(2,3) True by (auto intro: go_steps.send)
  next
    case False
    then have "tr = []" "oc = Blocked" "t = s" using Send.prems(1) by (simp_all add: proc_simps)
    then show ?thesis
      using False go_steps_same [OF Send.prems(3,2)] by (intro exI [of _ "Send m p"] exI [of _ buf]) simp
  qed
next
  case (Ret a)
  then show ?case using go_steps_same [OF Ret.prems(3,2)] by (intro exI [of _ "Ret a"] exI [of _ buf]) (auto simp: proc_simps)
next
  case Panic
  then show ?case using go_steps_same [OF Panic.prems(3,2)] by (intro exI [of _ Panic] exI [of _ buf]) (auto simp: proc_simps)
next
  case Block
  then show ?case using go_steps_same [OF Block.prems(3,2)] by (intro exI [of _ Block] exI [of _ buf]) (auto simp: proc_simps)
qed

lemma drain_steps:
  "runs E (drain n ts buf) s tr oc t \<Longrightarrow> list_all returned us \<Longrightarrow>
     \<exists>ts' buf'. go_steps E n (us @ ts) buf s tr ts' buf' t \<and> ends n ts' buf' oc"
proof (induction ts arbitrary: us buf s tr)
  case Nil
  then show ?case by (auto simp: proc_simps intro!: exI go_steps.none)
next
  case (Cons p ts)
  have alone: "\<exists>p' buf'. go_steps E n (us @ p # ts) buf s tr1 (us @ p' # ts) buf' u \<and> ends n [p'] buf' oc1"
    if "runs E (run_alone n p buf) s tr1 oc1 u" for tr1 oc1 u
    using run_alone_steps [OF that, of "length us" "us @ p # ts"] by simp
  from Cons.prems(1) have "runs E (bind (run_alone n p buf) (\<lambda>buf'. drain n ts buf')) s tr oc t" by simp
  then show ?case
  proof (cases rule: runs_bindE)
    case (finished b tr1 u tr2)
    from alone [OF finished(1)] obtain p' where p': "go_steps E n (us @ p # ts) buf s tr1 (us @ p' # ts) b u" "returned p'"
      by auto
    have "\<exists>ts' buf'. go_steps E n ((us @ [p']) @ ts) b u tr2 ts' buf' t \<and> ends n ts' buf' oc"
      using Cons.prems(2) p'(2) by (intro Cons.IH [OF finished(2)]) simp
    then obtain ts' buf' where rest: "go_steps E n (us @ p' # ts) b u tr2 ts' buf' t" "ends n ts' buf' oc"
      by auto
    from go_steps_trans [OF p'(1) rest(1)] rest(2) finished(3) show ?thesis by blast
  next
    case panicked
    from alone [OF panicked(1)] obtain p' b where "go_steps E n (us @ p # ts) buf s tr (us @ p' # ts) b t" "p' = Panic"
      by auto
    then show ?thesis using panicked(2) by (auto intro!: exI)
  next
    case blocked
    from alone [OF blocked(1)] obtain p' b where "go_steps E n (us @ p # ts) buf s tr (us @ p' # ts) b t" "waits n b p'"
      by auto
    then show ?thesis using blocked(2) by (auto intro!: exI)
  qed
qed

lemma interleave_steps:
  "runs E (interleave n sched ts buf) s tr oc t \<Longrightarrow>
     \<exists>ts' buf'. go_steps E n ts buf s tr ts' buf' t \<and> ends n ts' buf' oc"
proof (induction sched arbitrary: ts buf s tr)
  case Nil
  then show ?case using drain_steps [of E n ts buf s tr oc t "[]"] by simp
next
  case (Cons i sched)
  show ?case
  proof (cases "ts = []")
    case True
    with Cons show ?thesis by (simp add: step_thread_def)
  next
    case False
    define j where "j = i mod length ts"
    have j: "j < length ts" using False by (simp add: j_def)
    note step = Cons.prems [unfolded interleave.simps step_thread_def if_not_P [OF False] Let_def j_def [symmetric]]
    show ?thesis
    proof (cases "ts ! j")
      case (Call q k)
      with step obtain s1 r tr1 where run: "E s q s1 r" "runs E (interleave n sched (ts[j := k r]) buf) s1 tr1 oc t"
        and tr: "tr = (q, r) # tr1"
        by (auto simp: proc_simps)
      from Cons.IH [OF run(2)] show ?thesis
        unfolding tr using go_steps.request [of j ts q k E s s1 r, OF j Call run(1)] by blast
    next
      case (Send m p)
      show ?thesis
      proof (cases "has_room n buf m")
        case True
        with step Send have "runs E (interleave n sched (ts[j := p]) (buf @ [m])) s tr oc t" by simp
        from Cons.IH [OF this] obtain ts' buf' where
          rest: "go_steps E n (ts[j := p]) (buf @ [m]) s tr ts' buf' t" "ends n ts' buf' oc"
          by blast
        from go_steps.send [OF j Send True rest(1)] rest(2) show ?thesis by blast
      qed (use step Send Cons.IH in simp)
    next
      case Panic
      with step have "tr = []" "oc = Panicked" "t = s" by (simp_all add: proc_simps)
      then show ?thesis
        using Panic j nth_mem [OF j] by (auto intro!: exI go_steps.none)
    qed (use step Cons.IH in simp_all)
  qed
qed

section \<open>Every execution has its schedule\<close>

lemma drain_returned: "list_all returned ts \<Longrightarrow> drain n ts buf = Ret buf"
  by (induction ts) (auto elim: returned.elims)

text \<open>Nobody can go on: each goroutine has returned or waits, and one waits.\<close>

definition deadlocked :: "nat \<Rightarrow> unit proc list \<Rightarrow> msg list \<Rightarrow> bool" where
  "deadlocked n ts buf \<longleftrightarrow> list_ex (waits n buf) ts \<and> list_all (\<lambda>p. returned p \<or> waits n buf p) ts"

lemma drain_deadlocked: "deadlocked n ts buf \<Longrightarrow> drain n ts buf = Block"
proof (induction ts)
  case (Cons p ts)
  show ?case
  proof (cases "waits n buf p")
    case True
    then show ?thesis by (cases p) auto
  next
    case False
    with Cons.prems have "returned p" "deadlocked n ts buf" by (auto simp: deadlocked_def)
    with Cons.IH show ?thesis by (cases p) auto
  qed
qed (simp add: deadlocked_def)

lemma interleave_panics:
  assumes "Panic \<in> set ts"
  shows "\<exists>sched. interleave n sched ts buf = Panic"
proof -
  obtain j where j: "j < length ts" "ts ! j = Panic"
    using assms by (auto simp: in_set_conv_nth)
  then have "interleave n [j] ts buf = Panic" by (auto simp: step_thread_def)
  then show ?thesis ..
qed

lemma steps_interleave:
  "go_steps E n ts buf s tr ts' buf' t \<Longrightarrow> runs E (interleave n sched' ts' buf') t [] oc t \<Longrightarrow>
     \<exists>sched. runs E (interleave n sched ts buf) s tr oc t"
proof (induction rule: go_steps.induct)
  case (request i ts q k s s1 r buf tr ts' buf' t)
  then obtain sched where "runs E (interleave n sched (ts[i := k r]) buf) s1 tr oc t" by blast
  with request.hyps have "runs E (interleave n (i # sched) ts buf) s ((q, r) # tr) oc t"
    by (auto simp: step_thread_def intro: runs_Call)
  then show ?case ..
next
  case (send i ts m p buf s tr ts' buf' t)
  then obtain sched where "runs E (interleave n sched (ts[i := p]) (buf @ [m])) s tr oc t" by blast
  with send.hyps have "runs E (interleave n (i # sched) ts buf) s tr oc t"
    by (auto simp: step_thread_def)
  then show ?case ..
qed blast

lemma schedule_of:
  assumes "go_steps E n ts [] s tr ts' buf t" "runs E (interleave n sched ts' buf) t [] oc t"
  shows "\<exists>sched. runs E (interleave n sched ts []) s tr oc t"
  by (rule steps_interleave [OF assms])

lemma returns_iff:
  "(\<exists>sched. runs E (interleave n sched ts []) s tr (Done buf) t) \<longleftrightarrow>
     (\<exists>ts'. go_steps E n ts [] s tr ts' buf t \<and> list_all returned ts')"
proof
  assume "\<exists>ts'. go_steps E n ts [] s tr ts' buf t \<and> list_all returned ts'"
  then obtain ts' where "go_steps E n ts [] s tr ts' buf t" "interleave n [] ts' buf = Ret buf"
    by (auto simp: drain_returned)
  then show "\<exists>sched. runs E (interleave n sched ts []) s tr (Done buf) t"
    using schedule_of runs_Ret by metis
next
  assume "\<exists>sched. runs E (interleave n sched ts []) s tr (Done buf) t"
  then obtain sched where "runs E (interleave n sched ts []) s tr (Done buf) t" ..
  from interleave_steps [OF this] show "\<exists>ts'. go_steps E n ts [] s tr ts' buf t \<and> list_all returned ts'"
    by auto
qed

lemma panics_iff:
  "(\<exists>sched. runs E (interleave n sched ts []) s tr Panicked t) \<longleftrightarrow>
     (\<exists>ts' buf'. go_steps E n ts [] s tr ts' buf' t \<and> Panic \<in> set ts')"
proof
  assume "\<exists>ts' buf'. go_steps E n ts [] s tr ts' buf' t \<and> Panic \<in> set ts'"
  then obtain ts' buf' sched where "go_steps E n ts [] s tr ts' buf' t" "interleave n sched ts' buf' = Panic"
    using interleave_panics by blast
  then show "\<exists>sched. runs E (interleave n sched ts []) s tr Panicked t"
    using schedule_of runs_Panic by metis
next
  assume "\<exists>sched. runs E (interleave n sched ts []) s tr Panicked t"
  then obtain sched where "runs E (interleave n sched ts []) s tr Panicked t" ..
  from interleave_steps [OF this] show "\<exists>ts' buf'. go_steps E n ts [] s tr ts' buf' t \<and> Panic \<in> set ts'"
    by auto
qed

lemma deadlock_blocks:
  assumes "go_steps E n ts [] s tr ts' buf t" "deadlocked n ts' buf"
  shows "\<exists>sched. runs E (interleave n sched ts []) s tr Blocked t"
proof -
  have "interleave n [] ts' buf = Block" using drain_deadlocked [OF assms(2)] by simp
  then show ?thesis using schedule_of [OF assms(1)] runs_Block by metis
qed

lemma blocked_waits:
  assumes "runs E (interleave n sched ts []) s tr Blocked t"
  shows "\<exists>ts' buf'. go_steps E n ts [] s tr ts' buf' t \<and> list_ex (waits n buf') ts'"
  using interleave_steps [OF assms] by simp

section \<open>Budgets\<close>

text \<open>The budget of a fork is kept by every step, and as long as it is kept nobody waits.\<close>

lemma budget_nth:
  "budget_ok n ts bs buf \<Longrightarrow> j < length ts \<Longrightarrow> bs ! j = (ne, nu) \<Longrightarrow> sends_within ne nu (ts ! j)"
  by (auto simp: budget_ok_def dest: list_all2_nthD)

lemma steps_budget:
  "go_steps E n ts buf s tr ts' buf' t \<Longrightarrow> budget_ok n ts bs buf \<Longrightarrow> \<exists>bs'. budget_ok n ts' bs' buf'"
proof (induction arbitrary: bs rule: go_steps.induct)
  case (request i ts q k s s1 r buf tr ts' buf' t)
  obtain ne nu where b: "bs ! i = (ne, nu)" by fastforce
  have "sends_within ne nu (Call q k)"
    using budget_nth [OF request.prems request.hyps(1) b] request.hyps(2) by simp
  then show ?case
    using request.IH budget_same [OF request.prems request.hyps(1) b, of "k r"] by simp
next
  case (send i ts m p buf s tr ts' buf' t)
  obtain ne nu where b: "bs ! i = (ne, nu)" by fastforce
  have "sends_within ne nu (Send m p)"
    using budget_nth [OF send.prems send.hyps(1) b] send.hyps(2) by simp
  then show ?case
    using send.IH budget_send [OF send.prems send.hyps(1) b] by blast
qed blast

lemma budget_free:
  assumes "budget_ok n ts bs buf"
  shows "\<not> list_ex (waits n buf) ts \<and> Panic \<notin> set ts"
proof -
  have "\<not> waits n buf p \<and> p \<noteq> Panic" if p: "p \<in> set ts" for p
  proof -
    obtain j where j: "j < length ts" "ts ! j = p" using p by (auto simp: in_set_conv_nth)
    obtain ne nu where b: "bs ! j = (ne, nu)" by fastforce
    have within: "sends_within ne nu p"
      using budget_nth [OF assms j(1) b] j(2) by simp
    have "length bs = length ts" using assms by (auto simp: budget_ok_def dest: list_all2_lengthD)
    then have "ne \<le> sum_list (map fst bs)" "nu \<le> sum_list (map snd bs)"
      using j(1) b by (force intro!: member_le_sum_list simp: in_set_conv_nth image_iff)+
    then have "ne + channel_count True buf \<le> n" "nu + channel_count False buf \<le> n"
      using assms by (simp_all add: budget_ok_def)
    then show ?thesis
      using within by (cases p) (auto simp: has_room_def split: if_splits)
  qed
  then show ?thesis by (auto simp: list_ex_iff)
qed

text \<open>A fork of goroutines that each send at most one error and one list.\<close>

lemma one_each_free:
  assumes "\<forall>p \<in> set ts. sends_within 1 1 p" "length ts \<le> n" "go_steps E n ts [] s tr ts' buf t"
  shows "\<not> list_ex (waits n buf) ts' \<and> Panic \<notin> set ts'"
proof -
  have "budget_ok n ts (replicate (length ts) (1, 1)) []"
    using assms(1,2) by (auto simp: budget_ok_def channel_count_def list_all2_conv_all_nth sum_list_replicate)
  from steps_budget [OF assms(3) this] show ?thesis using budget_free by blast
qed

section \<open>Properties\<close>

text \<open>
  The scheduler loses nothing and invents nothing. Under any environment, the executions of the
  goroutines in which all return, with the messages the channels then hold, and those in which one
  panics are exactly the runs of \<open>interleave\<close> under some schedule. When a run of it waits for ever
  there is an execution that comes to a goroutine that waits for ever, and every deadlock of the
  goroutines is such a run.
\<close>

theorem interleave_exact:
  "((\<exists>sched. runs E (interleave n sched ts []) s tr (Done buf) t) \<longleftrightarrow>
      (\<exists>ts'. go_steps E n ts [] s tr ts' buf t \<and> list_all returned ts')) \<and>
   ((\<exists>sched. runs E (interleave n sched ts []) s tr Panicked t) \<longleftrightarrow>
      (\<exists>ts' buf'. go_steps E n ts [] s tr ts' buf' t \<and> Panic \<in> set ts')) \<and>
   {tr. \<exists>ts' buf'. go_steps E n ts [] s tr ts' buf' t \<and> deadlocked n ts' buf'} \<subseteq>
     {tr. \<exists>sched. runs E (interleave n sched ts []) s tr Blocked t} \<and>
   {tr. \<exists>sched. runs E (interleave n sched ts []) s tr Blocked t} \<subseteq>
     {tr. \<exists>ts' buf'. go_steps E n ts [] s tr ts' buf' t \<and> list_ex (waits n buf') ts'}"
  by (intro conjI returns_iff panics_iff) (blast dest: deadlock_blocks, blast dest: blocked_waits)

text \<open>
  C18: the goroutines of the projection never wait. In no state that the goroutines of
  \<open>generateRBACToNamespace\<close> can reach by any interleaving of their steps does a send find its channel
  full, not even for a while, and none of them panics; and the same holds of the goroutines of
  \<open>PushRbacToNamespace\<close>, of which there are at most as many as validated members.
\<close>

theorem goroutines_never_wait:
  "\<not> (\<exists>tr ts' buf t. go_steps E (length saNames)
        (map (rbac_goroutine inst (projected_labels inst) fromNs toNs) saNames) [] s tr ts' buf t \<and>
        (list_ex (waits (length saNames) buf) ts' \<or> Panic \<in> set ts')) \<and>
   \<not> (\<exists>tr ts' buf t. go_steps E (length members)
        (map (push_goroutine inst saNames fromNs) (filter P members)) [] s tr ts' buf t \<and>
        (list_ex (waits (length members) buf) ts' \<or> Panic \<in> set ts'))"
proof -
  have "\<forall>p \<in> set (map (rbac_goroutine inst (projected_labels inst) fromNs toNs) saNames). sends_within 1 1 p"
    by (simp add: sends_within_rbac_goroutine del: One_nat_def)
  moreover have "\<forall>p \<in> set (map (push_goroutine inst saNames fromNs) (filter P members)). sends_within 1 1 p"
    by (simp add: sends_within_push_goroutine del: One_nat_def)
  moreover have "length (filter P members) \<le> length members" by simp
  ultimately show ?thesis
    using one_each_free [where E = E and s = s] by (metis length_map order_refl)
qed

end
