(* ===== verification/Pod_Restart.thy ===== *)
theory Pod_Restart
  imports Library_Params Sha256
begin

text \<open>
  \<open>RestartPods\<close>, \<open>needRestart\<close> and the DaemonSet permission check of
  \<open>namespacescope_controller.go\<close>: when the namespace list changes, operator pods are deleted
  and the workloads of operand pods get a new template annotation, which rolls them out.

  \<open>Patch new original\<close> stands for \<open>r.Client.Patch(ctx, new, client.MergeFrom(original))\<close>: the
  client sends the difference between the two objects as they are when the call is made.
\<close>

section \<open>The permission check\<close>

fun review_verbs :: "string \<Rightarrow> string list \<Rightarrow> (err + access_result) proc" where
  "review_verbs ns [] = Ret (Inr \<lparr>allowed = True, deniedVerb = []\<rparr>)"
| "review_verbs ns (verb # verbs) =
     go_try (call (Review \<lparr>raGroup = ''apps'', raResource = ''daemonsets'', raNamespace = ns, raVerb = verb\<rparr>)
               as_review) (\<lambda>st.
       if rsEvaluationError st \<noteq> [] then
         Ret (Inl (PlainErr (''failed to evaluate '' @ quote verb @
           '' permission for daemonsets in namespace '' @ quote ns @ '': '' @ rsEvaluationError st)))
       else if \<not> rsAllowed st then Ret (Inr \<lparr>allowed = False, deniedVerb = verb\<rparr>)
       else review_verbs ns verbs)"

definition selfSubjectCheck :: "string \<Rightarrow> (err + access_result) proc" where
  "selfSubjectCheck ns = review_verbs ns [''get'', ''patch'']"

section \<open>Which pods\<close>

definition volume_refers :: "string \<Rightarrow> volume \<Rightarrow> bool" where
  "volume_refers cmName v \<longleftrightarrow> voConfigMap v = Some cmName"

definition env_refers :: "string \<Rightarrow> env_var \<Rightarrow> bool" where
  "env_refers cmName e \<longleftrightarrow>
     (case evValueFrom e of
        None \<Rightarrow> False
      | Some src \<Rightarrow>
          (case esConfigMapKeyRef src of None \<Rightarrow> False | Some ref \<Rightarrow> ckName ref = cmName))"

definition needRestart :: "pod \<Rightarrow> string \<Rightarrow> bool" where
  "needRestart pod cmName \<longleftrightarrow>
     list_ex (volume_refers cmName) (podVolumes pod) \<or>
     list_ex (\<lambda>c. list_ex (env_refers cmName) (ctEnv c)) (podContainers pod)"

section \<open>Which workloads\<close>

text \<open>
  The three name lists the pod loop fills. \<open>*or.Controller\<close> on a reference without the
  \<open>controller\<close> field is a nil dereference: \<open>None\<close>.
\<close>

type_synonym owner_names = "string list \<times> string list \<times> string list"

definition deployment_of_replica_set :: "string \<Rightarrow> string" where
  "deployment_of_replica_set nm = join_with ''-'' (butlast (split_on CHR ''-'' nm))"

fun owners_loop :: "owner_reference list \<Rightarrow> owner_names \<Rightarrow> owner_names option" where
  "owners_loop [] acc = Some acc"
| "owners_loop (ref # refs) (ds, dss, sss) =
     (case orController ref of
        None \<Rightarrow> None
      | Some False \<Rightarrow> owners_loop refs (ds, dss, sss)
      | Some True \<Rightarrow>
          if orKind ref = ''ReplicaSet'' then
            owners_loop refs (ds @ [deployment_of_replica_set (orName ref)], dss, sss)
          else if orKind ref = ''DaemonSet'' then owners_loop refs (ds, dss @ [orName ref], sss)
          else if orKind ref = ''StatefulSet'' then owners_loop refs (ds, dss, sss @ [orName ref])
          else owners_loop refs (ds, dss, sss))"

primrec pods_loop :: "string \<Rightarrow> pod list \<Rightarrow> owner_names \<Rightarrow> (err + owner_names) proc" where
  "pods_loop cmName [] acc = Ret (Inr acc)"
| "pods_loop cmName (pod # pods) acc =
     (if \<not> needRestart pod cmName then pods_loop cmName pods acc
      else if map_of (omAnnotations (podMeta pod)) ''olm.operatorGroup'' \<noteq> None then
        go_try (call (Delete (OPod pod)) as_unit) (\<lambda>_. pods_loop cmName pods acc)
      else
        (case owners_loop (omOwnerReferences (podMeta pod)) acc of
           None \<Rightarrow> Panic
         | Some acc' \<Rightarrow> pods_loop cmName pods acc'))"

section \<open>Restarting the workloads\<close>

definition namespace_list_annotation :: string where
  "namespace_list_annotation = ''nss.ibm.com/namespaceList''"

definition annotate :: "string \<Rightarrow> workload \<Rightarrow> workload" where
  "annotate v w =
     (let t = wlTemplate w;
          anns = (case ptAnnotations t of None \<Rightarrow> [] | Some a \<Rightarrow> a)
      in w\<lparr>wlTemplate := t\<lparr>ptAnnotations := Some (map_put anns namespace_list_annotation v)\<rparr>\<rparr>)"

primrec restart_deployments :: "string \<Rightarrow> string \<Rightarrow> string list \<Rightarrow> (err + unit) proc" where
  "restart_deployments ns v [] = Ret (Inr ())"
| "restart_deployments ns v (nm # nms) =
     go_try (call (Get Cached KDeployment (ns, nm)) (as_obj the_deployment)) (\<lambda>deploy.
       go_try (call (Update (ODeployment (annotate v deploy))) as_unit) (\<lambda>_.
         restart_deployments ns v nms))"

text \<open>A forbidden DaemonSet ends the DaemonSet loop, not \<open>RestartPods\<close>.\<close>

primrec restart_daemon_sets :: "string \<Rightarrow> string \<Rightarrow> string list \<Rightarrow> (err + unit) proc" where
  "restart_daemon_sets ns v [] = Ret (Inr ())"
| "restart_daemon_sets ns v (nm # nms) =
     bind (call (Get Cached KDaemonSet (ns, nm)) (as_obj the_daemon_set)) (\<lambda>x.
       case x of
         Inl e \<Rightarrow> if is_forbidden e then Ret (Inr ()) else Ret (Inl e)
       | Inr daemonSet \<Rightarrow>
           bind (call (Patch (ODaemonSet (annotate v daemonSet)) (ODaemonSet daemonSet)) as_unit) (\<lambda>y.
             case y of
               Inl e \<Rightarrow> if is_forbidden e then Ret (Inr ()) else Ret (Inl e)
             | Inr _ \<Rightarrow> restart_daemon_sets ns v nms))"

text \<open>
  \<open>originalStatefulSet := statefulSet\<close> copies the pointer: by the time of the call the original
  has been annotated too.
\<close>

primrec restart_stateful_sets :: "string \<Rightarrow> string \<Rightarrow> string list \<Rightarrow> (err + unit) proc" where
  "restart_stateful_sets ns v [] = Ret (Inr ())"
| "restart_stateful_sets ns v (nm # nms) =
     go_try (call (Get Cached KStatefulSet (ns, nm)) (as_obj the_stateful_set)) (\<lambda>statefulSet.
       let statefulSet' = annotate v statefulSet; originalStatefulSet = statefulSet'
       in go_try (call (Patch (OStatefulSet statefulSet') (OStatefulSet originalStatefulSet)) as_unit)
            (\<lambda>_. restart_stateful_sets ns v nms))"

text \<open>Whether DaemonSets are to be managed: the review's verdict, or its error.\<close>

definition manage_daemon_sets :: "reconciler \<Rightarrow> string \<Rightarrow> string list \<Rightarrow> (err + bool) proc" where
  "manage_daemon_sets rc ns daemonSetNameList =
     (if \<not> 0 < length daemonSetNameList then Ret (Inr False)
      else
        let checker = (case daemonSetPermissionChecker rc of
                         None \<Rightarrow> selfSubjectCheck | Some c \<Rightarrow> c)
        in bind (checker ns) (\<lambda>x.
             case x of
               Inl e \<Rightarrow>
                 if is_forbidden e \<or> is_unauthorized e then Ret (Inr False)
                 else Ret (Inl (WrapErr
                        (''error reviewing daemonset permissions in namespace '' @ quote ns) e))
             | Inr access \<Rightarrow> Ret (Inr (allowed access))))"

definition RestartPods :: "reconciler \<Rightarrow> labels \<Rightarrow> config_map \<Rightarrow> string \<Rightarrow> (err + unit) proc" where
  "RestartPods rc lbls cm ns =
     go_try (call (ListOf Cached KPod ns lbls) (as_list the_pod)) (\<lambda>pods.
     go_try (pods_loop (omName (cmMeta cm)) pods ([], [], [])) (\<lambda>(deploymentNames, daemonSetNames, statefulSetNames).
     let data = (case cmData cm of None \<Rightarrow> [] | Some d \<Rightarrow> d);
         annotationValue = hash7 (map_get data ''namespaces'')
     in bind (ToStringSlice (MakeSet deploymentNames)) (\<lambda>deploymentNameList.
     go_try (restart_deployments ns annotationValue deploymentNameList) (\<lambda>_.
     bind (ToStringSlice (MakeSet daemonSetNames)) (\<lambda>daemonSetNameList.
     go_try (manage_daemon_sets rc ns daemonSetNameList) (\<lambda>manage.
     go_try (if manage then restart_daemon_sets ns annotationValue daemonSetNameList
             else Ret (Inr ())) (\<lambda>_.
     bind (ToStringSlice (MakeSet statefulSetNames)) (\<lambda>statefulSetNameList.
     restart_stateful_sets ns annotationValue statefulSetNameList))))))))"

end
