(* ===== verification/ConfigMap_Sync.thy ===== *)
theory ConfigMap_Sync
  imports Namespace_Status Pod_Restart
begin

text \<open>
  \<open>UpdateConfigMap\<close> of \<open>namespacescope_controller.go\<close>: the ConfigMap whose \<open>namespaces\<close> value
  the operators watch is created or brought up to date with the members of all the instances
  that share it, and the pods that read it are restarted when the list has changed.
\<close>

definition namespaces_key :: string where
  "namespaces_key = ''namespaces''"

definition cm_namespaces :: "config_map \<Rightarrow> string" where
  "cm_namespaces cm = (case cmData cm of None \<Rightarrow> [] | Some d \<Rightarrow> map_get d namespaces_key)"

definition get_config_map :: "key \<Rightarrow> (err + config_map) proc" where
  "get_config_map k = call (Get Cached KConfigMap k) (as_obj the_config_map)"

definition new_config_map :: "nss \<Rightarrow> string list \<Rightarrow> config_map" where
  "new_config_map inst members =
     \<lparr>cmMeta = new_meta (configmapName (spec inst)) (nss_namespace inst) [(NamespaceScopeLabel, ''true'')],
      cmData = Some [(namespaces_key, join_with '','' members)]\<rparr>"

definition create_config_map :: "pkg \<Rightarrow> reconciler \<Rightarrow> nss \<Rightarrow> string list \<Rightarrow> (err + unit) proc" where
  "create_config_map p rc inst members =
     (case pkgSetOwnerReference p inst (new_config_map inst members) of
        Inl e \<Rightarrow> Ret (Inl e)
      | Inr cm \<Rightarrow>
          go_try (call (Create (OConfigMap cm)) (as_obj the_config_map)) (\<lambda>cm'.
            RestartPods rc (restartLabels (spec inst)) cm' (nss_namespace inst)))"

text \<open>Writing the value into the data of a ConfigMap whose map is nil panics.\<close>

definition sync_config_map :: "pkg \<Rightarrow> reconciler \<Rightarrow> nss \<Rightarrow> string list \<Rightarrow> config_map \<Rightarrow> (err + unit) proc" where
  "sync_config_map p rc inst members cm =
     (let ownerRefUIDs = GetOwnerReferenceUIDs (omOwnerReferences (cmMeta cm));
          current = split_on CHR '','' (cm_namespaces cm);
          (differs, members1, _) = CheckListDifference members current
      in if differs \<or> \<not> UIDContains ownerRefUIDs (omUID (nssMeta inst)) then
           let (restartpod, members2, _) = CheckListDifference members1 current
           in if restartpod \<and> cmData cm = None then Panic
              else
                let cm1 = (if restartpod
                           then cm\<lparr>cmData := map_option (\<lambda>d. map_put d namespaces_key (join_with '','' members2)) (cmData cm)\<rparr>
                           else cm)
                in case pkgSetOwnerReference p inst cm1 of
                     Inl e \<Rightarrow> Ret (Inl e)
                   | Inr cm2 \<Rightarrow>
                       go_try (call (Update (OConfigMap cm2)) (as_obj the_config_map)) (\<lambda>cm3.
                         if restartpod
                         then RestartPods rc (restartLabels (spec inst)) cm3 (nss_namespace inst)
                         else Ret (Inr ()))
         else Ret (Inr ()))"

definition UpdateConfigMap :: "pkg \<Rightarrow> reconciler \<Rightarrow> nss \<Rightarrow> (err + unit) proc" where
  "UpdateConfigMap p rc inst =
     go_try (getAllValidatedNamespaceMembers inst) (\<lambda>members.
       bind (get_config_map (nss_namespace inst, configmapName (spec inst))) (\<lambda>x.
         case x of
           Inl e \<Rightarrow> if is_not_found e then create_config_map p rc inst members else Ret (Inl e)
         | Inr cm \<Rightarrow> sync_config_map p rc inst members cm))"

end
