(* ===== verification/Rbac_Cleanup.thy ===== *)
theory Rbac_Cleanup
  imports Rbac_Projection ConfigMap_Sync
begin

text \<open>
  The removal of projected RBAC: \<open>DeleteRoleBinding\<close>, \<open>DeleteRole\<close>,
  \<open>DeleteRbacFromUnmanagedNamespace\<close> for namespaces that left the scope, and \<open>DeleteAllRbac\<close>
  for an instance that is being deleted. The two callers repeat the same loop over namespaces,
  which is \<open>cleanup_loop\<close> here.
\<close>

definition DeleteRoleBinding :: "labels \<Rightarrow> string \<Rightarrow> (err + unit) proc" where
  "DeleteRoleBinding lbls toNs = call (DeleteAllOf KRoleBinding toNs lbls) as_unit"

definition DeleteRole :: "labels \<Rightarrow> string \<Rightarrow> (err + unit) proc" where
  "DeleteRole lbls toNs = call (DeleteAllOf KRole toNs lbls) as_unit"

primrec cleanup_loop :: "nss \<Rightarrow> labels \<Rightarrow> string \<Rightarrow> string list \<Rightarrow> (err + unit) proc" where
  "cleanup_loop inst lbls operatorNs [] = Ret (Inr ())"
| "cleanup_loop inst lbls operatorNs (toNs # rest) =
     (if toNs = operatorNs then cleanup_loop inst lbls operatorNs rest
      else bind (DeleteRoleBinding lbls toNs) (\<lambda>x.
        case x of
          Inl e \<Rightarrow>
            if is_forbidden e then
              bind (warn_forbidden inst ''delete'' ''rolebindings'' toNs) (\<lambda>_.
                cleanup_loop inst lbls operatorNs rest)
            else Ret (Inl e)
        | Inr _ \<Rightarrow>
            bind (DeleteRole lbls toNs) (\<lambda>y.
              case y of
                Inl e \<Rightarrow>
                  if is_forbidden e then
                    bind (warn_forbidden inst ''delete'' ''roles'' toNs) (\<lambda>_.
                      cleanup_loop inst lbls operatorNs rest)
                  else Ret (Inl e)
              | Inr _ \<Rightarrow> cleanup_loop inst lbls operatorNs rest)))"

definition cleanup_labels :: "nss \<Rightarrow> labels" where
  "cleanup_labels inst = [(''namespace-scope-configmap'', configmap_label_value inst)]"

definition DeleteRbacFromUnmanagedNamespace :: "nss \<Rightarrow> (err + unit) proc" where
  "DeleteRbacFromUnmanagedNamespace inst =
     bind (get_config_map (nss_namespace inst, configmapName (spec inst))) (\<lambda>x.
       case x of
         Inl e \<Rightarrow> if is_not_found e then Ret (Inr ()) else Ret (Inl e)
       | Inr cm \<Rightarrow>
           let nsInCm = (if cm_namespaces cm \<noteq> [] then split_on CHR '','' (cm_namespaces cm) else []) in
           go_try (getAllValidatedNamespaceMembers inst) (\<lambda>nsInCr.
           bind (GetListDifference nsInCm nsInCr) (\<lambda>unmanagedNss.
           go_try GetOperatorNamespace (\<lambda>operatorNs.
             cleanup_loop inst (cleanup_labels inst) operatorNs unmanagedNss))))"

definition DeleteAllRbac :: "nss \<Rightarrow> (err + unit) proc" where
  "DeleteAllRbac inst =
     go_try GetOperatorNamespace (\<lambda>operatorNs.
     go_try (getAllValidatedNamespaceMembers inst) (\<lambda>usingMembers.
     bind (GetListDifference (namespaceMembers (spec inst)) usingMembers) (\<lambda>deletedMembers.
       cleanup_loop inst (cleanup_labels inst) operatorNs deletedMembers)))"

end
