(* ===== verification/Cleanup_Properties.thy ===== *)
theory Cleanup_Properties
  imports Rbac_Properties Rbac_Cleanup
begin

text \<open>
  What the removal of projected RBAC guarantees: \<open>DeleteAllOf\<close> is only ever asked for in
  namespaces that no live instance with the same ConfigMap has as a validated member, never in
  the operator's own namespace, and with the label selector of the instance; and when the
  removal reports success, every such namespace was dealt with.
\<close>

section \<open>The members in use\<close>

definition members_of :: "nss \<Rightarrow> nss list \<Rightarrow> string set" where
  "members_of inst items =
     (\<Union>cr \<in> {cr \<in> set items. shares_config_map inst cr}. set (validatedMembers (nssStatus cr)))"

text \<open>\<open>xs\<close> lists the validated members of the instances read that share the ConfigMap.\<close>

definition members_read :: "nss \<Rightarrow> history \<Rightarrow> string list \<Rightarrow> bool" where
  "members_read inst H xs \<longleftrightarrow>
     (\<exists>r items. (ListOf Cached KNss (nss_namespace inst) [], r) \<in> H \<and> as_list the_nss r = Inr items \<and>
        set xs = members_of inst items \<and> distinct xs)"

lemma members_read_mono: "members_read inst H xs \<Longrightarrow> H \<subseteq> H' \<Longrightarrow> members_read inst H' xs"
  unfolding members_read_def by blast

lemma set_members_loop: "set (members_loop inst items []) = members_of inst items"
  by (auto simp: members_loop_eq members_of_def)

lemma hwp_getAllValidatedNamespaceMembers:
  assumes "P H (ListOf Cached KNss (nss_namespace inst) [])" "\<And>H xs. P H (IterSet xs)"
    and "\<And>H' r e. H \<subseteq> H' \<Longrightarrow> (ListOf Cached KNss (nss_namespace inst) [], r) \<in> H' \<Longrightarrow>
           as_list the_nss r = Inl e \<Longrightarrow> Q H' (Done (Inl e))"
    and "\<And>H' xs. H \<subseteq> H' \<Longrightarrow> members_read inst H' xs \<Longrightarrow> Q H' (Done (Inr xs))"
  shows "hwp P S Q (getAllValidatedNamespaceMembers inst) H"
proof -
  let ?q = "ListOf Cached KNss (nss_namespace inst) []"
  let ?set = "\<lambda>items. MakeSet (members_loop inst items [])"
  have "hwp P S Q (case as_list the_nss r of Inl e \<Rightarrow> Ret (Inl e)
      | Inr items \<Rightarrow> bind (ToStringSlice (?set items)) (\<lambda>xs. Ret (Inr xs))) (insert (?q, r) H)" for r
  proof (cases "as_list the_nss r")
    case (Inl e)
    then show ?thesis using assms(3) [of "insert (?q, r) H" r e] by auto
  next
    case (Inr items)
    have "members_read inst (insert (IterSet (?set items), r') (insert (?q, r) H)) (as_order (?set items) r')" for r'
      unfolding members_read_def using Inr
      by (intro exI [of _ r] exI [of _ items]) (simp add: set_members_loop)
    then show ?thesis
      using assms(2) by (auto simp: Inr ToStringSlice_def bind_call intro!: assms(4))
  qed
  then show ?thesis
    using assms(1) by (simp add: getAllValidatedNamespaceMembers_def go_try_def bind_call)
qed

section \<open>The loop over namespaces\<close>

definition outside_operator :: "history \<Rightarrow> string \<Rightarrow> bool" where
  "outside_operator H toNs \<longleftrightarrow> (\<exists>ops. operator_namespace_read H ops \<and> toNs \<noteq> ops)"

definition unused :: "nss \<Rightarrow> history \<Rightarrow> string \<Rightarrow> bool" where
  "unused inst H toNs \<longleftrightarrow> (\<exists>xs. members_read inst H xs \<and> toNs \<notin> set xs)"

text \<open>\<open>C\<close> says which namespaces are candidates for the removal.\<close>

definition cleanup_request :: "nss \<Rightarrow> (history \<Rightarrow> string \<Rightarrow> bool) \<Rightarrow> history \<Rightarrow> request \<Rightarrow> bool" where
  "cleanup_request inst C H q \<longleftrightarrow>
     (is_write q \<longrightarrow>
        (\<exists>k toNs. q = DeleteAllOf k toNs (cleanup_labels inst) \<and> (k = KRoleBinding \<or> k = KRole) \<and>
           C H toNs \<and> outside_operator H toNs \<and> unused inst H toNs))"

definition ok_or_forbidden :: "response \<Rightarrow> bool" where
  "ok_or_forbidden r \<longleftrightarrow> (case as_unit r of Inl e \<Rightarrow> is_forbidden e | Inr _ \<Rightarrow> True)"

text \<open>
  What became of a namespace of the loop: its bindings and its Roles were removed, or the API server
  forbade the removal of the bindings, or that of the Roles after the bindings were removed. The
  code goes on in both cases: what the server forbids to remove is left behind.
\<close>

abbreviation removed_in :: "nss \<Rightarrow> history \<Rightarrow> string \<Rightarrow> kind \<Rightarrow> bool" where
  "removed_in inst H toNs k \<equiv> \<exists>r. (DeleteAllOf k toNs (cleanup_labels inst), r) \<in> H \<and> as_unit r = Inr ()"

abbreviation forbidden_in :: "nss \<Rightarrow> history \<Rightarrow> string \<Rightarrow> kind \<Rightarrow> bool" where
  "forbidden_in inst H toNs k \<equiv>
     \<exists>r e. (DeleteAllOf k toNs (cleanup_labels inst), r) \<in> H \<and> as_unit r = Inl e \<and> is_forbidden e"

definition rbac_removed :: "nss \<Rightarrow> history \<Rightarrow> string \<Rightarrow> bool" where
  "rbac_removed inst H toNs \<longleftrightarrow> removed_in inst H toNs KRoleBinding \<and> removed_in inst H toNs KRole"

definition removal_forbidden :: "nss \<Rightarrow> history \<Rightarrow> string \<Rightarrow> bool" where
  "removal_forbidden inst H toNs \<longleftrightarrow>
     forbidden_in inst H toNs KRoleBinding \<or> removed_in inst H toNs KRoleBinding \<and> forbidden_in inst H toNs KRole"

definition removed_or_forbidden :: "nss \<Rightarrow> history \<Rightarrow> string \<Rightarrow> bool" where
  "removed_or_forbidden inst H toNs \<longleftrightarrow> rbac_removed inst H toNs \<or> removal_forbidden inst H toNs"

lemmas removal_defs = removed_or_forbidden_def rbac_removed_def removal_forbidden_def

lemma removed_or_forbidden_mono: "removed_or_forbidden inst H t \<Longrightarrow> H \<subseteq> H' \<Longrightarrow> removed_or_forbidden inst H' t"
  unfolding removal_defs by blast

lemma outside_operator_mono: "outside_operator H t \<Longrightarrow> H \<subseteq> H' \<Longrightarrow> outside_operator H' t"
  unfolding outside_operator_def by blast

lemma unused_mono: "unused inst H t \<Longrightarrow> H \<subseteq> H' \<Longrightarrow> unused inst H' t"
  unfolding unused_def using members_read_mono by blast

lemma cleanup_read [simp]: "\<not> is_write q \<Longrightarrow> cleanup_request inst C H q"
  by (simp add: cleanup_request_def)

text \<open>One namespace of the loop, which goes on with \<open>k\<close> once the namespace is dealt with.\<close>

lemma hwp_clean_namespace:
  assumes ask: "\<And>H'. H \<subseteq> H' \<Longrightarrow> P H' (DeleteAllOf KRoleBinding t (cleanup_labels inst))"
      "\<And>H'. H \<subseteq> H' \<Longrightarrow> P H' (DeleteAllOf KRole t (cleanup_labels inst))" "\<And>H' q. \<not> is_write q \<Longrightarrow> P H' q"
    and fail: "\<And>H' e. H \<subseteq> H' \<Longrightarrow> Q H' (Done (Inl e))"
    and rest: "\<And>H'. H \<subseteq> H' \<Longrightarrow> removed_or_forbidden inst H' t \<Longrightarrow> hwp P S Q k H'"
  shows "hwp P S Q (bind (DeleteRoleBinding (cleanup_labels inst) t) (\<lambda>x. case x of
      Inl e \<Rightarrow> if is_forbidden e then bind (warn_forbidden inst ''delete'' ''rolebindings'' t) (\<lambda>_. k) else Ret (Inl e)
    | Inr _ \<Rightarrow> bind (DeleteRole (cleanup_labels inst) t) (\<lambda>y. case y of
        Inl e \<Rightarrow> if is_forbidden e then bind (warn_forbidden inst ''delete'' ''roles'' t) (\<lambda>_. k) else Ret (Inl e)
      | Inr _ \<Rightarrow> k))) H"
proof -
  let ?b = "DeleteAllOf KRoleBinding t (cleanup_labels inst)" and ?r = "DeleteAllOf KRole t (cleanup_labels inst)"
  have warned: "hwp P S Q (bind (warn_forbidden inst verb res t) (\<lambda>_. k)) H'"
    if "H \<subseteq> H'" "removed_or_forbidden inst H' t" for verb res H'
    using that ask(3) removed_or_forbidden_mono [OF that(2) subset_insertI]
    by (auto simp: warn_forbidden_def bind_call intro!: rest)
  have roles: "hwp P S Q (bind (call ?r as_unit) (\<lambda>y. case y of
        Inl e \<Rightarrow> if is_forbidden e then bind (warn_forbidden inst ''delete'' ''roles'' t) (\<lambda>_. k) else Ret (Inl e)
      | Inr _ \<Rightarrow> k)) H'"
    if H': "H \<subseteq> H'" "(?b, r) \<in> H'" "as_unit r = Inr ()" for r H'
  proof -
    have over: "removed_or_forbidden inst (insert (?r, r') H') t" if "ok_or_forbidden r'" for r'
      unfolding removal_defs using H'(2,3) that by (cases \<open>as_unit r'\<close>) (auto simp: ok_or_forbidden_def)
    show ?thesis
      by (rule hwp_call_cases)
         (use H'(1) over in \<open>auto simp: ok_or_forbidden_def intro!: ask(2) warned rest fail\<close>)
  qed
  have forbidden: "removed_or_forbidden inst (insert (?b, r) H') t" if "as_unit r = Inl e" "is_forbidden e" for r e H'
    unfolding removal_defs using that by blast
  show ?thesis
    unfolding DeleteRoleBinding_def DeleteRole_def
    by (rule hwp_call_cases) (auto intro!: ask(1) warned roles fail forbidden)
qed

lemma hwp_cleanup_loop:
  assumes "hist_mono C" "\<forall>t \<in> set ts. t = ops \<or> C H t \<and> outside_operator H t \<and> unused inst H t"
    and "\<And>H' e. H \<subseteq> H' \<Longrightarrow> Q H' (Done (Inl e))"
    and "\<And>H'. H \<subseteq> H' \<Longrightarrow> \<forall>t \<in> set ts. t = ops \<or> removed_or_forbidden inst H' t \<Longrightarrow> Q H' (Done (Inr ()))"
  shows "hwp (cleanup_request inst C) S Q (cleanup_loop inst (cleanup_labels inst) ops ts) H"
  using assms(2-4)
proof (induction ts arbitrary: H Q)
  case (Cons t ts)
  have rest: "hwp (cleanup_request inst C) S Q (cleanup_loop inst (cleanup_labels inst) ops ts) H'"
    if "H \<subseteq> H'" "t = ops \<or> removed_or_forbidden inst H' t" for H'
  proof (rule Cons.IH)
    show "\<forall>t \<in> set ts. t = ops \<or> C H' t \<and> outside_operator H' t \<and> unused inst H' t"
      using Cons.prems(1) hist_monoD [OF assms(1) _ that(1)] outside_operator_mono [OF _ that(1)]
        unused_mono [OF _ that(1)] by auto
    show "Q H2 (Done (Inl e))" if "H' \<subseteq> H2" for H2 e
      using \<open>H \<subseteq> H'\<close> that by (intro Cons.prems(2)) auto
    show "Q H2 (Done (Inr ()))" if "H' \<subseteq> H2" "\<forall>t \<in> set ts. t = ops \<or> removed_or_forbidden inst H2 t" for H2
      using \<open>H \<subseteq> H'\<close> \<open>t = ops \<or> removed_or_forbidden inst H' t\<close> that removed_or_forbidden_mono [of inst H' t H2]
      by (intro Cons.prems(3)) auto
  qed
  show ?case
  proof (cases "t = ops")
    case True
    then show ?thesis using rest [of H] by simp
  next
    case False
    have ask: "cleanup_request inst C H' (DeleteAllOf k t (cleanup_labels inst))"
      if "H \<subseteq> H'" "k = KRoleBinding \<or> k = KRole" for k H'
      using that(2) Cons.prems(1) False hist_monoD [OF assms(1) _ that(1)] outside_operator_mono [OF _ that(1)]
        unused_mono [OF _ that(1)] by (auto simp: cleanup_request_def)
    show ?thesis
      unfolding cleanup_loop.simps if_not_P [OF False]
      by (rule hwp_clean_namespace) (auto intro!: ask rest Cons.prems(2))
  qed
qed simp

section \<open>The two removals\<close>

lemma hwp_GetListDifference:
  assumes "\<And>H xs. P H (IterSet xs)"
    and "\<And>H' ys. H \<subseteq> H' \<Longrightarrow> set ys = set a - set b \<Longrightarrow> Q H' (Done ys)"
  shows "hwp P S Q (GetListDifference a b) H"
  unfolding GetListDifference_def Let_def hwp_call by (auto simp: assms(1) intro!: assms(2))

definition cleanup_done :: "nss \<Rightarrow> history \<Rightarrow> string list \<Rightarrow> bool" where
  "cleanup_done inst H candidates \<longleftrightarrow>
     (\<exists>ops xs. operator_namespace_read H ops \<and> members_read inst H xs \<and>
        (\<forall>t \<in> set candidates - set xs. t = ops \<or> removed_or_forbidden inst H t))"

definition member_candidate :: "nss \<Rightarrow> history \<Rightarrow> string \<Rightarrow> bool" where
  "member_candidate inst H t \<longleftrightarrow> t \<in> set (namespaceMembers (spec inst))"

text \<open>The list in the ConfigMap that was read.\<close>

definition cm_members :: "config_map \<Rightarrow> string list" where
  "cm_members cm = (if cm_namespaces cm \<noteq> [] then split_on CHR '','' (cm_namespaces cm) else [])"

definition config_map_read :: "nss \<Rightarrow> history \<Rightarrow> config_map \<Rightarrow> bool" where
  "config_map_read inst H cm \<longleftrightarrow>
     (Get Cached KConfigMap (nss_namespace inst, configmapName (spec inst)), RObj (OConfigMap cm)) \<in> H"

definition listed_candidate :: "nss \<Rightarrow> history \<Rightarrow> string \<Rightarrow> bool" where
  "listed_candidate inst H t \<longleftrightarrow> (\<exists>cm. config_map_read inst H cm \<and> t \<in> set (cm_members cm))"

lemma candidates_mono: "hist_mono (member_candidate inst)" "hist_mono (listed_candidate inst)"
  unfolding hist_mono_def member_candidate_def listed_candidate_def config_map_read_def by blast+

text \<open>The loop, from what was read before it.\<close>

lemma hwp_cleanup_difference:
  assumes "hist_mono C" "\<forall>t \<in> set candidates. C H t" "members_read inst H xs"
    "operator_namespace_read H ops" "set ts = set candidates - set xs"
    and "\<And>H' e. H \<subseteq> H' \<Longrightarrow> Q H' (Done (Inl e))"
    and "\<And>H'. H \<subseteq> H' \<Longrightarrow> cleanup_done inst H' candidates \<Longrightarrow> Q H' (Done (Inr ()))"
  shows "hwp (cleanup_request inst C) S Q (cleanup_loop inst (cleanup_labels inst) ops ts) H"
proof (rule hwp_cleanup_loop [OF assms(1)])
  show "\<forall>t \<in> set ts. t = ops \<or> C H t \<and> outside_operator H t \<and> unused inst H t"
    using assms(2-5) by (auto simp: outside_operator_def unused_def)
  show "Q H' (Done (Inr ()))" if "H \<subseteq> H'" "\<forall>t \<in> set ts. t = ops \<or> removed_or_forbidden inst H' t" for H'
  proof (rule assms(7) [OF that(1)])
    show "cleanup_done inst H' candidates"
      unfolding cleanup_done_def
      using assms(3-5) that members_read_mono operator_namespace_read_mono by blast
  qed
qed (rule assms(6))

definition delete_all_result :: "nss \<Rightarrow> history \<Rightarrow> (err + unit) outcome \<Rightarrow> bool" where
  "delete_all_result inst H oc \<longleftrightarrow>
     finishes oc \<and> (oc = Done (Inr ()) \<longrightarrow> cleanup_done inst H (namespaceMembers (spec inst)))"

lemma hwp_DeleteAllRbac:
  "hwp (cleanup_request inst (member_candidate inst)) S (delete_all_result inst) (DeleteAllRbac inst) H"
proof -
  let ?hwp = "hwp (cleanup_request inst (member_candidate inst)) S (delete_all_result inst)"
  let ?ms = "namespaceMembers (spec inst)"
  have loop: "?hwp (bind (GetListDifference ?ms xs) (cleanup_loop inst (cleanup_labels inst) ops)) H2"
    if "members_read inst H2 xs" "operator_namespace_read H2 ops" for xs ops H2
    unfolding hwp_bind
  proof (rule hwp_GetListDifference)
    show "and_then (delete_all_result inst H3) (\<lambda>ts. ?hwp (cleanup_loop inst (cleanup_labels inst) ops ts) H3) (Done ts)"
      if "H2 \<subseteq> H3" "set ts = set ?ms - set xs" for H3 ts
      unfolding and_then_simps
      using members_read_mono [OF \<open>members_read inst H2 xs\<close> that(1)]
        operator_namespace_read_mono [OF \<open>operator_namespace_read H2 ops\<close> that(1)] that(2)
      by (intro hwp_cleanup_difference [where candidates = ?ms and xs = xs])
         (auto simp: candidates_mono member_candidate_def delete_all_result_def)
  qed simp
  have members: "?hwp (go_try (getAllValidatedNamespaceMembers inst) (\<lambda>xs.
      bind (GetListDifference ?ms xs) (cleanup_loop inst (cleanup_labels inst) ops))) H2"
    if "operator_namespace_read H2 ops" for ops H2
    unfolding hwp_go_try
    by (rule hwp_getAllValidatedNamespaceMembers)
       (use that in \<open>auto simp: delete_all_result_def intro!: loop dest: operator_namespace_read_mono\<close>)
  show ?thesis
    unfolding DeleteAllRbac_def hwp_go_try [of _ _ _ GetOperatorNamespace]
    by (rule hwp_GetOperatorNamespace) (auto simp: delete_all_result_def intro!: members)
qed

definition delete_unmanaged_result :: "nss \<Rightarrow> history \<Rightarrow> (err + unit) outcome \<Rightarrow> bool" where
  "delete_unmanaged_result inst H oc \<longleftrightarrow>
     finishes oc \<and>
     (oc = Done (Inr ()) \<longrightarrow>
        (\<exists>e. (Get Cached KConfigMap (nss_namespace inst, configmapName (spec inst)), RErr e) \<in> H \<and> is_not_found e) \<or>
        (\<exists>cm. config_map_read inst H cm \<and> cleanup_done inst H (cm_members cm)))"

lemma config_map_read_mono: "config_map_read inst H cm \<Longrightarrow> H \<subseteq> H' \<Longrightarrow> config_map_read inst H' cm"
  unfolding config_map_read_def by blast

lemma hwp_remove_unmanaged:
  assumes "config_map_read inst H cm"
  shows "hwp (cleanup_request inst (listed_candidate inst)) S (delete_unmanaged_result inst)
     (go_try (getAllValidatedNamespaceMembers inst) (\<lambda>xs. bind (GetListDifference (cm_members cm) xs) (\<lambda>ts.
        go_try GetOperatorNamespace (\<lambda>ops. cleanup_loop inst (cleanup_labels inst) ops ts)))) H"
proof -
  let ?hwp = "hwp (cleanup_request inst (listed_candidate inst)) S (delete_unmanaged_result inst)"
  let ?loop = "\<lambda>ts. go_try GetOperatorNamespace (\<lambda>ops. cleanup_loop inst (cleanup_labels inst) ops ts)"
  note cm = config_map_read_mono [OF assms]
  have fail: "delete_unmanaged_result inst H' (Done (Inl e))" for H' e
    by (simp add: delete_unmanaged_result_def)
  have loop: "?hwp (?loop ts) H2"
    if "H \<subseteq> H2" "members_read inst H2 xs" "set ts = set (cm_members cm) - set xs" for xs ts H2
    unfolding hwp_go_try
  proof (rule hwp_GetOperatorNamespace)
    fix H3 ops
    assume H3: "H2 \<subseteq> H3" "operator_namespace_read H3 ops"
    then have "config_map_read inst H3 cm" using that(1) by (intro cm) blast
    with H3 show "and_then (delete_unmanaged_result inst H3)
        (\<lambda>x. case x of Inl e \<Rightarrow> delete_unmanaged_result inst H3 (Done (Inl e))
           | Inr ops \<Rightarrow> ?hwp (cleanup_loop inst (cleanup_labels inst) ops ts) H3) (Done (Inr ops))"
      unfolding and_then_simps sum.case
      using members_read_mono [OF that(2)] that(3) config_map_read_mono
      by (intro hwp_cleanup_difference [where candidates = "cm_members cm" and xs = xs])
         (auto simp: candidates_mono listed_candidate_def delete_unmanaged_result_def intro: exI [of _ cm])
  qed (auto simp: fail)
  show ?thesis
    unfolding hwp_go_try [of _ _ _ "getAllValidatedNamespaceMembers inst"]
  proof (rule hwp_getAllValidatedNamespaceMembers)
    fix H3 xs
    assume H3: "H \<subseteq> H3" and xs: "members_read inst H3 xs"
    have "?hwp (bind (GetListDifference (cm_members cm) xs) ?loop) H3"
      unfolding hwp_bind
      by (rule hwp_GetListDifference) (use H3 in \<open>auto intro!: loop [where xs = xs] intro: members_read_mono [OF xs]\<close>)
    then show "and_then (delete_unmanaged_result inst H3)
        (\<lambda>x. case x of Inl e \<Rightarrow> delete_unmanaged_result inst H3 (Done (Inl e))
           | Inr xs \<Rightarrow> ?hwp (bind (GetListDifference (cm_members cm) xs) ?loop) H3) (Done (Inr xs))"
      by simp
  qed (auto simp: fail)
qed

lemma hwp_DeleteRbacFromUnmanagedNamespace:
  "hwp (cleanup_request inst (listed_candidate inst)) S (delete_unmanaged_result inst)
     (DeleteRbacFromUnmanagedNamespace inst) H"
  unfolding DeleteRbacFromUnmanagedNamespace_def get_config_map_def Let_def cm_members_def [symmetric]
proof (rule hwp_call_cases, goal_cases)
  case (2 r e)
  then show ?case using as_obj_not_found [OF 2] by (auto simp: delete_unmanaged_result_def)
next
  case (3 r cm)
  then show ?case
    by (intro hwp_remove_unmanaged) (auto simp: config_map_read_def elim: as_obj_InrE)
qed simp


section \<open>Properties\<close>

text \<open>
  C9: the removal for a deleted instance is confined and complete. \<open>DeleteAllRbac\<close> writes only
  \<open>DeleteAllOf\<close> requests for RoleBindings and Roles with the instance's label selector, each in a
  namespace that is a member of the instance, is not the operator's, and is not a validated
  member of any live instance with the same ConfigMap among those that were listed. It always
  ends, and when it reports success the RBAC of each such namespace was removed (or the API server forbade it).
\<close>

theorem DeleteAllRbac_confined:
  "ensures (DeleteAllRbac inst) (cleanup_request inst (member_candidate inst)) (delete_all_result inst)"
  by (rule ensuresI) (rule hwp_DeleteAllRbac)

text \<open>
  C10: the removal for namespaces that left the scope is confined and complete in the same way:
  the candidates are the namespaces listed in the ConfigMap, as it was before the update, and
  the ones that are validated members of a live instance with that ConfigMap are left alone.
  Success means that the RBAC of each of the others was removed (or the API server forbade it), or that the ConfigMap does not exist.
\<close>

theorem DeleteRbacFromUnmanagedNamespace_confined:
  "ensures (DeleteRbacFromUnmanagedNamespace inst) (cleanup_request inst (listed_candidate inst))
     (delete_unmanaged_result inst)"
  by (rule ensuresI) (rule hwp_DeleteRbacFromUnmanagedNamespace)

text \<open>
  What is left behind: when the API server forbids the removal of the bindings of a namespace, the
  loop leaves an event, does not even try to remove the Roles there, and reports success.
\<close>

lemma forbidden_left_behind:
  "toNs \<noteq> ops \<Longrightarrow> possible (cleanup_loop inst lbls ops [toNs])
     [(DeleteAllOf KRoleBinding toNs lbls, RErr (StatusErr Forbidden m)),
      (Event (nss_key inst) ''Forbidden'' (forbidden_message ''delete'' ''rolebindings'' toNs), ROk)] (Done (Inr ()))"
  unfolding possible_def by (simp add: DeleteRoleBinding_def warn_forbidden_def proc_simps response_simps)

end
