(* ===== verification/Restart_Properties.thy ===== *)
theory Restart_Properties
  imports Rbac_Properties Pod_Restart
begin

text \<open>
  What \<open>RestartPods\<close> may touch: pods it deletes, workloads it annotates, and on what grounds; that
  DaemonSets are patched only after the permission check allowed it; and that the patch of a
  StatefulSet is always empty.
\<close>

section \<open>Grounds\<close>

text \<open>A pod of the list that reads the ConfigMap.\<close>

definition listed_pod :: "history \<Rightarrow> string \<Rightarrow> labels \<Rightarrow> string \<Rightarrow> pod \<Rightarrow> bool" where
  "listed_pod H ns lbls cmName pod \<longleftrightarrow>
     (\<exists>obs. (ListOf Cached KPod ns lbls, RList obs) \<in> H \<and> OPod pod \<in> set obs) \<and> needRestart pod cmName"

text \<open>A controller of the given kind owns such a pod; the workload has the name of its reference.\<close>

definition workload_of_ref :: "owner_reference \<Rightarrow> (kind \<times> string) option" where
  "workload_of_ref ref =
     (if orController ref \<noteq> Some True then None
      else if orKind ref = ''ReplicaSet'' then Some (KDeployment, deployment_of_replica_set (orName ref))
      else if orKind ref = ''DaemonSet'' then Some (KDaemonSet, orName ref)
      else if orKind ref = ''StatefulSet'' then Some (KStatefulSet, orName ref)
      else None)"

definition owns_pod :: "history \<Rightarrow> string \<Rightarrow> labels \<Rightarrow> string \<Rightarrow> kind \<Rightarrow> string \<Rightarrow> bool" where
  "owns_pod H ns lbls cmName k nm \<longleftrightarrow>
     (\<exists>pod ref. listed_pod H ns lbls cmName pod \<and> ref \<in> set (omOwnerReferences (podMeta pod)) \<and>
        workload_of_ref ref = Some (k, nm))"

definition review_allowed :: "history \<Rightarrow> string \<Rightarrow> string \<Rightarrow> bool" where
  "review_allowed H ns verb \<longleftrightarrow>
     (\<exists>st. (Review \<lparr>raGroup = ''apps'', raResource = ''daemonsets'', raNamespace = ns, raVerb = verb\<rparr>, RReview st) \<in> H \<and>
        rsAllowed st \<and> rsEvaluationError st = [])"

definition cm_value :: "config_map \<Rightarrow> string" where
  "cm_value cm = map_get (case cmData cm of None \<Rightarrow> [] | Some d \<Rightarrow> d) ''namespaces''"

definition restart_request :: "labels \<Rightarrow> config_map \<Rightarrow> string \<Rightarrow> history \<Rightarrow> request \<Rightarrow> bool" where
  "restart_request lbls cm ns H q \<longleftrightarrow>
     (is_write q \<longrightarrow>
        (let owns = owns_pod H ns lbls (omName (cmMeta cm));
             annotated = annotate (hash7 (cm_value cm))
         in (\<exists>pod. q = Delete (OPod pod) \<and> listed_pod H ns lbls (omName (cmMeta cm)) pod \<and>
               map_of (omAnnotations (podMeta pod)) ''olm.operatorGroup'' \<noteq> None) \<or>
            (\<exists>nm d. q = Update (ODeployment (annotated d)) \<and> owns KDeployment nm \<and>
               (Get Cached KDeployment (ns, nm), RObj (ODeployment d)) \<in> H) \<or>
            (\<exists>nm d. q = Patch (ODaemonSet (annotated d)) (ODaemonSet d) \<and> owns KDaemonSet nm \<and>
               (Get Cached KDaemonSet (ns, nm), RObj (ODaemonSet d)) \<in> H \<and>
               review_allowed H ns ''get'' \<and> review_allowed H ns ''patch'') \<or>
            (\<exists>nm d. q = Patch (OStatefulSet (annotated d)) (OStatefulSet (annotated d)) \<and> owns KStatefulSet nm \<and>
               (Get Cached KStatefulSet (ns, nm), RObj (OStatefulSet d)) \<in> H)))"

lemma listed_pod_mono: "listed_pod H ns l c pod \<Longrightarrow> H \<subseteq> H' \<Longrightarrow> listed_pod H' ns l c pod"
  unfolding listed_pod_def by blast

lemma owns_pod_mono: "owns_pod H ns l c k nm \<Longrightarrow> H \<subseteq> H' \<Longrightarrow> owns_pod H' ns l c k nm"
  unfolding owns_pod_def using listed_pod_mono by blast

lemma review_allowed_mono: "review_allowed H ns v \<Longrightarrow> H \<subseteq> H' \<Longrightarrow> review_allowed H' ns v"
  unfolding review_allowed_def by blast

lemma restart_read [simp]: "\<not> is_write q \<Longrightarrow> restart_request l cm ns H q"
  by (simp add: restart_request_def)

lemma restart_requestI:
  "listed_pod H ns lbls (omName (cmMeta cm)) pod \<Longrightarrow>
     map_of (omAnnotations (podMeta pod)) ''olm.operatorGroup'' \<noteq> None \<Longrightarrow>
     restart_request lbls cm ns H (Delete (OPod pod))"
  "owns_pod H ns lbls (omName (cmMeta cm)) KDeployment nm \<Longrightarrow>
     (Get Cached KDeployment (ns, nm), RObj (ODeployment d)) \<in> H \<Longrightarrow>
     restart_request lbls cm ns H (Update (ODeployment (annotate (hash7 (cm_value cm)) d)))"
  "owns_pod H ns lbls (omName (cmMeta cm)) KDaemonSet nm \<Longrightarrow>
     (Get Cached KDaemonSet (ns, nm), RObj (ODaemonSet d)) \<in> H \<Longrightarrow>
     review_allowed H ns ''get'' \<Longrightarrow> review_allowed H ns ''patch'' \<Longrightarrow>
     restart_request lbls cm ns H (Patch (ODaemonSet (annotate (hash7 (cm_value cm)) d)) (ODaemonSet d))"
  "owns_pod H ns lbls (omName (cmMeta cm)) KStatefulSet nm \<Longrightarrow>
     (Get Cached KStatefulSet (ns, nm), RObj (OStatefulSet d)) \<in> H \<Longrightarrow>
     restart_request lbls cm ns H (Patch (OStatefulSet (annotate (hash7 (cm_value cm)) d))
       (OStatefulSet (annotate (hash7 (cm_value cm)) d)))"
  unfolding restart_request_def Let_def by blast+

section \<open>The loops\<close>

text \<open>The three name lists hold names of owners of listed pods only.\<close>

definition names_ok :: "history \<Rightarrow> string \<Rightarrow> labels \<Rightarrow> string \<Rightarrow> owner_names \<Rightarrow> bool" where
  "names_ok H ns lbls c acc \<longleftrightarrow>
     (case acc of (ds, dss, sss) \<Rightarrow>
        (\<forall>nm \<in> set ds. owns_pod H ns lbls c KDeployment nm) \<and>
        (\<forall>nm \<in> set dss. owns_pod H ns lbls c KDaemonSet nm) \<and>
        (\<forall>nm \<in> set sss. owns_pod H ns lbls c KStatefulSet nm))"

lemma names_ok_mono: "names_ok H ns l c acc \<Longrightarrow> H \<subseteq> H' \<Longrightarrow> names_ok H' ns l c acc"
  unfolding names_ok_def using owns_pod_mono by (cases acc) auto

definition add_name :: "(kind \<times> string) option \<Rightarrow> owner_names \<Rightarrow> owner_names" where
  "add_name w acc = (case acc of (ds, dss, sss) \<Rightarrow> (case w of
       Some (KDeployment, nm) \<Rightarrow> (ds @ [nm], dss, sss)
     | Some (KDaemonSet, nm) \<Rightarrow> (ds, dss @ [nm], sss)
     | Some (KStatefulSet, nm) \<Rightarrow> (ds, dss, sss @ [nm])
     | _ \<Rightarrow> acc))"

lemma owners_loop_Cons:
  "owners_loop (ref # refs) acc =
     (if orController ref = None then None else owners_loop refs (add_name (workload_of_ref ref) acc))"
  by (cases acc) (simp add: add_name_def workload_of_ref_def split: option.split bool.split)

lemma names_ok_add:
  "names_ok H ns l c acc \<Longrightarrow> (\<And>k nm. w = Some (k, nm) \<Longrightarrow> owns_pod H ns l c k nm) \<Longrightarrow>
     names_ok H ns l c (add_name w acc)"
  unfolding add_name_def names_ok_def by (auto split: option.split prod.split kind.split)

lemma owners_loop_names:
  "owners_loop refs acc = Some acc' \<Longrightarrow> names_ok H ns l c acc \<Longrightarrow> listed_pod H ns l c pod \<Longrightarrow>
     set refs \<subseteq> set (omOwnerReferences (podMeta pod)) \<Longrightarrow> names_ok H ns l c acc'"
proof (induction refs arbitrary: acc)
  case (Cons ref refs)
  have "names_ok H ns l c (add_name (workload_of_ref ref) acc)"
    using Cons.prems by (intro names_ok_add) (auto simp: owns_pod_def)
  then show ?case
    using Cons by (auto simp: owners_loop_Cons split: if_splits)
qed simp

lemma hwp_pods_loop:
  assumes "\<forall>pod \<in> set pods. \<exists>obs. (ListOf Cached KPod ns lbls, RList obs) \<in> H \<and> OPod pod \<in> set obs"
    and "names_ok H ns lbls (omName (cmMeta cm)) acc"
    and "\<And>H' e. H \<subseteq> H' \<Longrightarrow> Q H' (Done (Inl e))" "\<And>H'. H \<subseteq> H' \<Longrightarrow> Q H' Panicked"
    and "\<And>H' acc'. H \<subseteq> H' \<Longrightarrow> names_ok H' ns lbls (omName (cmMeta cm)) acc' \<Longrightarrow> Q H' (Done (Inr acc'))"
  shows "hwp (restart_request lbls cm ns) S Q (pods_loop (omName (cmMeta cm)) pods acc) H"
  using assms
proof (induction pods arbitrary: acc H)
  case (Cons pod pods)
  let ?c = "omName (cmMeta cm)"
  have rest: "hwp (restart_request lbls cm ns) S Q (pods_loop ?c pods acc') H'"
    if "H \<subseteq> H'" "names_ok H' ns lbls ?c acc'" for acc' H'
    using that Cons.prems by (intro Cons.IH) (fastforce | blast)+
  have listed: "listed_pod H ns lbls ?c pod" if "needRestart pod ?c"
    using that Cons.prems(1) by (auto simp: listed_pod_def)
  have remove: "restart_request lbls cm ns H (Delete (OPod pod))"
    if "needRestart pod ?c" "map_of (omAnnotations (podMeta pod)) ''olm.operatorGroup'' \<noteq> None"
    using listed that by (intro restart_requestI(1))
  have names: "names_ok H ns lbls ?c acc'"
    if "needRestart pod ?c" "owners_loop (omOwnerReferences (podMeta pod)) acc = Some acc'" for acc'
    using owners_loop_names [OF that(2) Cons.prems(2) listed [OF that(1)]] by simp
  show ?case
  proof (cases "needRestart pod ?c")
    case False
    then show ?thesis using rest [of H acc] Cons.prems(2) by simp
  next
    case True
    show ?thesis
    proof (cases "map_of (omAnnotations (podMeta pod)) ''olm.operatorGroup''")
      case None
      with True show ?thesis
        using rest [of H] names Cons.prems(4) by (simp split: option.split)
    next
      case (Some x)
      with True show ?thesis
        using remove Cons.prems(3) rest names_ok_mono [OF Cons.prems(2)]
        by (auto simp: go_try_def bind_call subset_insertI split: sum.split)
    qed
  qed
qed simp

lemma the_workload_iff [simp]:
  "the_deployment ob = Some d \<longleftrightarrow> ob = ODeployment d"
  "the_daemon_set ob = Some d \<longleftrightarrow> ob = ODaemonSet d"
  "the_stateful_set ob = Some d \<longleftrightarrow> ob = OStatefulSet d"
  by (cases ob; simp)+

lemma hwp_restart_deployments:
  assumes "\<forall>nm \<in> set nms. owns_pod H ns lbls (omName (cmMeta cm)) KDeployment nm"
    and "\<And>H' x. H \<subseteq> H' \<Longrightarrow> Q H' (Done x)"
  shows "hwp (restart_request lbls cm ns) S Q (restart_deployments ns (hash7 (cm_value cm)) nms) H"
  using assms
proof (induction nms arbitrary: H)
  case (Cons nm nms)
  let ?get = "Get Cached KDeployment (ns, nm)"
  let ?put = "\<lambda>d. Update (ODeployment (annotate (hash7 (cm_value cm)) d))"
  have rest: "hwp (restart_request lbls cm ns) S Q (restart_deployments ns (hash7 (cm_value cm)) nms) H'"
    if "H \<subseteq> H'" for H'
    using that Cons.prems by (intro Cons.IH) (auto intro: owns_pod_mono)
  have put: "restart_request lbls cm ns (insert (?get, RObj (ODeployment d)) H) (?put d)" for d
    using Cons.prems(1) by (intro restart_requestI(2)) (auto intro: owns_pod_mono)
  show ?case
    using put
    by (auto simp: go_try_def bind_call as_obj_def split: sum.split response.split option.split
        intro!: Cons.prems(2) rest)
qed simp

lemma hwp_restart_daemon_sets:
  assumes "\<forall>nm \<in> set nms. owns_pod H ns lbls (omName (cmMeta cm)) KDaemonSet nm"
    and "review_allowed H ns ''get''" "review_allowed H ns ''patch''"
    and "\<And>H' x. H \<subseteq> H' \<Longrightarrow> Q H' (Done x)"
  shows "hwp (restart_request lbls cm ns) S Q (restart_daemon_sets ns (hash7 (cm_value cm)) nms) H"
  using assms
proof (induction nms arbitrary: H)
  case (Cons nm nms)
  let ?get = "Get Cached KDaemonSet (ns, nm)"
  let ?put = "\<lambda>d. Patch (ODaemonSet (annotate (hash7 (cm_value cm)) d)) (ODaemonSet d)"
  have rest: "hwp (restart_request lbls cm ns) S Q (restart_daemon_sets ns (hash7 (cm_value cm)) nms) H'"
    if "H \<subseteq> H'" for H'
    using that Cons.prems by (intro Cons.IH) (auto intro: owns_pod_mono review_allowed_mono)
  have put: "restart_request lbls cm ns (insert (?get, RObj (ODaemonSet d)) H) (?put d)" for d
    using Cons.prems(1-3) by (intro restart_requestI(3)) (auto intro: owns_pod_mono review_allowed_mono)
  show ?case
    using put
    by (auto simp: bind_call as_obj_def split: sum.split response.split option.split
        intro!: Cons.prems(4) rest)
qed simp

lemma hwp_restart_stateful_sets:
  assumes "\<forall>nm \<in> set nms. owns_pod H ns lbls (omName (cmMeta cm)) KStatefulSet nm"
    and "\<And>H' x. H \<subseteq> H' \<Longrightarrow> Q H' (Done x)"
  shows "hwp (restart_request lbls cm ns) S Q (restart_stateful_sets ns (hash7 (cm_value cm)) nms) H"
  using assms
proof (induction nms arbitrary: H)
  case (Cons nm nms)
  let ?get = "Get Cached KStatefulSet (ns, nm)"
  have rest: "hwp (restart_request lbls cm ns) S Q (restart_stateful_sets ns (hash7 (cm_value cm)) nms) H'"
    if "H \<subseteq> H'" for H'
    using that Cons.prems by (intro Cons.IH) (auto intro: owns_pod_mono)
  have put: "restart_request lbls cm ns (insert (?get, RObj (OStatefulSet d)) H)
      (Patch (OStatefulSet (annotate (hash7 (cm_value cm)) d)) (OStatefulSet (annotate (hash7 (cm_value cm)) d)))" for d
    using Cons.prems(1) by (intro restart_requestI(4)) (auto intro: owns_pod_mono)
  show ?case
    using put
    by (auto simp: go_try_def bind_call as_obj_def Let_def split: sum.split response.split option.split
        intro!: Cons.prems(2) rest)
qed simp

section \<open>The permission check\<close>

lemma as_review_Inr [simp]: "as_review r = Inr st \<longleftrightarrow> r = RReview st"
  by (auto simp: as_review_def split: response.splits)

lemma hwp_review_verbs:
  assumes "\<And>H q. \<not> is_write q \<Longrightarrow> P H q"
    and "\<And>H' x. H \<subseteq> H' \<Longrightarrow>
      (\<And>a. x = Inr a \<Longrightarrow> allowed a \<Longrightarrow> \<forall>v \<in> set verbs. review_allowed H' ns v) \<Longrightarrow> Q H' (Done x)"
  shows "hwp P S Q (review_verbs ns verbs) H"
  using assms(2)
proof (induction verbs arbitrary: H)
  case (Cons v vs)
  let ?q = "Review \<lparr>raGroup = ''apps'', raResource = ''daemonsets'', raNamespace = ns, raVerb = v\<rparr>"
  have rest: "hwp P S Q (review_verbs ns vs) (insert (?q, RReview st) H)"
    if "rsAllowed st" "rsEvaluationError st = []" for st
  proof (rule Cons.IH)
    fix H' and x :: "err + access_result"
    assume H': "insert (?q, RReview st) H \<subseteq> H'"
      and x: "\<And>a. x = Inr a \<Longrightarrow> allowed a \<Longrightarrow> \<forall>v \<in> set vs. review_allowed H' ns v"
    have "review_allowed H' ns v"
      unfolding review_allowed_def using H' that by (intro exI [of _ st]) auto
    then show "Q H' (Done x)"
      using H' x by (intro Cons.prems) auto
  qed
  show ?case
    using assms(1) rest by (auto simp: go_try_def bind_call split: sum.split intro!: Cons.prems)
qed (auto intro: assms(1))

lemma hwp_manage_daemon_sets:
  assumes "daemonSetPermissionChecker rc = None" "\<And>H q. \<not> is_write q \<Longrightarrow> P H q"
    and "\<And>H' x. H \<subseteq> H' \<Longrightarrow>
      (x = Inr True \<Longrightarrow> review_allowed H' ns ''get'' \<and> review_allowed H' ns ''patch'') \<Longrightarrow> Q H' (Done x)"
  shows "hwp P S Q (manage_daemon_sets rc ns names) H"
proof (cases "names = []")
  case False
  have "hwp P S (\<lambda>H'. and_then (Q H') (\<lambda>x. hwp P S Q (case x of
       Inl e \<Rightarrow> if is_forbidden e \<or> is_unauthorized e then Ret (Inr False)
         else Ret (Inl (WrapErr (''error reviewing daemonset permissions in namespace '' @ quote ns) e))
     | Inr access \<Rightarrow> Ret (Inr (allowed access))) H')) (selfSubjectCheck ns) H"
    unfolding selfSubjectCheck_def
    by (rule hwp_review_verbs) (auto split: sum.split intro!: assms(2,3))
  with False assms(1) show ?thesis
    by (simp add: manage_daemon_sets_def Let_def hwp_bind)
qed (auto simp: manage_daemon_sets_def intro: assms(3))

section \<open>RestartPods\<close>

text \<open>The three kinds of workloads, each step with those that follow it.\<close>

abbreviation then_stateful_sets :: "string \<Rightarrow> string \<Rightarrow> string list \<Rightarrow> (err + unit) proc" where
  "then_stateful_sets ns v sss \<equiv> bind (ToStringSlice (MakeSet sss)) (restart_stateful_sets ns v)"

abbreviation then_daemon_sets ::
  "reconciler \<Rightarrow> string \<Rightarrow> string \<Rightarrow> string list \<Rightarrow> string list \<Rightarrow> (err + unit) proc" where
  "then_daemon_sets rc ns v dss sss \<equiv> bind (ToStringSlice (MakeSet dss)) (\<lambda>xs. go_try (manage_daemon_sets rc ns xs) (\<lambda>m.
      go_try (if m then restart_daemon_sets ns v xs else Ret (Inr ())) (\<lambda>_. then_stateful_sets ns v sss)))"

abbreviation then_deployments ::
  "reconciler \<Rightarrow> string \<Rightarrow> string \<Rightarrow> string list \<Rightarrow> string list \<Rightarrow> string list \<Rightarrow> (err + unit) proc" where
  "then_deployments rc ns v ds dss sss \<equiv> bind (ToStringSlice (MakeSet ds)) (\<lambda>xs.
      go_try (restart_deployments ns v xs) (\<lambda>_. then_daemon_sets rc ns v dss sss))"

lemma hwp_each:
  "(\<And>H. P H (IterSet (MakeSet xs))) \<Longrightarrow> (\<And>ys r. set ys = set xs \<Longrightarrow> hwp P S Q (f ys) (insert (IterSet (MakeSet xs), r) H)) \<Longrightarrow>
     hwp P S Q (bind (ToStringSlice (MakeSet xs)) f) H"
  by (simp add: ToStringSlice_def bind_call)

lemma hwp_then_stateful_sets:
  assumes "names_ok H ns lbls (omName (cmMeta cm)) (ds, dss, sss)" "any_end H Q"
  shows "hwp (restart_request lbls cm ns) S Q (then_stateful_sets ns (hash7 (cm_value cm)) sss) H"
proof (rule hwp_each)
  fix xs r
  assume "set xs = set sss"
  then show "hwp (restart_request lbls cm ns) S Q (restart_stateful_sets ns (hash7 (cm_value cm)) xs)
      (insert (IterSet (MakeSet sss), r) H)"
    using names_ok_mono [OF assms(1) subset_insertI] any_endD(1) [OF assms(2)]
    by (intro hwp_restart_stateful_sets) (auto simp: names_ok_def)
qed simp

lemma hwp_then_daemon_sets:
  assumes "daemonSetPermissionChecker rc = None"
    and "names_ok H ns lbls (omName (cmMeta cm)) (ds, dss, sss)" "any_end H Q"
  shows "hwp (restart_request lbls cm ns) S Q (then_daemon_sets rc ns (hash7 (cm_value cm)) dss sss) H"
proof (rule hwp_each)
  fix xs r
  let ?H = "insert (IterSet (MakeSet dss), r) H" and ?c = "omName (cmMeta cm)"
  let ?R = "\<lambda>H m. m \<longrightarrow> review_allowed H ns ''get'' \<and> review_allowed H ns ''patch''"
  assume xs: "set xs = set dss"
  note names = names_ok_mono [OF assms(2)] and ends = any_end_grow [OF assms(3)]
  show "hwp (restart_request lbls cm ns) S Q (go_try (manage_daemon_sets rc ns xs) (\<lambda>m.
      go_try (if m then restart_daemon_sets ns (hash7 (cm_value cm)) xs else Ret (Inr ()))
        (\<lambda>_. then_stateful_sets ns (hash7 (cm_value cm)) sss))) ?H"
  proof (rule hwp_go_try_after [where R = ?R, OF ends [OF subset_insertI]])
    show "hwp (restart_request lbls cm ns) S Q' (manage_daemon_sets rc ns xs) ?H" if "good_end ?R ?H Q'" for Q'
      by (rule hwp_manage_daemon_sets [OF assms(1)]) (use that in \<open>auto simp: good_end_def\<close>)
  next
    fix m H'
    assume H': "?H \<subseteq> H'" and m: "?R H' m"
    then have sub: "H \<subseteq> H'" by blast
    show "hwp (restart_request lbls cm ns) S Q (go_try (if m then restart_daemon_sets ns (hash7 (cm_value cm)) xs
        else Ret (Inr ())) (\<lambda>_. then_stateful_sets ns (hash7 (cm_value cm)) sss)) H'"
    proof (rule hwp_go_try_any [OF ends [OF sub]])
      show "hwp (restart_request lbls cm ns) S Q' (if m then restart_daemon_sets ns (hash7 (cm_value cm)) xs
          else Ret (Inr ())) H'" if "any_end H' Q'" for Q'
        using m xs names [OF sub] any_endD [OF that] by (auto simp: names_ok_def intro: hwp_restart_daemon_sets)
      show "hwp (restart_request lbls cm ns) S Q (then_stateful_sets ns (hash7 (cm_value cm)) sss) H2" if "H' \<subseteq> H2" for H2
        by (rule hwp_then_stateful_sets [OF names ends]) (use sub that in auto)
    qed
  qed
qed simp

lemma hwp_then_deployments:
  assumes "daemonSetPermissionChecker rc = None"
    and "names_ok H ns lbls (omName (cmMeta cm)) (ds, dss, sss)" "any_end H Q"
  shows "hwp (restart_request lbls cm ns) S Q (then_deployments rc ns (hash7 (cm_value cm)) ds dss sss) H"
proof (rule hwp_each)
  fix xs r
  let ?H = "insert (IterSet (MakeSet ds), r) H"
  assume xs: "set xs = set ds"
  note names = names_ok_mono [OF assms(2)] and ends = any_end_grow [OF assms(3)]
  show "hwp (restart_request lbls cm ns) S Q (go_try (restart_deployments ns (hash7 (cm_value cm)) xs)
      (\<lambda>_. then_daemon_sets rc ns (hash7 (cm_value cm)) dss sss)) ?H"
  proof (rule hwp_go_try_any [OF ends [OF subset_insertI]])
    show "hwp (restart_request lbls cm ns) S Q' (restart_deployments ns (hash7 (cm_value cm)) xs) ?H" if "any_end ?H Q'" for Q'
      by (rule hwp_restart_deployments) (use xs names [OF subset_insertI] any_endD [OF that] in \<open>auto simp: names_ok_def\<close>)
    show "hwp (restart_request lbls cm ns) S Q (then_daemon_sets rc ns (hash7 (cm_value cm)) dss sss) H2" if "?H \<subseteq> H2" for H2
      by (rule hwp_then_daemon_sets [OF assms(1) names ends]) (use that in auto)
  qed
qed simp

lemma hwp_RestartPods:
  assumes "daemonSetPermissionChecker rc = None" "any_end H Q"
  shows "hwp (restart_request lbls cm ns) S Q (RestartPods rc lbls cm ns) H"
proof -
  let ?c = "omName (cmMeta cm)" and ?q = "ListOf Cached KPod ns lbls" and ?v = "hash7 (cm_value cm)"
  have pods: "hwp (restart_request lbls cm ns) S Q (go_try (pods_loop ?c pods ([], [], []))
      (\<lambda>(ds, dss, sss). then_deployments rc ns ?v ds dss sss)) (insert (?q, r) H)"
    if "as_list the_pod r = Inr pods" for r pods
  proof (rule hwp_go_try_after [where R = "\<lambda>H. names_ok H ns lbls ?c", OF any_end_grow [OF assms(2) subset_insertI]])
    fix Q' :: "history \<Rightarrow> (err + owner_names) outcome \<Rightarrow> bool"
    assume Q': "good_end (\<lambda>H. names_ok H ns lbls ?c) (insert (?q, r) H) Q'"
    have "\<forall>pod \<in> set pods. \<exists>obs. (?q, RList obs) \<in> insert (?q, r) H \<and> OPod pod \<in> set obs"
      using as_list_InrE [OF that] by (metis insertI1 the_obj_iff(5))
    then show "hwp (restart_request lbls cm ns) S Q' (pods_loop ?c pods ([], [], [])) (insert (?q, r) H)"
      by (rule hwp_pods_loop) (use good_endD [OF Q'] in \<open>auto simp: names_ok_def\<close>)
  next
    fix acc H'
    assume "insert (?q, r) H \<subseteq> H'" "names_ok H' ns lbls ?c acc"
    then show "hwp (restart_request lbls cm ns) S Q (case acc of (ds, dss, sss) \<Rightarrow> then_deployments rc ns ?v ds dss sss) H'"
      using hwp_then_deployments [OF assms(1) _ any_end_grow [OF assms(2)]] by (cases acc) auto
  qed
  show ?thesis
    unfolding RestartPods_def Let_def cm_value_def [symmetric] go_try_def [of "call _ _"]
    by (rule hwp_call_cases) (auto intro!: pods any_endD(1) [OF assms(2)])
qed

section \<open>Properties\<close>

text \<open>
  C20: \<open>RestartPods\<close> is confined to the pods that read the ConfigMap and to their owners. It
  deletes a pod only if the pod was listed with the restart labels, refers to the ConfigMap and
  has the annotation \<open>olm.operatorGroup\<close>; it writes a Deployment, DaemonSet or StatefulSet only if
  it controls such a pod, was read before, and is written with nothing but the new template
  annotation; and a DaemonSet is patched only after the reviews for both verbs allowed it.
\<close>

theorem RestartPods_confined:
  "ensures (RestartPods \<lparr>hasOLMAPI = olm, daemonSetPermissionChecker = None\<rparr> lbls cm ns)
     (restart_request lbls cm ns) (\<lambda>_ oc. oc \<noteq> Blocked)"
  by (rule ensuresI) (rule hwp_RestartPods, simp_all add: any_end_def)

text \<open>
  C38: the patch of a StatefulSet is empty. The original that \<open>restart_stateful_sets\<close> compares
  with is the annotated object itself, in every run: \<open>client.MergeFrom\<close> yields no change, and the
  StatefulSet is not restarted.
\<close>

theorem stateful_set_patch_empty:
  "ensures (restart_stateful_sets ns v names)
     (\<lambda>H q. case q of Patch new original \<Rightarrow> new = original | _ \<Rightarrow> True) (\<lambda>_. finishes)"
  by (rule ensures_wpI, induction names)
     (auto simp: proc_simps Let_def finishes_def split: sum.split)

text \<open>
  An owner reference without the \<open>controller\<close> field is not survived. For a pod that is to be
  restarted and is not an operator pod, the loop over its owners panics if and only if one of the
  references leaves the field out.
\<close>

theorem owner_without_controller_panics:
  "owners_loop refs acc = None \<longleftrightarrow> list_ex (\<lambda>ref. orController ref = None) refs"
  by (induction refs arbitrary: acc) (auto simp: owners_loop_Cons)

end
