(* ===== verification/Restart_Complete.thy ===== *)
theory Restart_Complete
  imports Restart_Properties
begin

text \<open>
  The other direction of \<open>Restart_Properties\<close>: when \<open>RestartPods\<close> reports success, no pod that was
  listed and reads the ConfigMap was passed over. What was done for it differs: an operator's pod was
  deleted, a Deployment got the new annotation, a DaemonSet got it unless DaemonSets were refused,
  and of a StatefulSet nothing but an empty patch was sent, which restarts nothing.
\<close>

section \<open>What it means to be done\<close>

abbreviation daemon_set_review :: "string \<Rightarrow> string \<Rightarrow> request" where
  "daemon_set_review ns verb \<equiv>
     Review \<lparr>raGroup = ''apps'', raResource = ''daemonsets'', raNamespace = ns, raVerb = verb\<rparr>"

text \<open>The operator may not handle DaemonSets: a review says so, or fails that way, or a request is forbidden.\<close>

definition daemon_sets_refused :: "string \<Rightarrow> history \<Rightarrow> bool" where
  "daemon_sets_refused ns H \<longleftrightarrow>
     (\<exists>verb st. (daemon_set_review ns verb, RReview st) \<in> H \<and> \<not> rsAllowed st) \<or>
     (\<exists>verb r e. (daemon_set_review ns verb, r) \<in> H \<and> as_review r = Inl e \<and> (is_forbidden e \<or> is_unauthorized e)) \<or>
     (\<exists>nm r e. (Get Cached KDaemonSet (ns, nm), r) \<in> H \<and> as_obj the_daemon_set r = Inl e \<and> is_forbidden e) \<or>
     (\<exists>d0 d r e. (Patch (ODaemonSet d) (ODaemonSet d0), r) \<in> H \<and> as_unit r = Inl e \<and> is_forbidden e)"

text \<open>The Deployment was read, and the API server accepted it with the new annotation.\<close>

definition deployment_annotated :: "string \<Rightarrow> string \<Rightarrow> history \<Rightarrow> string \<Rightarrow> bool" where
  "deployment_annotated ns v H nm \<longleftrightarrow>
     (\<exists>d r. (Get Cached KDeployment (ns, nm), RObj (ODeployment d)) \<in> H \<and>
        (Update (ODeployment (annotate v d)), r) \<in> H \<and> as_unit r = Inr ())"

text \<open>The DaemonSet was read, and the API server accepted the patch that adds the new annotation.\<close>

definition daemon_set_annotated :: "string \<Rightarrow> string \<Rightarrow> history \<Rightarrow> string \<Rightarrow> bool" where
  "daemon_set_annotated ns v H nm \<longleftrightarrow>
     (\<exists>d r. (Get Cached KDaemonSet (ns, nm), RObj (ODaemonSet d)) \<in> H \<and>
        (Patch (ODaemonSet (annotate v d)) (ODaemonSet d), r) \<in> H \<and> as_unit r = Inr ())"

text \<open>
  The StatefulSet was read, and the API server accepted a patch from an object to itself: it is empty,
  the annotation does not reach the server, and nothing is restarted.
\<close>

definition stateful_set_untouched :: "string \<Rightarrow> string \<Rightarrow> history \<Rightarrow> string \<Rightarrow> bool" where
  "stateful_set_untouched ns v H nm \<longleftrightarrow>
     (\<exists>d r. (Get Cached KStatefulSet (ns, nm), RObj (OStatefulSet d)) \<in> H \<and>
        (Patch (OStatefulSet (annotate v d)) (OStatefulSet (annotate v d)), r) \<in> H \<and> as_unit r = Inr ())"

definition workload_handled :: "string \<Rightarrow> string \<Rightarrow> history \<Rightarrow> kind \<Rightarrow> string \<Rightarrow> bool" where
  "workload_handled ns v H k nm \<longleftrightarrow>
     (case k of
        KDeployment \<Rightarrow> deployment_annotated ns v H nm
      | KDaemonSet \<Rightarrow> daemon_set_annotated ns v H nm \<or> daemon_sets_refused ns H
      | KStatefulSet \<Rightarrow> stateful_set_untouched ns v H nm
      | _ \<Rightarrow> False)"

lemmas handled_defs = workload_handled_def deployment_annotated_def daemon_set_annotated_def stateful_set_untouched_def

text \<open>A pod, and all the pods that were listed with the labels and read the ConfigMap.\<close>

definition pod_handled :: "string \<Rightarrow> string \<Rightarrow> history \<Rightarrow> pod \<Rightarrow> bool" where
  "pod_handled ns v H pod \<longleftrightarrow>
     (if map_of (omAnnotations (podMeta pod)) ''olm.operatorGroup'' \<noteq> None
      then \<exists>r. (Delete (OPod pod), r) \<in> H \<and> as_unit r = Inr ()
      else \<forall>ref \<in> set (omOwnerReferences (podMeta pod)). \<forall>k nm.
        workload_of_ref ref = Some (k, nm) \<longrightarrow> workload_handled ns v H k nm)"

definition restart_handled :: "labels \<Rightarrow> config_map \<Rightarrow> string \<Rightarrow> history \<Rightarrow> bool" where
  "restart_handled lbls cm ns H \<longleftrightarrow>
     (\<exists>r pods. (ListOf Cached KPod ns lbls, r) \<in> H \<and> as_list the_pod r = Inr pods \<and>
        (\<forall>pod \<in> set pods. needRestart pod (omName (cmMeta cm)) \<longrightarrow> pod_handled ns (hash7 (cm_value cm)) H pod))"

lemma daemon_sets_refused_mono: "daemon_sets_refused ns H \<Longrightarrow> H \<subseteq> H' \<Longrightarrow> daemon_sets_refused ns H'"
  unfolding daemon_sets_refused_def by blast

lemma workload_handled_mono: "workload_handled ns v H k nm \<Longrightarrow> H \<subseteq> H' \<Longrightarrow> workload_handled ns v H' k nm"
  unfolding handled_defs using daemon_sets_refused_mono by (cases k) (simp_all, blast+)

lemma pod_handled_mono: "pod_handled ns v H pod \<Longrightarrow> H \<subseteq> H' \<Longrightarrow> pod_handled ns v H' pod"
  unfolding pod_handled_def using workload_handled_mono by (auto split: if_splits)

lemma restart_handled_mono: "restart_handled lbls cm ns H \<Longrightarrow> H \<subseteq> H' \<Longrightarrow> restart_handled lbls cm ns H'"
  unfolding restart_handled_def using pod_handled_mono by (meson subsetD)

section \<open>Which names the pods leave behind\<close>

fun named :: "owner_names \<Rightarrow> kind \<Rightarrow> string \<Rightarrow> bool" where
  "named (ds, dss, sss) KDeployment nm = (nm \<in> set ds)"
| "named (ds, dss, sss) KDaemonSet nm = (nm \<in> set dss)"
| "named (ds, dss, sss) KStatefulSet nm = (nm \<in> set sss)"
| "named acc _ nm = False"

lemma named_add: "named acc k nm \<Longrightarrow> named (add_name w acc) k nm"
  by (cases "(acc, k, nm)" rule: named.cases) (auto simp: add_name_def split: option.split kind.split)

lemma named_new: "workload_of_ref ref = Some (k, nm) \<Longrightarrow> named (add_name (Some (k, nm)) acc) k nm"
  by (cases acc) (auto simp: add_name_def workload_of_ref_def split: if_splits)

lemma owners_loop_named:
  "owners_loop refs acc = Some acc' \<Longrightarrow>
     named acc k nm \<or> (\<exists>ref \<in> set refs. workload_of_ref ref = Some (k, nm)) \<Longrightarrow> named acc' k nm"
proof (induction refs arbitrary: acc)
  case (Cons ref refs)
  then have "owners_loop refs (add_name (workload_of_ref ref) acc) = Some acc'"
    by (simp add: owners_loop_Cons split: if_splits)
  from Cons.IH [OF this] show ?case
    using Cons.prems(2) named_add [of acc k nm "workload_of_ref ref"] named_new [of ref k nm acc] by force
qed simp

text \<open>After the loop over the pods: each is deleted, or the workloads that control it are named.\<close>

definition pod_seen :: "owner_names \<Rightarrow> history \<Rightarrow> pod \<Rightarrow> bool" where
  "pod_seen acc H pod \<longleftrightarrow>
     (if map_of (omAnnotations (podMeta pod)) ''olm.operatorGroup'' \<noteq> None
      then \<exists>r. (Delete (OPod pod), r) \<in> H \<and> as_unit r = Inr ()
      else \<forall>ref \<in> set (omOwnerReferences (podMeta pod)). \<forall>k nm. workload_of_ref ref = Some (k, nm) \<longrightarrow> named acc k nm)"

definition pods_seen :: "string \<Rightarrow> pod list \<Rightarrow> owner_names \<Rightarrow> history \<Rightarrow> owner_names \<Rightarrow> bool" where
  "pods_seen c pods acc H acc' \<longleftrightarrow>
     (\<forall>k nm. named acc k nm \<longrightarrow> named acc' k nm) \<and> (\<forall>pod \<in> set pods. needRestart pod c \<longrightarrow> pod_seen acc' H pod)"

lemma pods_seen_Cons:
  assumes "pods_seen c pods acc1 H acc'" "\<forall>k nm. named acc k nm \<longrightarrow> named acc1 k nm"
    and "needRestart pod c \<longrightarrow> pod_seen acc1 H pod"
  shows "pods_seen c (pod # pods) acc H acc'"
  using assms unfolding pods_seen_def pod_seen_def by (auto split: if_splits)

lemma pod_seen_mono: "pod_seen acc H pod \<Longrightarrow> H \<subseteq> H' \<Longrightarrow> pod_seen acc H' pod"
  unfolding pod_seen_def by (auto split: if_splits)

lemma hwp_pods_loop_seen:
  "good_end (pods_seen c pods acc) H Q \<Longrightarrow> hwp (\<lambda>_ _. True) S Q (pods_loop c pods acc) H"
proof (induction pods arbitrary: acc H)
  case Nil
  then show ?case by (auto simp: pods_seen_def intro: good_endD(3))
next
  case (Cons pod pods)
  have rest: "hwp (\<lambda>_ _. True) S Q (pods_loop c pods acc1) H'"
    if "H \<subseteq> H'" "\<forall>k nm. named acc k nm \<longrightarrow> named acc1 k nm" "needRestart pod c \<longrightarrow> pod_seen acc1 H' pod" for acc1 H'
  proof (rule Cons.IH)
    show "good_end (pods_seen c pods acc1) H' Q"
      using that(3) by (intro good_end_mono [OF Cons.prems that(1)] pods_seen_Cons [OF _ that(2)]) (auto intro: pod_seen_mono)
  qed
  show ?case
  proof (cases "needRestart pod c")
    case True
    show ?thesis
    proof (cases "map_of (omAnnotations (podMeta pod)) ''olm.operatorGroup''")
      case None
      have "hwp (\<lambda>_ _. True) S Q (pods_loop c pods acc1) H"
        if "owners_loop (omOwnerReferences (podMeta pod)) acc = Some acc1" for acc1
        using owners_loop_named [OF that] None by (intro rest) (auto simp: pod_seen_def)
      with True None show ?thesis
        using good_endD(2) [OF Cons.prems order_refl] by (simp split: option.split)
    next
      case (Some x)
      have "hwp (\<lambda>_ _. True) S Q (pods_loop c pods acc) (insert (Delete (OPod pod), r) H)"
        if "as_unit r = Inr ()" for r
        using that Some by (intro rest) (auto simp: pod_seen_def)
      with True Some show ?thesis
        using good_endD(1) [OF Cons.prems subset_insertI]
        by (simp add: go_try_def bind_call split: sum.split)
    qed
  qed (use rest [of H acc] in simp)
qed

section \<open>The loops over the workloads\<close>

definition all_done :: "string \<Rightarrow> string \<Rightarrow> kind \<Rightarrow> string list \<Rightarrow> history \<Rightarrow> unit \<Rightarrow> bool" where
  "all_done ns v k nms H u \<longleftrightarrow> (\<forall>nm \<in> set nms. workload_handled ns v H k nm)"

lemma all_done_Cons:
  assumes "good_end (all_done ns v k (nm # nms)) H Q" "H \<subseteq> H'" "workload_handled ns v H' k nm"
  shows "good_end (all_done ns v k nms) H' Q"
  by (rule good_end_mono [OF assms(1,2)]) (use workload_handled_mono [OF assms(3)] in \<open>simp add: all_done_def\<close>)

lemma hwp_deployments_done:
  "good_end (all_done ns v KDeployment nms) H Q \<Longrightarrow> hwp (\<lambda>_ _. True) S Q (restart_deployments ns v nms) H"
proof (induction nms arbitrary: H)
  case (Cons nm nms)
  have rest: "hwp (\<lambda>_ _. True) S Q (restart_deployments ns v nms)
      (insert (Update (ODeployment (annotate v d)), r) (insert (Get Cached KDeployment (ns, nm), RObj (ODeployment d)) H))"
    if "as_unit r = Inr ()" for d r
    using that by (intro Cons.IH all_done_Cons [OF Cons.prems]) (auto simp: handled_defs)
  show ?case
    by (auto simp: go_try_def bind_call as_obj_def split: sum.split response.split option.split
        intro!: rest good_endD(1) [OF Cons.prems])
qed (auto simp: all_done_def intro: good_endD(3))

lemma hwp_stateful_sets_done:
  "good_end (all_done ns v KStatefulSet nms) H Q \<Longrightarrow> hwp (\<lambda>_ _. True) S Q (restart_stateful_sets ns v nms) H"
proof (induction nms arbitrary: H)
  case (Cons nm nms)
  have rest: "hwp (\<lambda>_ _. True) S Q (restart_stateful_sets ns v nms)
      (insert (Patch (OStatefulSet (annotate v d)) (OStatefulSet (annotate v d)), r)
        (insert (Get Cached KStatefulSet (ns, nm), RObj (OStatefulSet d)) H))"
    if "as_unit r = Inr ()" for d r
    using that by (intro Cons.IH all_done_Cons [OF Cons.prems]) (auto simp: handled_defs)
  show ?case
    by (auto simp: go_try_def bind_call as_obj_def Let_def split: sum.split response.split option.split
        intro!: rest good_endD(1) [OF Cons.prems])
qed (auto simp: all_done_def intro: good_endD(3))

lemma refused_done: "daemon_sets_refused ns H \<Longrightarrow> all_done ns v KDaemonSet nms H u"
  by (simp add: all_done_def workload_handled_def)

lemma hwp_daemon_sets_done:
  "good_end (all_done ns v KDaemonSet nms) H Q \<Longrightarrow> hwp (\<lambda>_ _. True) S Q (restart_daemon_sets ns v nms) H"
proof (induction nms arbitrary: H)
  case (Cons nm nms)
  let ?get = "Get Cached KDaemonSet (ns, nm)"
  let ?patch = "\<lambda>d. Patch (ODaemonSet (annotate v d)) (ODaemonSet d)"
  note ends = good_endD(1) [OF Cons.prems] good_endD(3) [OF Cons.prems _ refused_done]
  have rest: "hwp (\<lambda>_ _. True) S Q (restart_daemon_sets ns v nms)
      (insert (?patch d, r) (insert (?get, RObj (ODaemonSet d)) H))" if "as_unit r = Inr ()" for d r
    using that by (intro Cons.IH all_done_Cons [OF Cons.prems]) (auto simp: handled_defs)
  have patch_refused: "daemon_sets_refused ns (insert (?patch d, r) (insert (?get, RObj (ODaemonSet d)) H))"
    if "as_unit r = Inl e" "is_forbidden e" for d r e
    unfolding daemon_sets_refused_def using that by blast
  have get_refused: "daemon_sets_refused ns (insert (?get, r) H)"
    if "as_obj the_daemon_set r = Inl e" "is_forbidden e" for r e
    unfolding daemon_sets_refused_def using that by blast
  have patch: "hwp (\<lambda>_ _. True) S Q (bind (call (?patch d) as_unit) (\<lambda>y. case y of
        Inl e \<Rightarrow> if is_forbidden e then Ret (Inr ()) else Ret (Inl e)
      | Inr _ \<Rightarrow> restart_daemon_sets ns v nms)) (insert (?get, RObj (ODaemonSet d)) H)" for d
    by (rule hwp_call_cases) (auto intro!: ends intro: rest patch_refused)
  have "hwp (\<lambda>_ _. True) S Q (case as_obj the_daemon_set r of
        Inl e \<Rightarrow> if is_forbidden e then Ret (Inr ()) else Ret (Inl e)
      | Inr daemonSet \<Rightarrow> bind (call (?patch daemonSet) as_unit) (\<lambda>y. case y of
          Inl e \<Rightarrow> if is_forbidden e then Ret (Inr ()) else Ret (Inl e)
        | Inr _ \<Rightarrow> restart_daemon_sets ns v nms)) (insert (?get, r) H)" for r
  proof (cases "as_obj the_daemon_set r")
    case (Inl e)
    then show ?thesis using get_refused [OF Inl] by (auto intro!: ends)
  next
    case (Inr d)
    then have "r = RObj (ODaemonSet d)" by (auto elim: as_obj_InrE)
    with Inr show ?thesis using patch by simp
  qed
  then show ?case by (simp add: bind_call)
qed (auto simp: all_done_def intro: good_endD(3))

text \<open>The permission check: when it says no, the DaemonSets were refused.\<close>

lemma hwp_review_refused:
  assumes "\<And>H' x. H \<subseteq> H' \<Longrightarrow> (\<And>a. x = Inr a \<Longrightarrow> \<not> allowed a \<Longrightarrow> daemon_sets_refused ns H') \<Longrightarrow>
      (\<And>e. x = Inl e \<Longrightarrow> is_forbidden e \<or> is_unauthorized e \<Longrightarrow> daemon_sets_refused ns H') \<Longrightarrow> Q H' (Done x)"
  shows "hwp (\<lambda>_ _. True) S Q (review_verbs ns verbs) H"
  using assms
proof (induction verbs arbitrary: H)
  case (Cons verb verbs)
  let ?q = "daemon_set_review ns verb"
  have rest: "hwp (\<lambda>_ _. True) S Q (review_verbs ns verbs) (insert (?q, r) H)" for r
    by (rule Cons.IH) (auto intro: Cons.prems)
  have refused: "daemon_sets_refused ns (insert (?q, r) H)"
    if "as_review r = Inl e" "is_forbidden e \<or> is_unauthorized e" for r e
    unfolding daemon_sets_refused_def using that by blast
  have failed: "Q (insert (?q, r) H) (Done (Inl e))" if "as_review r = Inl e" for r e
    using refused [OF that] by (intro Cons.prems) auto
  have denied: "Q (insert (?q, RReview st) H) (Done (Inr \<lparr>allowed = False, deniedVerb = verb\<rparr>))" if "\<not> rsAllowed st" for st
    using that by (intro Cons.prems) (auto simp: daemon_sets_refused_def)
  have unclear: "Q (insert (?q, r) H) (Done (Inl (PlainErr m)))" for r m
    by (intro Cons.prems) auto
  show ?case
    using rest failed denied unclear by (auto simp: go_try_def bind_call split: sum.split)
next
  case Nil
  have "Q H (Done (Inr \<lparr>allowed = True, deniedVerb = []\<rparr>))" by (rule Nil) simp_all
  then show ?case by simp
qed

lemma hwp_manage_done:
  assumes "daemonSetPermissionChecker rc = None"
    and "good_end (\<lambda>H m. \<not> m \<longrightarrow> names = [] \<or> daemon_sets_refused ns H) H Q"
  shows "hwp (\<lambda>_ _. True) S Q (manage_daemon_sets rc ns names) H"
proof (cases "names = []")
  case False
  have "hwp (\<lambda>_ _. True) S (\<lambda>H'. and_then (Q H') (\<lambda>x. hwp (\<lambda>_ _. True) S Q (case x of
       Inl e \<Rightarrow> if is_forbidden e \<or> is_unauthorized e then Ret (Inr False)
         else Ret (Inl (WrapErr (''error reviewing daemonset permissions in namespace '' @ quote ns) e))
     | Inr access \<Rightarrow> Ret (Inr (allowed access))) H')) (selfSubjectCheck ns) H"
    unfolding selfSubjectCheck_def
    by (rule hwp_review_refused) (auto split: sum.split intro!: good_endD(1,3) [OF assms(2)])
  with False assms(1) show ?thesis
    by (simp add: manage_daemon_sets_def Let_def hwp_bind)
qed (use good_endD(3) [OF assms(2)] in \<open>simp add: manage_daemon_sets_def\<close>)

section \<open>All of them\<close>

text \<open>Of the names left behind, those of the given kinds were dealt with.\<close>

definition names_done :: "string \<Rightarrow> string \<Rightarrow> kind set \<Rightarrow> owner_names \<Rightarrow> history \<Rightarrow> bool" where
  "names_done ns v ks acc H \<longleftrightarrow> (\<forall>k \<in> ks. \<forall>nm. named acc k nm \<longrightarrow> workload_handled ns v H k nm)"

lemma names_done_grow:
  assumes "names_done ns v ks acc H" "H \<subseteq> H'" "\<forall>nm. named acc k nm \<longrightarrow> workload_handled ns v H' k nm"
  shows "names_done ns v (insert k ks) acc H'"
  using assms workload_handled_mono [OF _ assms(2)] unfolding names_done_def by blast

abbreviation steps_end ::
  "string \<Rightarrow> string \<Rightarrow> owner_names \<Rightarrow> history \<Rightarrow> (history \<Rightarrow> (err + unit) outcome \<Rightarrow> bool) \<Rightarrow> bool" where
  "steps_end ns v acc \<equiv> good_end (\<lambda>H _. names_done ns v {KDeployment, KDaemonSet, KStatefulSet} acc H)"

lemma hwp_stateful_sets_end:
  assumes "steps_end ns v (ds, dss, sss) H Q" "names_done ns v {KDeployment, KDaemonSet} (ds, dss, sss) H"
  shows "hwp (\<lambda>_ _. True) S Q (then_stateful_sets ns v sss) H"
proof (rule hwp_each)
  fix zs r
  assume zs: "set zs = set sss"
  have "names_done ns v {KDeployment, KDaemonSet, KStatefulSet} (ds, dss, sss) H2"
    if "H \<subseteq> H2" "all_done ns v KStatefulSet zs H2 u" for H2 u
    using names_done_grow [OF assms(2) that(1), of KStatefulSet] that(2) zs
    by (simp add: all_done_def insert_commute)
  then show "hwp (\<lambda>_ _. True) S Q (restart_stateful_sets ns v zs) (insert (IterSet (MakeSet sss), r) H)"
    by (intro hwp_stateful_sets_done good_end_mono [OF assms(1)]) auto
qed simp

lemma hwp_daemon_sets_end:
  assumes "daemonSetPermissionChecker rc = None"
    and "steps_end ns v (ds, dss, sss) H Q" "names_done ns v {KDeployment} (ds, dss, sss) H"
  shows "hwp (\<lambda>_ _. True) S Q (then_daemon_sets rc ns v dss sss) H"
proof (rule hwp_each)
  fix ys :: "string list" and r
  let ?H = "insert (IterSet (MakeSet dss), r) H"
  let ?M = "\<lambda>H m. \<not> m \<longrightarrow> ys = [] \<or> daemon_sets_refused ns H"
  assume ys: "set ys = set dss"
  note ends = good_end_grow [OF assms(2)]
  have stateful_sets: "hwp (\<lambda>_ _. True) S Q (then_stateful_sets ns v sss) H3"
    if "H \<subseteq> H3" "all_done ns v KDaemonSet ys H3 u" for u H3
  proof (rule hwp_stateful_sets_end [OF ends [OF that(1)]])
    show "names_done ns v {KDeployment, KDaemonSet} (ds, dss, sss) H3"
      using names_done_grow [OF assms(3) that(1), of KDaemonSet] that(2) ys
      by (simp add: all_done_def insert_commute)
  qed
  show "hwp (\<lambda>_ _. True) S Q (go_try (manage_daemon_sets rc ns ys) (\<lambda>m.
      go_try (if m then restart_daemon_sets ns v ys else Ret (Inr ())) (\<lambda>_. then_stateful_sets ns v sss))) ?H"
  proof (rule hwp_go_try_good [OF ends [OF subset_insertI], where R = ?M])
    fix m H2
    assume H2: "?H \<subseteq> H2" and m: "?M H2 m"
    then have sub: "H \<subseteq> H2" by blast
    show "hwp (\<lambda>_ _. True) S Q (go_try (if m then restart_daemon_sets ns v ys else Ret (Inr ()))
        (\<lambda>_. then_stateful_sets ns v sss)) H2"
    proof (rule hwp_go_try_good [OF ends [OF sub], where R = "all_done ns v KDaemonSet ys"])
      show "hwp (\<lambda>_ _. True) S Q' (if m then restart_daemon_sets ns v ys else Ret (Inr ())) H2"
        if "good_end (all_done ns v KDaemonSet ys) H2 Q'" for Q'
        using m hwp_daemon_sets_done [OF that] good_endD(3) [OF that order_refl] refused_done
        by (auto simp: all_done_def)
    qed (use sub stateful_sets in blast)
  qed (rule hwp_manage_done [OF assms(1)])
qed simp

lemma hwp_steps_done:
  assumes "daemonSetPermissionChecker rc = None" "steps_end ns v (ds, dss, sss) H Q"
  shows "hwp (\<lambda>_ _. True) S Q (then_deployments rc ns v ds dss sss) H"
proof (rule hwp_each)
  fix xs r
  note ends = good_end_grow [OF assms(2)]
  assume xs: "set xs = set ds"
  show "hwp (\<lambda>_ _. True) S Q (go_try (restart_deployments ns v xs) (\<lambda>_. then_daemon_sets rc ns v dss sss))
      (insert (IterSet (MakeSet ds), r) H)"
  proof (rule hwp_go_try_good [OF ends [OF subset_insertI], where R = "all_done ns v KDeployment xs"])
    show "hwp (\<lambda>_ _. True) S Q (then_daemon_sets rc ns v dss sss) H2"
      if "insert (IterSet (MakeSet ds), r) H \<subseteq> H2" "all_done ns v KDeployment xs H2 u" for u H2
      using that xs by (intro hwp_daemon_sets_end [OF assms(1) ends]) (auto simp: all_done_def names_done_def)
  qed (rule hwp_deployments_done)
qed simp

lemma seen_done:
  assumes "pods_seen c pods acc0 H acc" "H \<subseteq> H'" "names_done ns v {KDeployment, KDaemonSet, KStatefulSet} acc H'"
    and "pod \<in> set pods" "needRestart pod c"
  shows "pod_handled ns v H' pod"
proof -
  have seen: "pod_seen acc H' pod"
    using assms(1,4,5) pod_seen_mono [OF _ assms(2)] unfolding pods_seen_def by blast
  have "workload_handled ns v H' k nm" if "workload_of_ref ref = Some (k, nm)" "named acc k nm" for ref k nm
  proof -
    have "k \<in> {KDeployment, KDaemonSet, KStatefulSet}"
      using that(1) by (auto simp: workload_of_ref_def split: if_splits)
    then show ?thesis using assms(3) that(2) unfolding names_done_def by blast
  qed
  with seen show ?thesis
    unfolding pod_seen_def pod_handled_def by (simp split: if_splits)
qed

lemma hwp_RestartPods_done:
  assumes "daemonSetPermissionChecker rc = None" "good_end (\<lambda>H _. restart_handled lbls cm ns H) H Q"
  shows "hwp (\<lambda>_ _. True) S Q (RestartPods rc lbls cm ns) H"
proof -
  let ?c = "omName (cmMeta cm)" and ?q = "ListOf Cached KPod ns lbls" and ?v = "hash7 (cm_value cm)"
  note ends = good_end_grow [OF assms(2)]
  have pods: "hwp (\<lambda>_ _. True) S Q (go_try (pods_loop ?c pods ([], [], []))
      (\<lambda>(ds, dss, sss). then_deployments rc ns ?v ds dss sss)) (insert (?q, r) H)"
    if r: "as_list the_pod r = Inr pods" for r pods
  proof (rule hwp_go_try_good [OF ends [OF subset_insertI], where R = "pods_seen ?c pods ([], [], [])"])
    fix acc H'
    assume H': "insert (?q, r) H \<subseteq> H'" and seen: "pods_seen ?c pods ([], [], []) H' acc"
    obtain ds dss sss where acc: "acc = (ds, dss, sss)" by (cases acc)
    have "restart_handled lbls cm ns H2"
      if "H' \<subseteq> H2" "names_done ns ?v {KDeployment, KDaemonSet, KStatefulSet} acc H2" for H2
      unfolding restart_handled_def using r H' that(1) seen_done [OF seen that] by blast
    then have "good_end (\<lambda>H _. names_done ns ?v {KDeployment, KDaemonSet, KStatefulSet} acc H) H' Q"
      using H' by (intro good_end_mono [OF assms(2)]) auto
    then show "hwp (\<lambda>_ _. True) S Q (case acc of (ds, dss, sss) \<Rightarrow> then_deployments rc ns ?v ds dss sss) H'"
      unfolding acc prod.case by (rule hwp_steps_done [OF assms(1)])
  qed (rule hwp_pods_loop_seen)
  show ?thesis
    unfolding RestartPods_def Let_def cm_value_def [symmetric] go_try_def [of "call _ _"]
    by (rule hwp_call_cases) (auto intro!: pods good_endD(1) [OF assms(2)])
qed

section \<open>The property\<close>

text \<open>
  C21: what the success of \<open>RestartPods\<close> means. Of the pods that were listed with the restart labels
  and read the ConfigMap, every operator's pod (one with the annotation of its operator group) was
  deleted. For any other one, each Deployment that controls it was read and accepted with the new
  annotation; each DaemonSet that controls it got the annotation by an accepted patch, or a review or
  a request said that the operator may not handle DaemonSets; and each StatefulSet that controls it was
  only read, and sent an empty patch: StatefulSets are never restarted, success or not.
\<close>

theorem RestartPods_complete:
  "ensures (RestartPods \<lparr>hasOLMAPI = olm, daemonSetPermissionChecker = None\<rparr> lbls cm ns) (\<lambda>_ _. True)
     (\<lambda>H oc. oc \<noteq> Blocked \<and> (case oc of Done (Inr _) \<Rightarrow> restart_handled lbls cm ns H | _ \<Rightarrow> True))"
  by (rule ensuresI, rule hwp_RestartPods_done) (auto simp: good_end_def split: outcome.split sum.split)

end
