(* ===== verification/Status_Properties.thy ===== *)
theory Status_Properties
  imports Cleanup_Properties
begin

text \<open>
  The status of a NamespaceScope against its contract: which members count as validated, when the
  status is written, the rolling windows of history and timing, and the helpers of \<open>util.go\<close> on
  which the comparisons rest.
\<close>

section \<open>Validation\<close>

text \<open>Why a member may be kept, and why it may be dropped.\<close>

definition keep_grounds :: "history \<Rightarrow> string \<Rightarrow> string \<Rightarrow> bool" where
  "keep_grounds H ops m \<longleftrightarrow>
     m = ops \<or>
     (\<exists>ns. (Get Live KNamespace ([], m), RObj (ONamespace ns)) \<in> H \<and> \<not> nsTerminating ns) \<or>
     (\<exists>a r. (Review a, r) \<in> H \<and> raResource a = ''namespaces'' \<and> raVerb a = ''get'' \<and>
        (\<forall>st. r = RReview st \<longrightarrow> \<not> rsAllowed st))"

definition drop_grounds :: "history \<Rightarrow> string \<Rightarrow> string \<Rightarrow> bool" where
  "drop_grounds H ops m \<longleftrightarrow>
     m \<noteq> ops \<and>
     ((\<exists>e. (Get Live KNamespace ([], m), RErr e) \<in> H \<and> is_not_found e) \<or>
      (\<exists>ns. (Get Live KNamespace ([], m), RObj (ONamespace ns)) \<in> H \<and> nsTerminating ns))"

text \<open>\<open>xs\<close> is \<open>members\<close> without those that were dropped, in the order of \<open>members\<close>.\<close>

inductive validated :: "history \<Rightarrow> string \<Rightarrow> string list \<Rightarrow> string list \<Rightarrow> bool" for H ops where
  validated_Nil: "validated H ops [] []"
| validated_keep: "keep_grounds H ops m \<Longrightarrow> validated H ops ms xs \<Longrightarrow> validated H ops (m # ms) (m # xs)"
| validated_drop: "drop_grounds H ops m \<Longrightarrow> validated H ops ms xs \<Longrightarrow> validated H ops (m # ms) xs"

lemma keep_grounds_mono: "keep_grounds H ops m \<Longrightarrow> H \<subseteq> H' \<Longrightarrow> keep_grounds H' ops m"
  unfolding keep_grounds_def by blast

lemma drop_grounds_mono: "drop_grounds H ops m \<Longrightarrow> H \<subseteq> H' \<Longrightarrow> drop_grounds H' ops m"
  unfolding drop_grounds_def by blast

lemma validated_mono: "validated H ops ms xs \<Longrightarrow> H \<subseteq> H' \<Longrightarrow> validated H' ops ms xs"
  by (induction rule: validated.induct)
     (auto intro: validated.intros keep_grounds_mono drop_grounds_mono)

lemma validated_subset: "validated H ops ms xs \<Longrightarrow> set xs \<subseteq> set ms"
  by (induction rule: validated.induct) auto

lemma review_allowed_bind:
  "bind (case as_review r of Inl e \<Rightarrow> Ret False | Inr st \<Rightarrow> Ret (rsAllowed st)) f =
     f (\<exists>st. r = RReview st \<and> rsAllowed st)"
  by (cases r) (simp_all add: as_review_def)

text \<open>The check of one member: \<open>k\<close> is the rest of the loop that keeps it, \<open>d\<close> the one that drops it.\<close>

lemma hwp_read_member:
  assumes "\<And>H q. \<not> is_write q \<Longrightarrow> P H q" "\<And>H' e. H \<subseteq> H' \<Longrightarrow> Q H' (Done (Inl e))"
    and "\<And>H'. H \<subseteq> H' \<Longrightarrow> keep_grounds H' ops m \<Longrightarrow> hwp P S Q k H'"
    and "\<And>H'. H \<subseteq> H' \<Longrightarrow> drop_grounds H' ops m \<Longrightarrow> hwp P S Q d H'" "m \<noteq> ops"
  shows "hwp P S Q (bind (call (Get Live KNamespace ([], m)) (as_obj the_namespace)) (\<lambda>x. case x of
      Inl e \<Rightarrow> if is_not_found e then d else Ret (Inl e)
    | Inr ns \<Rightarrow> if nsTerminating ns then d else k)) H"
proof (rule hwp_call_cases, goal_cases)
  case (2 r e)
  then show ?case
    using assms(5) as_obj_not_found [OF 2] by (auto simp: drop_grounds_def intro!: assms(2,4))
next
  case (3 r ns)
  then have "r = RObj (ONamespace ns)" by (auto elim: as_obj_InrE)
  then show ?case
    using assms(5) by (auto simp: drop_grounds_def keep_grounds_def intro!: assms(3,4))
qed (simp add: assms(1))

lemma hwp_check_member:
  assumes "\<And>H q. \<not> is_write q \<Longrightarrow> P H q" "\<And>H' e. H \<subseteq> H' \<Longrightarrow> Q H' (Done (Inl e))"
    and "\<And>H'. H \<subseteq> H' \<Longrightarrow> keep_grounds H' ops m \<Longrightarrow> hwp P S Q k H'"
    and "\<And>H'. H \<subseteq> H' \<Longrightarrow> drop_grounds H' ops m \<Longrightarrow> hwp P S Q d H'" "m \<noteq> ops"
  shows "hwp P S Q (bind checkGetNSAuth (\<lambda>auth. if auth then
      bind (call (Get Live KNamespace ([], m)) (as_obj the_namespace)) (\<lambda>x. case x of
        Inl e \<Rightarrow> if is_not_found e then d else Ret (Inl e)
      | Inr ns \<Rightarrow> if nsTerminating ns then d else k) else k)) H"
proof -
  let ?attrs = "\<lparr>raGroup = [], raResource = ''namespaces'', raNamespace = [], raVerb = ''get''\<rparr>"
  let ?read = "bind (call (Get Live KNamespace ([], m)) (as_obj the_namespace)) (\<lambda>x. case x of
      Inl e \<Rightarrow> if is_not_found e then d else Ret (Inl e) | Inr ns \<Rightarrow> if nsTerminating ns then d else k)"
  have "hwp P S Q (if \<exists>st. r = RReview st \<and> rsAllowed st then ?read else k) (insert (Review ?attrs, r) H)" for r
  proof (cases "\<exists>st. r = RReview st \<and> rsAllowed st")
    case True
    show ?thesis
      unfolding if_P [OF True] using assms(5) by (intro hwp_read_member assms) auto
  next
    case False
    then have "keep_grounds (insert (Review ?attrs, r) H) ops m"
      unfolding keep_grounds_def by (intro disjI2 exI [of _ ?attrs] exI [of _ r]) simp
    then show ?thesis
      unfolding if_not_P [OF False] by (intro assms(3)) auto
  qed
  then show ?thesis
    using assms(1) by (simp add: checkGetNSAuth_def bind_assoc bind_call review_allowed_bind split del: if_split)
qed

lemma hwp_validate_loop:
  assumes "\<And>H q. \<not> is_write q \<Longrightarrow> P H q" "\<And>H' e. H \<subseteq> H' \<Longrightarrow> Q H' (Done (Inl e))"
    and "\<And>H' xs. H \<subseteq> H' \<Longrightarrow> validated H' ops ms xs \<Longrightarrow> Q H' (Done (Inr (acc @ xs)))"
  shows "hwp P S Q (validate_loop ops ms acc) H"
  using assms(2,3)
proof (induction ms arbitrary: acc H)
  case Nil
  then show ?case using Nil(2) [of H "[]"] by (simp add: validated_Nil)
next
  case (Cons m ms)
  have keep: "hwp P S Q (validate_loop ops ms (acc @ [m])) H2" if "H \<subseteq> H2" "keep_grounds H2 ops m" for H2
  proof (rule Cons.IH)
    show "Q H3 (Done (Inr ((acc @ [m]) @ xs)))" if "H2 \<subseteq> H3" "validated H3 ops ms xs" for H3 xs
      using Cons.prems(2) [of H3 "m # xs"] that \<open>H \<subseteq> H2\<close> keep_grounds_mono [OF \<open>keep_grounds H2 ops m\<close> that(1)]
      by (auto intro: validated_keep)
  qed (use Cons.prems(1) that in auto)
  have drop: "hwp P S Q (validate_loop ops ms acc) H2" if "H \<subseteq> H2" "drop_grounds H2 ops m" for H2
  proof (rule Cons.IH)
    show "Q H3 (Done (Inr (acc @ xs)))" if "H2 \<subseteq> H3" "validated H3 ops ms xs" for H3 xs
      using Cons.prems(2) [of H3 xs] that \<open>H \<subseteq> H2\<close> drop_grounds_mono [OF \<open>drop_grounds H2 ops m\<close> that(1)]
      by (auto intro: validated_drop)
  qed (use Cons.prems(1) that in auto)
  show ?case
  proof (cases "m = ops")
    case True
    then show ?thesis using keep [of H] by (simp add: keep_grounds_def)
  next
    case False
    then show ?thesis
      unfolding validate_loop.simps if_not_P [OF False] by (intro hwp_check_member assms(1) Cons.prems(1) keep drop)
  qed
qed

section \<open>UpdateStatus\<close>

text \<open>The members of the instance as validated against the cluster.\<close>

definition members_validated :: "nss \<Rightarrow> history \<Rightarrow> string list \<Rightarrow> bool" where
  "members_validated inst H xs \<longleftrightarrow>
     (\<exists>ops. operator_namespace_read H ops \<and> validated H ops (namespaceMembers (spec inst)) xs)"

lemma hwp_getValidatedNamespaces:
  assumes "\<And>H q. \<not> is_write q \<Longrightarrow> P H q" "\<And>H' e. H \<subseteq> H' \<Longrightarrow> Q H' (Done (Inl e))"
    and "\<And>H' xs. H \<subseteq> H' \<Longrightarrow> members_validated inst H' xs \<Longrightarrow> Q H' (Done (Inr xs))"
  shows "hwp P S Q (getValidatedNamespaces inst) H"
  unfolding getValidatedNamespaces_def hwp_go_try
proof (rule hwp_GetOperatorNamespace)
  fix H2 ops
  assume H2: "H \<subseteq> H2" and ops: "operator_namespace_read H2 ops"
  have "hwp P S Q (validate_loop ops (namespaceMembers (spec inst)) []) H2"
  proof (rule hwp_validate_loop [OF assms(1)])
    fix H3 xs
    assume "H2 \<subseteq> H3" "validated H3 ops (namespaceMembers (spec inst)) xs"
    then show "Q H3 (Done (Inr ([] @ xs)))"
      using H2 operator_namespace_read_mono [OF ops, of H3] unfolding append_Nil
      by (intro assms(3)) (auto simp: members_validated_def)
  qed (use H2 assms(2) in auto)
  then show "and_then (Q H2) (\<lambda>x. case x of Inl e \<Rightarrow> Q H2 (Done (Inl e))
      | Inr ops \<Rightarrow> hwp P S Q (validate_loop ops (namespaceMembers (spec inst)) []) H2) (Done (Inr ops))"
    by simp
qed (auto intro: assms)

definition with_validated :: "nss \<Rightarrow> string list \<Rightarrow> nss" where
  "with_validated inst xs = inst\<lparr>nssStatus := (nssStatus inst)\<lparr>validatedMembers := xs\<rparr>\<rparr>"

definition status_request :: "nss \<Rightarrow> history \<Rightarrow> request \<Rightarrow> bool" where
  "status_request inst H q \<longleftrightarrow>
     (is_write q \<longrightarrow>
        (\<exists>xs. q = StatusUpdate (ONss (with_validated inst xs)) \<and> members_validated inst H xs \<and>
           set xs \<noteq> set (validatedMembers (nssStatus inst))))"

text \<open>
  Success means: the status holds the validated members as a set and was left alone, or it was
  written and the instance is the API server's answer.
\<close>

definition status_result :: "nss \<Rightarrow> history \<Rightarrow> (err + nss) outcome \<Rightarrow> bool" where
  "status_result inst H oc \<longleftrightarrow>
     finishes oc \<and>
     (\<forall>inst'. oc = Done (Inr inst') \<longrightarrow>
        (\<exists>xs. members_validated inst H xs \<and>
           (inst' = inst \<and> set xs = set (validatedMembers (nssStatus inst)) \<or>
            (StatusUpdate (ONss (with_validated inst xs)), RObj (ONss inst')) \<in> H)))"

lemma members_validated_mono: "members_validated inst H xs \<Longrightarrow> H \<subseteq> H' \<Longrightarrow> members_validated inst H' xs"
  unfolding members_validated_def using validated_mono operator_namespace_read_mono by blast

lemma hwp_UpdateStatus: "hwp (status_request inst) S (status_result inst) (UpdateStatus inst) H"
  unfolding UpdateStatus_def hwp_go_try
proof (rule hwp_getValidatedNamespaces)
  fix H2 xs
  assume v: "members_validated inst H2 xs"
  let ?put = "StatusUpdate (ONss (with_validated inst xs))"
  have request: "status_request inst H2 ?put" if "set xs \<noteq> set (validatedMembers (nssStatus inst))"
    unfolding status_request_def using v that by blast
  have stored: "status_result inst (insert (?put, r) H2) (Done (as_obj the_nss r))" for r
    unfolding status_result_def finishes_def
    using members_validated_mono [OF v subset_insertI [of _ "(?put, r)"]]
    by (auto elim!: as_obj_InrE intro!: exI [of _ xs])
  have same: "status_result inst H2 (Done (Inr inst))" if "set xs = set (validatedMembers (nssStatus inst))"
    unfolding status_result_def finishes_def using v that by blast
  show "and_then (status_result inst H2) (\<lambda>x. case x of Inl e \<Rightarrow> status_result inst H2 (Done (Inl e))
      | Inr xs \<Rightarrow> hwp (status_request inst) S (status_result inst)
          (if \<not> StringSliceContentEqual (validatedMembers (nssStatus inst)) xs
           then put_status (inst\<lparr>nssStatus := (nssStatus inst)\<lparr>validatedMembers := xs\<rparr>\<rparr>)
           else Ret (Inr inst)) H2) (Done (Inr xs))"
    using request stored same
    by (auto simp: put_status_def hwp_call with_validated_def [symmetric])
qed (auto simp: status_request_def status_result_def)

section \<open>Rolling windows\<close>

text \<open>The entry and the history line of one record.\<close>

definition timing_entry :: "time \<Rightarrow> time \<Rightarrow> string \<Rightarrow> operation_timing_entry" where
  "timing_entry startT endT ph =
     \<lparr>startTime = startT, endTime = endT, totalDuration = duration_string (round_second (endT - startT)),
      phase = ph, dependencyTime = []\<rparr>"

definition history_line :: "time \<Rightarrow> err option \<Rightarrow> string" where
  "history_line endT er = format_time endT @ '' '' @
     (case er of Some e \<Rightarrow> err_text e | None \<Rightarrow> ''The last reconciliation was completed successfully.'')"

text \<open>The arguments of one record as \<open>Reconcile\<close> passes them: failed with an error, or completed.\<close>

fun record_one :: "time \<times> time \<times> err option \<Rightarrow> nss_status \<Rightarrow> nss_status" where
  "record_one (startT, endT, er) st =
     record_status startT endT (if er = None then ''Completed'' else ''Failed'') er st"

fun entry_of :: "time \<times> time \<times> err option \<Rightarrow> operation_timing_entry" where
  "entry_of (startT, endT, er) = timing_entry startT endT (if er = None then ''Completed'' else ''Failed'')"

fun line_of :: "time \<times> time \<times> err option \<Rightarrow> string" where
  "line_of (startT, endT, er) = history_line endT er"

text \<open>
  A list field into which every record pushes one line at the front, cut to the \<open>n\<close> latest:
  after any number of records it holds the \<open>n\<close> latest lines, the latest first.
\<close>

locale rolling_window =
  fixes field :: "'s \<Rightarrow> 'e list" and push :: "'r \<Rightarrow> 's \<Rightarrow> 's" and line :: "'r \<Rightarrow> 'e" and n :: nat
  assumes field_push: "field (push r st) = take n (line r # field st)"
begin

lemma take_Cons_take: "take n (x # take n xs) = take n (x # xs)"
  by (cases n) simp_all

lemma field_fold:
  "field (fold push (r # rs) st) = take n (rev (map line (r # rs)) @ field st)"
proof (induction rs rule: rev_induct)
  case Nil
  then show ?case by (simp add: field_push)
next
  case (snoc r' rs)
  then show ?case by (simp add: field_push take_Cons_take del: take_append)
qed

lemma length_field: "length (field (fold push (r # rs) st)) \<le> n"
  unfolding field_fold by simp

end

lemma record_status_timing:
  "operationTiming (record_status s e ph er st) = take 5 (timing_entry s e ph # operationTiming st)"
  by (simp add: record_status_def Let_def timing_entry_def split: option.split)

lemma record_one_history:
  "reconcileHistory (record_one r st) = take 3 (line_of r # reconcileHistory st)"
  by (cases r) (simp add: record_status_def Let_def new_history_take history_line_def split: option.split)

interpretation timing: rolling_window operationTiming record_one entry_of 5
proof unfold_locales
  show "operationTiming (record_one r st) = take 5 (entry_of r # operationTiming st)" for r st
    by (cases r) (simp add: record_status_timing)
qed

interpretation lines: rolling_window reconcileHistory record_one line_of 3
  by unfold_locales (rule record_one_history)

section \<open>Recording in the cluster\<close>

text \<open>
  The record of a reconciliation: the status of the latest instance is written with the record
  pushed in front, and nothing else is written. \<open>er\<close> is the error that is recorded.
\<close>

definition record_request :: "key \<Rightarrow> time \<Rightarrow> string \<Rightarrow> err option \<Rightarrow> history \<Rightarrow> request \<Rightarrow> bool" where
  "record_request k startT ph er H q \<longleftrightarrow>
     (is_write q \<longrightarrow>
        (\<exists>latest endT r. q = StatusUpdate (ONss (latest\<lparr>nssStatus := record_status startT endT ph er (nssStatus latest)\<rparr>)) \<and>
           (Get Cached KNss k, RObj (ONss latest)) \<in> H \<and> (Now, r) \<in> H \<and> endT = as_time r))"

text \<open>The record was written, or the latest instance could not be read.\<close>

definition recorded :: "key \<Rightarrow> time \<Rightarrow> string \<Rightarrow> err option \<Rightarrow> history \<Rightarrow> bool" where
  "recorded k startT ph er H \<longleftrightarrow>
     (\<exists>latest endT r. (Get Cached KNss k, RObj (ONss latest)) \<in> H \<and>
        (StatusUpdate (ONss (latest\<lparr>nssStatus := record_status startT endT ph er (nssStatus latest)\<rparr>)), r) \<in> H) \<or>
     (\<exists>r e. (Get Cached KNss k, r) \<in> H \<and> as_obj the_nss r = Inl e)"

lemma recorded_mono: "recorded k s ph er H \<Longrightarrow> H \<subseteq> H' \<Longrightarrow> recorded k s ph er H'"
  unfolding recorded_def by blast

lemma hwp_record:
  assumes "\<And>H' q. H \<subseteq> H' \<Longrightarrow> record_request (nss_key inst) startT ph er H' q \<Longrightarrow> P H' q"
    and "\<And>H'. H \<subseteq> H' \<Longrightarrow> recorded (nss_key inst) startT ph er H' \<Longrightarrow> Q H' (Done ())"
  shows "hwp P S Q (recordOperationTimingAndStatus inst startT ph msg er) H"
proof -
  let ?get = "Get Cached KNss (nss_key inst)"
  have read: "P H' q" if "H \<subseteq> H'" "\<not> is_write q" for H' q
    using that by (intro assms(1)) (simp_all add: record_request_def)
  have "hwp P S Q (case as_obj the_nss r of Inl e \<Rightarrow> Ret ()
      | Inr latest \<Rightarrow> bind (put_status (latest\<lparr>nssStatus :=
          record_status startT (as_time r0) ph er (nssStatus latest)\<rparr>)) (\<lambda>_. Ret ()))
      (insert (?get, r) (insert (Now, r0) H))" for r r0
  proof (cases "as_obj the_nss r")
    case (Inl e)
    have "recorded (nss_key inst) startT ph er (insert (?get, r) (insert (Now, r0) H))"
      unfolding recorded_def using Inl by blast
    then show ?thesis unfolding Inl sum.case hwp.simps by (intro assms(2)) auto
  next
    case (Inr latest)
    then have r: "r = RObj (ONss latest)" by (auto elim: as_obj_InrE)
    let ?put = "StatusUpdate (ONss (latest\<lparr>nssStatus := record_status startT (as_time r0) ph er (nssStatus latest)\<rparr>))"
    let ?H = "insert (?get, r) (insert (Now, r0) H)"
    have "record_request (nss_key inst) startT ph er ?H ?put"
      unfolding record_request_def r by blast
    moreover have "recorded (nss_key inst) startT ph er (insert (?put, r') ?H)" for r'
      unfolding recorded_def r by blast
    ultimately show ?thesis
      unfolding Inr sum.case put_status_def bind_call hwp.simps
      by (intro conjI allI assms) auto
  qed
  then show ?thesis
    using read [of H Now] read [of "insert (Now, r) H" ?get for r]
    by (auto simp: recordOperationTimingAndStatus_def bind_call)
qed

section \<open>Unprojected roles\<close>

definition with_unprojected :: "nss \<Rightarrow> string list \<Rightarrow> nss" where
  "with_unprojected inst xs = inst\<lparr>nssStatus := (nssStatus inst)\<lparr>unprojectedRoles := xs\<rparr>\<rparr>"

definition unprojected_request :: "nss \<Rightarrow> string list \<Rightarrow> history \<Rightarrow> request \<Rightarrow> bool" where
  "unprojected_request inst roles H q \<longleftrightarrow>
     (is_write q \<longrightarrow>
        (\<exists>xs. q = StatusUpdate (ONss (with_unprojected inst xs)) \<and> set xs = set roles \<and> distinct xs \<and>
           xs \<noteq> unprojectedRoles (nssStatus inst)))"

definition unprojected_result :: "nss \<Rightarrow> string list \<Rightarrow> history \<Rightarrow> (err + nss) outcome \<Rightarrow> bool" where
  "unprojected_result inst roles H oc \<longleftrightarrow>
     finishes oc \<and>
     (\<forall>inst'. oc = Done (Inr inst') \<longrightarrow>
        inst' = inst \<and> set (unprojectedRoles (nssStatus inst)) = set roles \<or>
        (\<exists>xs. set xs = set roles \<and>
           (StatusUpdate (ONss (with_unprojected inst xs)), RObj (ONss inst')) \<in> H))"

lemma hwp_UpdateUnprojectedRolesStatus:
  "hwp (unprojected_request inst roles) S (unprojected_result inst roles) (UpdateUnprojectedRolesStatus inst roles) H"
proof -
  have put: "hwp (unprojected_request inst roles) S (unprojected_result inst roles)
      (put_status (inst\<lparr>nssStatus := (nssStatus inst)\<lparr>unprojectedRoles := xs\<rparr>\<rparr>)) H2"
    if "set xs = set roles" "distinct xs" "xs \<noteq> unprojectedRoles (nssStatus inst)" for xs H2
  proof -
    let ?put = "StatusUpdate (ONss (with_unprojected inst xs))"
    have "unprojected_request inst roles H2 ?put"
      unfolding unprojected_request_def using that by blast
    moreover have "unprojected_result inst roles (insert (?put, r) H2) (Done (as_obj the_nss r))" for r
      unfolding unprojected_result_def finishes_def using that(1)
      by (auto elim!: as_obj_InrE intro!: exI [of _ xs])
    ultimately show ?thesis
      by (simp add: put_status_def hwp_call with_unprojected_def)
  qed
  have same: "unprojected_result inst roles H2 (Done (Inr inst))"
    if "set (unprojectedRoles (nssStatus inst)) = set roles" for H2
    unfolding unprojected_result_def finishes_def using that by blast
  show ?thesis
  proof (cases "roles = []")
    case True
    then show ?thesis
      using put [of "[]" H] same [of H] by (auto simp: UpdateUnprojectedRolesStatus_def)
  next
    case False
    have "hwp (unprojected_request inst roles) S (unprojected_result inst roles)
       (if \<not> StringSliceContentEqual (unprojectedRoles (nssStatus inst)) xs
        then put_status (inst\<lparr>nssStatus := (nssStatus inst)\<lparr>unprojectedRoles := xs\<rparr>\<rparr>)
        else Ret (Inr inst)) H2" if "set xs = set roles" "distinct xs" for xs H2
      using that put [OF that] same by auto
    with False show ?thesis
      by (auto simp: UpdateUnprojectedRolesStatus_def ToStringSlice_def bind_call unprojected_request_def
          split del: if_split)
  qed
qed

section \<open>Properties\<close>

text \<open>
  C26: \<open>UpdateStatus\<close> validates the members. The validated members are the members of the spec, in
  their order, without those of which it was read that they do not exist or are terminating; the
  operator's own namespace always counts, and without the permission to read namespaces every
  member does. The status is written only when the set of validated members changes, with no
  other field touched.
\<close>

theorem UpdateStatus_validates:
  "ensures (UpdateStatus inst) (status_request inst) (status_result inst)"
  by (rule ensuresI) (rule hwp_UpdateStatus)

text \<open>
  C27: the status reports the unprojected roles. \<open>UpdateUnprojectedRolesStatus\<close> ends with a status
  whose unprojected roles are the given ones as a set, written without duplicates and only when
  they changed; an empty list clears the field.
\<close>

theorem UpdateUnprojectedRolesStatus_reports:
  "ensures (UpdateUnprojectedRolesStatus inst roles) (unprojected_request inst roles)
     (unprojected_result inst roles)"
  by (rule ensuresI) (rule hwp_UpdateUnprojectedRolesStatus)

text \<open>
  C28: history and timing are rolling windows. After any sequence of recorded reconciliations the
  timing holds the entries of the 5 latest, and the history the lines of the 3 latest, latest
  first, and what was there before the sequence only fills up what is left.
\<close>

theorem record_windows:
  "operationTiming (fold record_one (r # rs) st) =
     take 5 (rev (map entry_of (r # rs)) @ operationTiming st) \<and>
   reconcileHistory (fold record_one (r # rs) st) =
     take 3 (rev (map line_of (r # rs)) @ reconcileHistory st)"
  by (intro conjI timing.field_fold lines.field_fold)

text \<open>
  C29: a record is written to the latest instance. \<open>recordOperationTimingAndStatus\<close> reads the
  instance again and writes its status with the phase, the error and the timing of this
  reconciliation, and nothing else; it always returns, and nothing is written only if the
  instance cannot be read.
\<close>

theorem record_is_written:
  "ensures (recordOperationTimingAndStatus inst startT ph msg er)
     (record_request (nss_key inst) startT ph er)
     (\<lambda>H oc. oc = Done () \<and> recorded (nss_key inst) startT ph er H)"
  by (rule ensuresI, rule hwp_record) simp_all

text \<open>The end of the last reconciliation a status tells of.\<close>

definition last_end :: "nss_status \<Rightarrow> time option" where
  "last_end st = (case operationTiming st of [] \<Rightarrow> None | e # es \<Rightarrow> Some (endTime e))"

definition moves_on :: "key \<Rightarrow> history \<Rightarrow> request \<Rightarrow> bool" where
  "moves_on k H q \<longleftrightarrow>
     (\<forall>m. q = StatusUpdate (ONss m) \<longrightarrow>
        (\<exists>n r. (Get Cached KNss k, RObj (ONss n)) \<in> H \<and> (Now, r) \<in> H \<and> m = n\<lparr>nssStatus := nssStatus m\<rparr> \<and>
           last_end (nssStatus m) = Some (as_time r) \<and>
           (nssStatus m = nssStatus n \<longrightarrow> last_end (nssStatus n) = Some (as_time r))))"

lemma last_end_record: "last_end (record_status s e ph er st) = Some e"
  by (simp add: last_end_def record_status_def Let_def)

text \<open>
  C30: the operator does not come to rest. Every status that \<open>recordOperationTimingAndStatus\<close>
  writes ends with the time of the clock, and differs from the one it read unless the clock has
  stood still since the last record: each reconciliation, also one that found nothing to do,
  changes the instance that the first controller watches without a filter.
\<close>

theorem record_never_quiet:
  "ensures (recordOperationTimingAndStatus inst startT ph msg er) (moves_on (nss_key inst)) (\<lambda>_. finishes)"
proof (rule ensuresI)
  have "moves_on (nss_key inst) (insert (Get Cached KNss (nss_key inst), RObj (ONss n)) (insert (Now, r) H))
      (StatusUpdate (ONss (n\<lparr>nssStatus := record_status startT (as_time r) ph er (nssStatus n)\<rparr>)))" for n r H
    unfolding moves_on_def
    by (intro allI impI exI [of _ n] exI [of _ r]) (use last_end_record [of startT "as_time r" ph er "nssStatus n"] in auto)
  then show "hwp (moves_on (nss_key inst)) (\<lambda>_ _. False) (\<lambda>_. finishes)
      (recordOperationTimingAndStatus inst startT ph msg er) {}"
    by (auto simp: recordOperationTimingAndStatus_def put_status_def bind_call bind_assoc moves_on_def [of _ _ Now]
        moves_on_def [of _ _ "Get _ _ _"] split: sum.split elim!: as_obj_InrE)
qed

text \<open>
  C34: \<open>CheckListDifference\<close> compares slices as multisets: it reports a difference if and only if
  some string occurs a different number of times; the slices it leaves behind are sorted when the
  lengths agree, and untouched otherwise.
\<close>

theorem CheckListDifference_multiset:
  "CheckListDifference a b =
     (mset a \<noteq> mset b,
      if length a = length b then sort a else a, if length a = length b then sort b else b)"
  using CheckListDifference_iff [of a b] by (auto simp: CheckListDifference_def Let_def)

text \<open>
  The label value of an instance is one Kubernetes accepts: it has at most 63 characters, it
  is a prefix of the name it is cut from, and where it was cut it does not end in \<open>-\<close>, \<open>_\<close> or \<open>.\<close>.
\<close>

theorem configmap_label_value_bounds:
  "length (configmap_label_value inst) \<le> 63 \<and>
   (\<exists>rest. configmapName (spec inst) @ ''-'' @ nss_namespace inst = configmap_label_value inst @ rest) \<and>
   configmap_label_value inst \<in> {configmapName (spec inst) @ ''-'' @ nss_namespace inst, []} \<union>
     {v. last v \<notin> set ''-_.''}"
  (is "?a \<and> ?b \<and> ?c")
proof (intro conjI)
  show ?a by (simp add: configmap_label_value_def GetFirstNCharacter_length)
  show ?b unfolding configmap_label_value_def by (rule GetFirstNCharacter_prefix)
  let ?s = "configmapName (spec inst) @ ''-'' @ nss_namespace inst"
  show ?c
  proof (cases "63 < length ?s")
    case True
    then show ?thesis
      unfolding configmap_label_value_def using GetFirstNCharacter_last [OF True] by blast
  next
    case False
    then show ?thesis by (simp add: configmap_label_value_def GetFirstNCharacter_def)
  qed
qed

text \<open>
  Two instances of one namespace share a label value only if they share the ConfigMap name,
  as long as nothing is cut off: the removal for one never selects the other's objects.
\<close>

theorem configmap_label_value_injective:
  assumes "length (configmapName (spec a)) + length (nss_namespace a) < 63"
    "length (configmapName (spec b)) + length (nss_namespace b) < 63"
    "nss_namespace a = nss_namespace b"
  shows "configmap_label_value a = configmap_label_value b \<longleftrightarrow> configmapName (spec a) = configmapName (spec b)"
  using assms by (simp add: configmap_label_value_def GetFirstNCharacter_def)

theorem configmap_label_value_injective_witness:
  "configmap_label_value sample_nss = configmap_label_value (sample_nss\<lparr>spec := (spec sample_nss)\<lparr>configmapName := ''other''\<rparr>\<rparr>)
     \<longleftrightarrow> ''namespace-scope'' = ''other''"
  using configmap_label_value_injective [of sample_nss "sample_nss\<lparr>spec := (spec sample_nss)\<lparr>configmapName := ''other''\<rparr>\<rparr>"]
  by (simp add: sample_nss_def new_meta_def)

text \<open>
  Names and label values as Kubernetes wants them: a DNS subdomain name, and a label value of at
  most 63 characters. (The name of a ConfigMap may have 253.)
\<close>

definition alnum :: "char list" where
  "alnum = ''abcdefghijklmnopqrstuvwxyz0123456789''"

definition dns_name :: "string \<Rightarrow> bool" where
  "dns_name s \<longleftrightarrow> s \<noteq> [] \<and> hd s \<in> set alnum \<and> last s \<in> set alnum \<and> set s \<subseteq> set (alnum @ ''-.'')"

definition label_value :: "string \<Rightarrow> bool" where
  "label_value v \<longleftrightarrow> length v \<le> 63 \<and> (v = [] \<or> hd v \<in> set alnum \<and> last v \<in> set alnum) \<and> set v \<subseteq> set (alnum @ ''-_.'')"

lemma alnum_not_separator: "c \<in> set alnum \<Longrightarrow> c \<notin> set ''-_.''"
  by (auto simp: alnum_def)

lemma trim_right_hd:
  assumes "s \<noteq> []" "hd s \<notin> set cs"
  shows "trim_right cs s \<noteq> [] \<and> hd (trim_right cs s) = hd s"
proof -
  obtain t where t: "s = trim_right cs s @ t" "set t \<subseteq> set cs"
    using trim_right_prefix by blast
  with assms have "trim_right cs s \<noteq> []"
    by (metis append_Nil hd_in_set subsetD)
  then show ?thesis using t(1) by (metis hd_append2)
qed

lemma label_value_first_characters:
  assumes "s \<noteq> []" "hd s \<in> set alnum" "last s \<in> set alnum" "set s \<subseteq> set (alnum @ ''-_.'')"
  shows "label_value (GetFirstNCharacter s 63)"
proof (cases "63 < length s")
  case False
  then show ?thesis using assms by (simp add: GetFirstNCharacter_def label_value_def)
next
  case True
  let ?v = "GetFirstNCharacter s 63"
  have v: "?v = trim_right ''-_.'' (take 63 s)" using True by (simp add: GetFirstNCharacter_def)
  have "take 63 s \<noteq> []" "hd (take 63 s) \<notin> set ''-_.''"
    using assms(1) alnum_not_separator [OF assms(2)] by (auto simp: hd_take)
  from trim_right_hd [OF this] have hd: "?v \<noteq> []" "hd ?v \<in> set alnum"
    using assms(1,2) by (auto simp: v hd_take)
  have chars: "set ?v \<subseteq> set (alnum @ ''-_.'')"
    using GetFirstNCharacter_prefix [of s 63] assms(4) by (metis UnCI set_append subset_eq)
  then have "last ?v \<in> set alnum"
    using last_in_set [OF hd(1)] GetFirstNCharacter_last [OF True hd(1)] by (auto simp del: list.set)
  then show ?thesis
    using hd chars GetFirstNCharacter_length [of s 63] unfolding label_value_def by blast
qed

lemma dns_name_label: "dns_name s \<Longrightarrow> label_value s \<longleftrightarrow> length s \<le> 63"
  by (auto simp: dns_name_def label_value_def)

text \<open>
  C35: the labels of projected objects are well formed for an instance with a valid ConfigMap name
  and namespace exactly when the ConfigMap name has at most 63 characters: the value for the
  ConfigMap is cut off at a valid place, but the value of \<open>app.kubernetes.io/name\<close> is not cut.
\<close>

theorem projected_labels_well_formed:
  assumes "dns_name (configmapName (spec inst))" "dns_name (nss_namespace inst)"
  shows "list_all (\<lambda>(k, v). label_value v) (projected_labels inst) \<longleftrightarrow> length (configmapName (spec inst)) \<le> 63"
proof -
  have "label_value (configmap_label_value inst)"
    unfolding configmap_label_value_def
    by (rule label_value_first_characters) (use assms in \<open>auto simp: dns_name_def\<close>)
  moreover have "label_value ''namespace-scope''" "label_value ''ibm-namespace-scope-operator''"
    by (simp_all add: label_value_def alnum_def)
  ultimately show ?thesis
    using dns_name_label [OF assms(1)] by (simp add: projected_labels_def)
qed

theorem projected_labels_well_formed_witness:
  "list_all (\<lambda>(k, v). label_value v) (projected_labels sample_nss)"
proof -
  have "dns_name ''namespace-scope''" "dns_name ''ibm-common-services''"
    by (simp_all add: dns_name_def alnum_def)
  then show ?thesis
    using projected_labels_well_formed [of sample_nss] by (simp add: sample_nss_def new_meta_def)
qed

end
