(* ===== verification/Csv_Injection.thy ===== *)
theory Csv_Injection
  imports Namespace_Status
begin

text \<open>
  \<open>CSVReconcile\<close> of \<open>namespacescope_controller.go\<close>: the restart labels and the
  \<open>WATCH_NAMESPACE\<close> variable are injected into the deployments of the managed
  ClusterServiceVersions, the webhook configurations of marked ones are scoped to the member
  namespaces, and the four lists of the status are brought up to date.

  \<open>podTemplate := deploy.Spec.Template\<close> copies the struct: a label map that exists and the slice
  of containers are shared with the original, a label map made for the copy is not.
\<close>

section \<open>Injection into a pod template\<close>

definition watch_namespace :: string where
  "watch_namespace = ''WATCH_NAMESPACE''"

definition configmap_env :: "string \<Rightarrow> env_var" where
  "configmap_env cmName =
     \<lparr>evName = watch_namespace, evValue = [],
      evValueFrom = Some \<lparr>esConfigMapKeyRef =
        Some \<lparr>ckName = cmName, ckKey = ''namespaces'', ckOptional = Some True\<rparr>, esOther = []\<rparr>\<rparr>"

definition env_matches :: "string \<Rightarrow> env_source \<Rightarrow> bool" where
  "env_matches cmName src \<longleftrightarrow>
     (case esConfigMapKeyRef src of
        None \<Rightarrow> False
      | Some ref \<Rightarrow> ckKey ref = ''namespaces'' \<and> ckName ref = cmName)"

text \<open>\<open>env.ValueFrom.ConfigMapKeyRef\<close> with a nil \<open>ValueFrom\<close> is a nil dereference: \<open>None\<close>.\<close>

fun inject_env_loop :: "string \<Rightarrow> env_var list \<Rightarrow> bool \<Rightarrow> (env_var list \<times> bool) option" where
  "inject_env_loop cmName [] found = Some ([], found)"
| "inject_env_loop cmName (env # envs) found =
     (if evName env = watch_namespace then
        (case evValueFrom env of
           None \<Rightarrow> None
         | Some src \<Rightarrow>
             map_option (\<lambda>(es, f). ((if env_matches cmName src then env else configmap_env cmName) # es, f))
               (inject_env_loop cmName envs True))
      else map_option (\<lambda>(es, f). (env # es, f)) (inject_env_loop cmName envs found))"

definition inject_container :: "string \<Rightarrow> container \<Rightarrow> container option" where
  "inject_container cmName c =
     map_option (\<lambda>(es, found). c\<lparr>ctEnv := (if \<not> found then es @ [configmap_env cmName] else es)\<rparr>)
       (inject_env_loop cmName (ctEnv c) False)"

definition inject_template :: "labels \<Rightarrow> string \<Rightarrow> pod_template \<Rightarrow> pod_template option" where
  "inject_template rl cmName t =
     map_option (\<lambda>cs. t\<lparr>ptLabels := map_option (\<lambda>m. map_put_all m rl) (ptLabels t), ptContainers := cs\<rparr>)
       (those (map (inject_container cmName) (ptContainers t)))"

definition inject_deployments :: "labels \<Rightarrow> string \<Rightarrow> deployment_spec list \<Rightarrow> deployment_spec list option" where
  "inject_deployments rl cmName ds =
     those (map (\<lambda>d. map_option (\<lambda>t. d\<lparr>dsTemplate := t\<rparr>) (inject_template rl cmName (dsTemplate d))) ds)"

section \<open>Webhook configurations\<close>

text \<open>
  A patched webhook's selector holds the slice \<open>nsList\<close> itself, and later comparisons sort that
  slice in place: the flag marks such a webhook, and its values are read off when the loop is
  over. A nil slice of values is \<open>None\<close>.
\<close>

definition namespace_selector :: "string list \<Rightarrow> label_selector" where
  "namespace_selector nsList =
     \<lparr>lsMatchLabels = [],
      lsMatchExpressions = Some [\<lparr>rqKey = MatchExpressionsKey, rqOperator = ''In'',
        rqValues = (if nsList = [] then None else Some nsList)\<rparr>]\<rparr>"

primrec hooks_loop :: "webhook list \<Rightarrow> string list \<Rightarrow> (webhook \<times> bool) list
    \<Rightarrow> (err + (webhook \<times> bool) list \<times> string list) proc" where
  "hooks_loop [] nsList acc = Ret (Inr (acc, nsList))"
| "hooks_loop (h # hs) nsList acc =
     (case whNamespaceSelector h of
        None \<Rightarrow> Ret (Inl (PlainErr ''fail to get namespaceSelector''))
      | Some sel \<Rightarrow>
          (case lsMatchExpressions sel of
             None \<Rightarrow> hooks_loop hs nsList (acc @ [(h, True)])
           | Some [] \<Rightarrow> Panic
           | Some (rq # rqs) \<Rightarrow>
               (case rqValues rq of
                  None \<Rightarrow> hooks_loop hs nsList (acc @ [(h, True)])
                | Some namespaces \<Rightarrow>
                    let (differs, namespaces', nsList') = CheckListDifference namespaces nsList;
                        h' = h\<lparr>whNamespaceSelector :=
                               Some (sel\<lparr>lsMatchExpressions := Some (rq\<lparr>rqValues := Some namespaces'\<rparr> # rqs)\<rparr>)\<rparr>
                    in hooks_loop hs nsList' (acc @ [(h', differs)]))))"

definition settle_hooks :: "string list \<Rightarrow> (webhook \<times> bool) list \<Rightarrow> webhook list" where
  "settle_hooks nsList hs =
     map (\<lambda>(h, patched). if patched then h\<lparr>whNamespaceSelector := Some (namespace_selector nsList)\<rparr> else h) hs"

text \<open>\<open>patchMutatingWebhook\<close> and \<open>patchValidatingWebhook\<close> differ in the type of object only. The
  result is the namespace list as the comparisons left it.\<close>

definition patchWebhookConfig ::
  "(webhook_config \<Rightarrow> obj) \<Rightarrow> webhook_config \<Rightarrow> string list \<Rightarrow> (err + string list) proc" where
  "patchWebhookConfig mk wc nsList =
     go_try (hooks_loop (wcWebhooks wc) nsList []) (\<lambda>(hs, nsList').
       go_try (call (Update (mk (wc\<lparr>wcWebhooks := settle_hooks nsList' hs\<rparr>))) as_unit) (\<lambda>_.
         Ret (Inr nsList')))"

abbreviation patchMutatingWebhook :: "webhook_config \<Rightarrow> string list \<Rightarrow> (err + string list) proc" where
  "patchMutatingWebhook \<equiv> patchWebhookConfig OMutatingWebhook"

abbreviation patchValidatingWebhook :: "webhook_config \<Rightarrow> string list \<Rightarrow> (err + string list) proc" where
  "patchValidatingWebhook \<equiv> patchWebhookConfig OValidatingWebhook"

definition owner_selector :: "string \<Rightarrow> string \<Rightarrow> labels" where
  "owner_selector csvName csvNs =
     [(''olm.owner'', csvName), (''olm.owner.kind'', ''ClusterServiceVersion''), (''olm.owner.namespace'', csvNs)]"

definition getWebhooks ::
  "string \<Rightarrow> string \<Rightarrow> (err + webhook_config list \<times> webhook_config list) proc" where
  "getWebhooks csvName csvNs =
     go_try (call (ListOf Cached KValidatingWebhook [] (owner_selector csvName csvNs))
               (as_list the_validating_webhook)) (\<lambda>vs.
     go_try (call (ListOf Cached KMutatingWebhook [] (owner_selector csvName csvNs))
               (as_list the_mutating_webhook)) (\<lambda>ms.
       Ret (Inr (ms, vs))))"

text \<open>The state of the outer loops: the four lists and the shared namespace list.\<close>

record injection_state =
  isManagedCSV :: "string list"
  isPatchedCSV :: "string list"
  isManagedWebhook :: "string list"
  isPatchedWebhook :: "string list"
  isMembers :: "string list"

primrec patch_configs :: "(webhook_config \<Rightarrow> obj) \<Rightarrow> webhook_config list \<Rightarrow> injection_state
    \<Rightarrow> (err + injection_state) proc" where
  "patch_configs mk [] st = Ret (Inr st)"
| "patch_configs mk (wc # wcs) st =
     go_try (patchWebhookConfig mk wc (isMembers st)) (\<lambda>nsList.
       patch_configs mk wcs (st\<lparr>
         isManagedWebhook := isManagedWebhook st @ [omName (wcMeta wc)],
         isPatchedWebhook := isPatchedWebhook st @ [omName (wcMeta wc)],
         isMembers := nsList\<rparr>))"

definition patchWebhook :: "nss \<Rightarrow> csv \<Rightarrow> injection_state \<Rightarrow> (err + injection_state) proc" where
  "patchWebhook inst c st =
     go_try (getWebhooks (omName (csvMeta c)) (nss_namespace inst)) (\<lambda>(ms, vs).
     go_try (patch_configs OMutatingWebhook ms st) (\<lambda>st1.
       patch_configs OValidatingWebhook vs st1))"

section \<open>The ClusterServiceVersions\<close>

definition patch_csv :: "pkg \<Rightarrow> nss \<Rightarrow> csv \<Rightarrow> (err + unit) proc" where
  "patch_csv p inst c =
     (if csvStrategyName c \<noteq> ''deployment'' then Ret (Inr ())
      else
        (case inject_deployments (restartLabels (spec inst)) (configmapName (spec inst)) (csvDeployments c) of
           None \<Rightarrow> Panic
         | Some ds \<Rightarrow>
             if pkgSemanticDeepEqual p (csvDeployments c) ds then Ret (Inr ())
             else call (Patch (OCsv (c\<lparr>csvDeployments := ds\<rparr>)) (OCsv c)) as_unit))"

primrec csv_loop :: "pkg \<Rightarrow> nss \<Rightarrow> csv list \<Rightarrow> injection_state \<Rightarrow> (err + injection_state) proc" where
  "csv_loop p inst [] st = Ret (Inr st)"
| "csv_loop p inst (c # cs) st =
     go_try (if map_of (omAnnotations (csvMeta c)) WebhookMark \<noteq> None
             then patchWebhook inst c st else Ret (Inr st)) (\<lambda>st1.
     go_try (patch_csv p inst c) (\<lambda>_.
       csv_loop p inst cs st1))"

definition package_label :: "nss \<Rightarrow> string \<Rightarrow> string" where
  "package_label inst packageName =
     ''operators.coreos.com/'' @ GetFirstNCharacter (packageName @ ''.'' @ nss_namespace inst) 63"

primrec package_loop :: "pkg \<Rightarrow> nss \<Rightarrow> string list \<Rightarrow> injection_state \<Rightarrow> (err + injection_state) proc" where
  "package_loop p inst [] st = Ret (Inr st)"
| "package_loop p inst (packageName # rest) st =
     (let st1 = st\<lparr>isManagedCSV := isManagedCSV st @ [packageName]\<rparr> in
      go_try (call (ListOf Cached KCsv [] [(package_label inst packageName, [])]) (as_list the_csv)) (\<lambda>cs.
        if length cs = 0 then package_loop p inst rest st1
        else
          go_try (csv_loop p inst cs (st1\<lparr>isPatchedCSV := isPatchedCSV st1 @ [packageName]\<rparr>)) (\<lambda>st2.
            package_loop p inst rest st2)))"

fun candidate_packages :: "csv list \<Rightarrow> string list \<Rightarrow> string list" where
  "candidate_packages [] acc = acc"
| "candidate_packages (c # cs) acc =
     (case map_of (omAnnotations (csvMeta c)) InjectorMark of
        None \<Rightarrow> candidate_packages cs acc
      | Some packages \<Rightarrow> candidate_packages cs (acc @ split_on CHR '','' packages))"

section \<open>The status lists\<close>

text \<open>One list of the status against the one computed: both may be sorted in place.\<close>

definition merge_list :: "string list \<Rightarrow> string list \<Rightarrow> string list" where
  "merge_list current computed =
     (case CheckListDifference current computed of
        (differs, current', computed') \<Rightarrow> if differs then computed' else current')"

definition merge_lists :: "nss_status \<Rightarrow> injection_state \<Rightarrow> nss_status" where
  "merge_lists s st =
     s\<lparr>managedCSVList := merge_list (managedCSVList s) (isManagedCSV st),
       patchedCSVList := merge_list (patchedCSVList s) (isPatchedCSV st),
       managedWebhookList := merge_list (managedWebhookList s) (isManagedWebhook st),
       patchedWebhookList := merge_list (patchedWebhookList s) (isPatchedWebhook st)\<rparr>"

text \<open>The method \<open>CheckListDifference\<close> of the reconciler. What follows the patch is logging.\<close>

definition CheckStatusLists :: "nss \<Rightarrow> nss \<Rightarrow> injection_state \<Rightarrow> (err + nat) proc" where
  "CheckStatusLists inst originalInstance st =
     (let inst' = inst\<lparr>nssStatus := merge_lists (nssStatus inst) st\<rparr> in
      if nssStatus originalInstance = nssStatus inst' then Ret (Inr 180)
      else go_try (call (StatusPatch (ONss inst') (ONss originalInstance)) as_unit) (\<lambda>_. Ret (Inr 180)))"

section \<open>The handler\<close>

text \<open>The result is the requeue delay in seconds, 0 for none.\<close>

definition CSVReconcile :: "pkg \<Rightarrow> reconciler \<Rightarrow> key \<Rightarrow> (err + nat) proc" where
  "CSVReconcile p rc req =
     bind (call (Get Cached KNss req) (as_obj the_nss)) (\<lambda>x.
       case x of
         Inl e \<Rightarrow> if is_not_found e then Ret (Inr 0) else Ret (Inl e)
       | Inr originalInstance \<Rightarrow>
           if \<not> enable (csvInjector (spec originalInstance)) then Ret (Inr 0)
           else
             let inst = setDefaults originalInstance in
             if \<not> hasOLMAPI rc then Ret (Inr 180)
             else
               go_try (call (ListOf Cached KCsv [] []) (as_list the_csv)) (\<lambda>csvs.
               let candidateSet = MakeSet (candidate_packages csvs []) in
               go_try (getAllValidatedNamespaceMembers inst) (\<lambda>members.
               bind (ToStringSlice candidateSet) (\<lambda>packages.
               go_try (package_loop p inst packages
                  \<lparr>isManagedCSV = [], isPatchedCSV = [], isManagedWebhook = [], isPatchedWebhook = [],
                   isMembers = members\<rparr>) (\<lambda>st.
               go_try (CheckStatusLists inst originalInstance st) (\<lambda>_. Ret (Inr 180)))))))"

section \<open>Watches\<close>

text \<open>
  \<open>csvtoRequest\<close>, \<open>validatingwebhookconfigtoRequest\<close> and \<open>mutatingwebhookconfigtoRequest\<close> have
  the same body: every instance of the object's namespace is enqueued, none when the list fails.
\<close>

definition map_to_requests :: "object_meta \<Rightarrow> key list proc" where
  "map_to_requests m =
     bind (call (ListOf Cached KNss (omNamespace m) []) (as_list the_nss)) (\<lambda>x.
       case x of Inl e \<Rightarrow> Ret [] | Inr items \<Rightarrow> Ret (map nss_key items))"

end
