(* ===== verification/Csv_Properties.thy ===== *)
theory Csv_Properties
  imports Cleanup_Properties Csv_Injection
begin

text \<open>
  The injection into ClusterServiceVersions against its contract: what it does to the containers
  and labels of a pod template, that it is idempotent, where it panics, on what grounds anything
  is written at all, and how the lists of the status follow the lists computed.
\<close>

section \<open>Environment variables\<close>

definition watches :: "env_var \<Rightarrow> bool" where
  "watches e \<longleftrightarrow> evName e = watch_namespace"

definition refers_to :: "string \<Rightarrow> env_var \<Rightarrow> bool" where
  "refers_to cmName e \<longleftrightarrow> (\<exists>src. evValueFrom e = Some src \<and> env_matches cmName src)"

definition fix_env :: "string \<Rightarrow> env_var \<Rightarrow> env_var" where
  "fix_env cmName e = (if watches e \<and> \<not> refers_to cmName e then configmap_env cmName else e)"

text \<open>The variable is there without a source: the nil dereference.\<close>

definition bare_watch :: "env_var list \<Rightarrow> bool" where
  "bare_watch envs \<longleftrightarrow> (\<exists>e \<in> set envs. watches e \<and> evValueFrom e = None)"

lemma inject_env_loop_eq:
  "inject_env_loop cmName envs found =
     (if bare_watch envs then None
      else Some (map (fix_env cmName) envs, found \<or> (\<exists>e \<in> set envs. watches e)))"
  by (induction cmName envs found rule: inject_env_loop.induct)
     (auto simp: bare_watch_def fix_env_def watches_def refers_to_def split: option.split)

definition injected_env :: "string \<Rightarrow> env_var list \<Rightarrow> env_var list" where
  "injected_env cmName envs = map (fix_env cmName) envs @
     (if \<exists>e \<in> set envs. watches e then [] else [configmap_env cmName])"

lemma inject_container_eq:
  "inject_container cmName c =
     (if bare_watch (ctEnv c) then None else Some (c\<lparr>ctEnv := injected_env cmName (ctEnv c)\<rparr>))"
  by (simp add: inject_container_def inject_env_loop_eq injected_env_def)

lemma configmap_env_facts [simp]:
  "watches (configmap_env cmName)" "refers_to cmName (configmap_env cmName)"
  "evValueFrom (configmap_env cmName) \<noteq> None"
  by (simp_all add: configmap_env_def watches_def refers_to_def env_matches_def)

lemma fix_env_watches [simp]: "watches (fix_env cmName e) = watches e"
  by (simp add: fix_env_def)

lemma fix_env_refers: "watches e \<Longrightarrow> refers_to cmName (fix_env cmName e)"
  by (simp add: fix_env_def)

lemma fix_env_id: "refers_to cmName e \<or> \<not> watches e \<Longrightarrow> fix_env cmName e = e"
  by (auto simp: fix_env_def)

lemma injected_env_watches:
  "e \<in> set (injected_env cmName envs) \<Longrightarrow> watches e \<Longrightarrow> refers_to cmName e"
  by (auto simp: injected_env_def fix_env_refers split: if_splits)

lemma injected_env_some: "\<exists>e \<in> set (injected_env cmName envs). watches e"
  by (auto simp: injected_env_def)

lemma injected_env_others:
  "filter (\<lambda>e. \<not> watches e) (injected_env cmName envs) = filter (\<lambda>e. \<not> watches e) envs"
proof -
  have "filter (\<lambda>e. \<not> watches e) (map (fix_env cmName) envs) = filter (\<lambda>e. \<not> watches e) envs"
    by (induction envs) (auto simp: fix_env_id)
  then show ?thesis
    by (simp add: injected_env_def)
qed

lemma injected_env_idem: "injected_env cmName (injected_env cmName envs) = injected_env cmName envs"
proof -
  have "map (fix_env cmName) (injected_env cmName envs) = injected_env cmName envs"
    by (rule map_idI) (use injected_env_watches fix_env_id in blast)
  then show ?thesis
    unfolding injected_env_def [of cmName "injected_env cmName envs"] using injected_env_some by simp
qed

lemma injected_env_sourced: "\<not> bare_watch (injected_env cmName envs)"
  unfolding bare_watch_def using injected_env_watches by (fastforce simp: refers_to_def)

lemma inject_container_idem: "inject_container cmName c = Some c' \<Longrightarrow> inject_container cmName c' = Some c'"
  by (auto simp: inject_container_eq injected_env_idem injected_env_sourced split: if_splits)

section \<open>Labels\<close>

lemma map_put_put [simp]: "map_put (map_put m k a) k b = map_put m k b"
  by (induction m k a rule: map_put.induct) auto

lemma map_put_commute:
  "k \<noteq> k' \<Longrightarrow> k \<in> fst ` set m \<Longrightarrow> map_put (map_put m k a) k' b = map_put (map_put m k' b) k a"
  by (induction m k a rule: map_put.induct) auto

lemma map_put_keys [simp]: "fst ` set (map_put m k v) = insert k (fst ` set m)"
  by (induction m k v rule: map_put.induct) auto

lemma map_put_all_keys: "fst ` set (map_put_all m rl) = fst ` set m \<union> fst ` set rl"
proof (induction rl arbitrary: m)
  case (Cons kv rl)
  then show ?case by (cases kv) simp
qed simp

lemma map_put_all_put:
  "k \<in> fst ` set m \<Longrightarrow> map_put_all (map_put m k v) rl =
     (if k \<in> fst ` set rl then map_put_all m rl else map_put (map_put_all m rl) k v)"
proof (induction rl arbitrary: m)
  case (Cons kv rl)
  obtain k' v' where kv: "kv = (k', v')" by (cases kv)
  show ?case
  proof (cases "k' = k")
    case True
    then show ?thesis by (simp add: kv)
  next
    case False
    then show ?thesis
      using Cons.IH [of "map_put m k' v'"] Cons.prems map_put_commute [of k k' m v v']
      by (auto simp: kv)
  qed
qed simp

lemma map_of_put_all: "k \<notin> fst ` set rl \<Longrightarrow> map_of (map_put_all m rl) k = map_of m k"
  by (induction rl arbitrary: m) auto

lemma map_put_all_idem: "map_put_all (map_put_all m rl) rl = map_put_all m rl"
proof (induction rl arbitrary: m)
  case (Cons kv rl)
  obtain k v where kv: "kv = (k, v)" by (cases kv)
  let ?X = "map_put_all (map_put m k v) rl"
  have k: "k \<in> fst ` set ?X" by (simp add: map_put_all_keys)
  have "map_put_all (map_put ?X k v) rl = ?X"
  proof (cases "k \<in> fst ` set rl")
    case True
    then show ?thesis using map_put_all_put [OF k, of v rl] Cons.IH [of "map_put m k v"] by simp
  next
    case False
    then have "map_of ?X k = Some v" by (simp add: map_of_put_all)
    with False show ?thesis
      using map_put_all_put [OF k, of v rl] Cons.IH [of "map_put m k v"] by (simp add: map_put_same)
  qed
  then show ?case by (simp add: kv)
qed simp

section \<open>Templates and deployments\<close>

lemma those_idem:
  "(\<And>x y. f x = Some y \<Longrightarrow> f y = Some y) \<Longrightarrow> those (map f xs) = Some ys \<Longrightarrow> those (map f ys) = Some ys"
proof (induction xs arbitrary: ys)
  case (Cons x xs)
  then show ?case by (auto split: option.splits)
qed simp

lemma inject_template_idem: "inject_template rl cmName t = Some t' \<Longrightarrow> inject_template rl cmName t' = Some t'"
  using those_idem [OF inject_container_idem]
  by (auto simp: inject_template_def map_put_all_idem option.map_comp o_def intro!: pod_template.equality)

lemma inject_deployments_idem:
  "inject_deployments rl cmName ds = Some ds' \<Longrightarrow> inject_deployments rl cmName ds' = Some ds'"
  unfolding inject_deployments_def
  by (rule those_idem) (auto dest: inject_template_idem)

section \<open>Grounds for a write\<close>

text \<open>The instance was read with the injector enabled, and the API group of OLM is there.\<close>

definition injector_on :: "reconciler \<Rightarrow> key \<Rightarrow> history \<Rightarrow> nss \<Rightarrow> bool" where
  "injector_on rc req H n \<longleftrightarrow>
     (Get Cached KNss req, RObj (ONss n)) \<in> H \<and> enable (csvInjector (spec n)) \<and> hasOLMAPI rc"

text \<open>The object was listed.\<close>

definition listed :: "history \<Rightarrow> kind \<Rightarrow> string \<Rightarrow> labels \<Rightarrow> obj \<Rightarrow> bool" where
  "listed H k ns l ob \<longleftrightarrow> (\<exists>obs. (ListOf Cached k ns l, RList obs) \<in> H \<and> ob \<in> set obs)"

text \<open>The package is named by the annotation of a CSV, and the CSV belongs to such a package.\<close>

definition managed_package :: "history \<Rightarrow> string \<Rightarrow> bool" where
  "managed_package H package \<longleftrightarrow>
     (\<exists>c packages. listed H KCsv [] [] (OCsv c) \<and> map_of (omAnnotations (csvMeta c)) InjectorMark = Some packages \<and>
        package \<in> set (split_on CHR '','' packages))"

definition managed_csv :: "nss \<Rightarrow> history \<Rightarrow> csv \<Rightarrow> bool" where
  "managed_csv n H c \<longleftrightarrow>
     (\<exists>package. managed_package H package \<and> listed H KCsv [] [(package_label n package, [])] (OCsv c))"

text \<open>The webhook configuration was made by OLM for a managed CSV that asks for it.\<close>

definition owned_config :: "nss \<Rightarrow> history \<Rightarrow> kind \<Rightarrow> (webhook_config \<Rightarrow> obj) \<Rightarrow> webhook_config \<Rightarrow> bool" where
  "owned_config n H k mk wc \<longleftrightarrow>
     (k, mk) \<in> {(KMutatingWebhook, OMutatingWebhook), (KValidatingWebhook, OValidatingWebhook)} \<and>
     (\<exists>c. managed_csv n H c \<and> map_of (omAnnotations (csvMeta c)) WebhookMark \<noteq> None \<and>
        listed H k [] (owner_selector (omName (csvMeta c)) (nss_namespace n)) (mk wc))"

text \<open>
  What becomes of the namespace selector of a webhook. When its first requirement lists the
  namespaces \<open>xs\<close> already, the code takes it as done, whatever the key and the operator of that
  requirement are: the values may change their order and everything else stays. Any other selector
  is replaced by one that has a single requirement, that the name of the namespace is in \<open>xs\<close>.
\<close>

definition lists_already :: "string list \<Rightarrow> webhook \<Rightarrow> bool" where
  "lists_already xs h \<longleftrightarrow>
     (\<exists>sel rq rqs vs. whNamespaceSelector h = Some sel \<and> lsMatchExpressions sel = Some (rq # rqs) \<and>
        rqValues rq = Some vs \<and> mset vs = mset xs)"

definition reordered :: "webhook \<Rightarrow> webhook \<Rightarrow> bool" where
  "reordered h h' \<longleftrightarrow>
     (\<exists>sel rq rqs vs vs'. whNamespaceSelector h = Some sel \<and> lsMatchExpressions sel = Some (rq # rqs) \<and>
        rqValues rq = Some vs \<and> mset vs' = mset vs \<and>
        h' = h\<lparr>whNamespaceSelector := Some (sel\<lparr>lsMatchExpressions := Some (rq\<lparr>rqValues := Some vs'\<rparr> # rqs)\<rparr>)\<rparr>)"

definition selects_members :: "string list \<Rightarrow> label_selector \<Rightarrow> bool" where
  "selects_members xs sel \<longleftrightarrow>
     lsMatchLabels sel = [] \<and>
     (\<exists>vs. lsMatchExpressions sel = Some [\<lparr>rqKey = ''kubernetes.io/metadata.name'', rqOperator = ''In'', rqValues = vs\<rparr>] \<and>
        mset (case vs of None \<Rightarrow> [] | Some ns \<Rightarrow> ns) = mset xs)"

definition scoped_hook :: "string list \<Rightarrow> webhook \<Rightarrow> webhook \<Rightarrow> bool" where
  "scoped_hook xs h h' \<longleftrightarrow>
     (if lists_already xs h then reordered h h'
      else \<exists>sel. selects_members xs sel \<and> h' = h\<lparr>whNamespaceSelector := Some sel\<rparr>)"

text \<open>The same configuration but for the namespace selectors of its webhooks.\<close>

definition scoped_config :: "string list \<Rightarrow> webhook_config \<Rightarrow> webhook_config \<Rightarrow> bool" where
  "scoped_config xs wc wc' \<longleftrightarrow>
     wcMeta wc' = wcMeta wc \<and> list_all2 (scoped_hook xs) (wcWebhooks wc) (wcWebhooks wc')"

text \<open>
  A webhook configuration of a managed CSV is scoped to the members read; a managed CSV is patched
  with its injected deployments and nothing else, when they differ; the status is patched in its
  four lists, when they changed.
\<close>

definition csv_request :: "pkg \<Rightarrow> reconciler \<Rightarrow> key \<Rightarrow> history \<Rightarrow> request \<Rightarrow> bool" where
  "csv_request p rc req H q \<longleftrightarrow>
     (is_write q \<longrightarrow>
        (\<exists>n. injector_on rc req H n \<and>
           ((\<exists>k mk wc wc' xs. q = Update (mk wc') \<and> owned_config n H k mk wc \<and>
               members_read (setDefaults n) H xs \<and> scoped_config xs wc wc') \<or>
            (\<exists>c ds. q = Patch (OCsv (c\<lparr>csvDeployments := ds\<rparr>)) (OCsv c) \<and> managed_csv n H c \<and>
               inject_deployments (restartLabels (spec (setDefaults n))) (configmapName (spec (setDefaults n)))
                 (csvDeployments c) = Some ds \<and> \<not> pkgSemanticDeepEqual p (csvDeployments c) ds) \<or>
            (\<exists>st. q = StatusPatch (ONss ((setDefaults n)\<lparr>nssStatus := merge_lists (nssStatus n) st\<rparr>)) (ONss n) \<and>
               merge_lists (nssStatus n) st \<noteq> nssStatus n))))"

lemma csv_read [simp]: "\<not> is_write q \<Longrightarrow> csv_request p rc req H q"
  by (simp add: csv_request_def)

lemma listed_mono: "listed H k ns l ob \<Longrightarrow> H \<subseteq> H' \<Longrightarrow> listed H' k ns l ob"
  unfolding listed_def by blast

lemma injector_on_mono: "injector_on rc req H n \<Longrightarrow> H \<subseteq> H' \<Longrightarrow> injector_on rc req H' n"
  unfolding injector_on_def by blast

lemma managed_package_mono: "managed_package H package \<Longrightarrow> H \<subseteq> H' \<Longrightarrow> managed_package H' package"
  unfolding managed_package_def using listed_mono by blast

lemma managed_csv_mono: "managed_csv n H c \<Longrightarrow> H \<subseteq> H' \<Longrightarrow> managed_csv n H' c"
  unfolding managed_csv_def using listed_mono managed_package_mono by blast

lemma owned_config_mono: "owned_config n H k mk wc \<Longrightarrow> H \<subseteq> H' \<Longrightarrow> owned_config n H' k mk wc"
  unfolding owned_config_def using listed_mono managed_csv_mono by blast

text \<open>What the loops start from: the instance and the members were read.\<close>

definition injecting :: "reconciler \<Rightarrow> key \<Rightarrow> nss \<Rightarrow> string list \<Rightarrow> history \<Rightarrow> bool" where
  "injecting rc req n xs H \<longleftrightarrow> injector_on rc req H n \<and> members_read (setDefaults n) H xs"

lemma injecting_mono: "injecting rc req n xs H \<Longrightarrow> H \<subseteq> H' \<Longrightarrow> injecting rc req n xs H'"
  unfolding injecting_def using injector_on_mono members_read_mono by blast

lemma csv_requestI:
  "injecting rc req n xs H \<Longrightarrow> owned_config n H k mk wc \<Longrightarrow> scoped_config xs wc wc' \<Longrightarrow>
     csv_request p rc req H (Update (mk wc'))"
  "injecting rc req n xs H \<Longrightarrow> managed_csv n H c \<Longrightarrow>
     inject_deployments (restartLabels (spec (setDefaults n))) (configmapName (spec (setDefaults n)))
       (csvDeployments c) = Some ds \<Longrightarrow> \<not> pkgSemanticDeepEqual p (csvDeployments c) ds \<Longrightarrow>
     csv_request p rc req H (Patch (OCsv (c\<lparr>csvDeployments := ds\<rparr>)) (OCsv c))"
  "injector_on rc req H n \<Longrightarrow> merge_lists (nssStatus n) st \<noteq> nssStatus n \<Longrightarrow>
     csv_request p rc req H (StatusPatch (ONss ((setDefaults n)\<lparr>nssStatus := merge_lists (nssStatus n) st\<rparr>)) (ONss n))"
proof goal_cases
  case 1
  then show ?case
    unfolding csv_request_def injecting_def
    apply (intro impI exI [of _ n] conjI disjI1)
     apply simp
    apply (rule exI [of _ k], rule exI [of _ mk], rule exI [of _ wc], rule exI [of _ wc'], rule exI [of _ xs])
    apply simp
    done
next
  case 2
  then show ?case
    unfolding csv_request_def injecting_def
    by (intro impI exI [of _ n] conjI disjI2 [OF disjI1] exI [of _ c] exI [of _ ds]) simp_all
next
  case 3
  then show ?case
    unfolding csv_request_def by (intro impI exI [of _ n] conjI disjI2 [OF disjI2] exI [of _ st]) simp_all
qed

section \<open>The selectors of the webhooks\<close>

lemma lists_already_mset: "mset xs = mset ys \<Longrightarrow> lists_already xs = lists_already ys"
  by (simp add: lists_already_def fun_eq_iff)

text \<open>A webhook was found with the namespaces, or it is marked to get them.\<close>

definition settled_hook :: "string list \<Rightarrow> webhook \<Rightarrow> webhook \<times> bool \<Rightarrow> bool" where
  "settled_hook xs h x \<longleftrightarrow>
     snd x = (\<not> lists_already xs h) \<and>
     (if snd x then \<exists>sel. fst x = h\<lparr>whNamespaceSelector := sel\<rparr> else reordered h (fst x))"

lemma settled_hook_mset: "mset xs = mset ys \<Longrightarrow> settled_hook xs = settled_hook ys"
  unfolding settled_hook_def fun_eq_iff using lists_already_mset [of xs ys] by simp

lemma settled_marked: "\<not> lists_already xs h \<Longrightarrow> settled_hook xs h (h, True)"
  unfolding settled_hook_def by (auto intro: exI [of _ "whNamespaceSelector h"])

definition hooks_result :: "webhook list \<Rightarrow> string list \<Rightarrow> (webhook \<times> bool) list
    \<Rightarrow> (err + (webhook \<times> bool) list \<times> string list) proc \<Rightarrow> bool" where
  "hooks_result hs xs acc p \<longleftrightarrow>
     p = Panic \<or> (\<exists>e. p = Ret (Inl e)) \<or>
     (\<exists>hs' xs'. p = Ret (Inr (acc @ hs', xs')) \<and> mset xs' = mset xs \<and> list_all2 (settled_hook xs) hs hs')"

lemma hooks_result_step:
  assumes "hooks_result hs ys (acc @ [x]) p" "mset ys = mset xs" "settled_hook xs h x"
  shows "hooks_result (h # hs) xs acc p"
proof -
  consider "p = Panic" | e where "p = Ret (Inl e)" | hs' xs' where "p = Ret (Inr ((acc @ [x]) @ hs', xs'))"
      "mset xs' = mset ys" "list_all2 (settled_hook ys) hs hs'"
    using assms(1) unfolding hooks_result_def by blast
  then show ?thesis
  proof cases
    case 3
    then show ?thesis
      unfolding hooks_result_def using assms(2,3) settled_hook_mset [OF assms(2)]
      by (intro disjI2 exI [of _ "x # hs'"] exI [of _ xs']) simp
  qed (auto simp: hooks_result_def)
qed

lemma hooks_loop_result: "hooks_result hs xs acc (hooks_loop hs xs acc)"
proof (induction hs arbitrary: xs acc)
  case Nil
  then show ?case by (simp add: hooks_result_def)
next
  case (Cons h hs)
  have marked: "hooks_result (h # hs) xs acc (hooks_loop hs xs (acc @ [(h, True)]))" if "\<not> lists_already xs h"
    by (rule hooks_result_step [OF Cons.IH]) (simp_all add: settled_marked that)
  show ?case
  proof (cases "whNamespaceSelector h")
    case (Some sel)
    note sel = this
    show ?thesis
    proof (cases "lsMatchExpressions sel")
      case None
      with sel show ?thesis using marked by (simp add: lists_already_def)
    next
      case (Some rqs)
      note rqs = this
      show ?thesis
      proof (cases rqs)
        case (Cons rq rqs')
        show ?thesis
        proof (cases "rqValues rq")
          case None
          with sel rqs Cons show ?thesis using marked by (simp add: lists_already_def)
        next
          case (Some vs)
          obtain d vs' xs' where d: "CheckListDifference vs xs = (d, vs', xs')" by (metis prod_cases3)
          let ?h = "h\<lparr>whNamespaceSelector := Some (sel\<lparr>lsMatchExpressions := Some (rq\<lparr>rqValues := Some vs'\<rparr> # rqs')\<rparr>)\<rparr>"
          have m: "mset vs' = mset vs" "mset xs' = mset xs" using CheckListDifference_mset [OF d] by simp_all
          have "d \<longleftrightarrow> \<not> lists_already xs h"
            using CheckListDifference_iff [of vs xs] d sel rqs Cons Some by (simp add: lists_already_def)
          moreover have "reordered h ?h"
            unfolding reordered_def using sel rqs Cons Some m(1) by blast
          ultimately have "settled_hook xs h (?h, d)"
            by (auto simp: settled_hook_def)
          then have "hooks_result (h # hs) xs acc (hooks_loop hs xs' (acc @ [(?h, d)]))"
            using m(2) by (intro hooks_result_step [OF Cons.IH]) simp_all
          then show ?thesis using sel rqs Cons Some d by simp
        qed
      qed (use sel rqs in \<open>simp add: hooks_result_def\<close>)
    qed
  qed (simp add: hooks_result_def)
qed

lemma selector_selects: "mset xs' = mset xs \<Longrightarrow> selects_members xs (namespace_selector xs')"
  by (cases "xs' = []") (auto simp: selects_members_def namespace_selector_def MatchExpressionsKey_def)

lemma settle_scoped:
  assumes "list_all2 (settled_hook xs) hs hs'" "mset xs' = mset xs"
  shows "list_all2 (scoped_hook xs) hs (settle_hooks xs' hs')"
proof -
  let ?f = "\<lambda>(h, marked). if marked then h\<lparr>whNamespaceSelector := Some (namespace_selector xs')\<rparr> else h"
  have "scoped_hook xs h (?f x)" if "settled_hook xs h x" for h x
    using that selector_selects [OF assms(2)]
    by (cases x; cases "snd x") (auto simp: settled_hook_def scoped_hook_def)
  then show ?thesis
    unfolding settle_hooks_def list_all2_map2
    by (intro list_all2_mono [OF assms(1)]) (simp add: split_def)
qed

section \<open>The loops\<close>

text \<open>The members are the same in another order.\<close>

abbreviation members_kept :: "string list \<Rightarrow> history \<Rightarrow> injection_state \<Rightarrow> bool" where
  "members_kept xs H st \<equiv> mset (isMembers st) = mset xs"

lemma hwp_patchWebhookConfig:
  assumes "good_end (\<lambda>_ xs'. mset xs' = mset xs) H Q" "injecting rc req n xs H" "owned_config n H k mk wc"
    and "mset nsList = mset xs"
  shows "hwp (csv_request p rc req) S Q (patchWebhookConfig mk wc nsList) H"
proof -
  consider "hooks_loop (wcWebhooks wc) nsList [] = Panic" | e where "hooks_loop (wcWebhooks wc) nsList [] = Ret (Inl e)"
    | hs xs' where "hooks_loop (wcWebhooks wc) nsList [] = Ret (Inr (hs, xs'))" "mset xs' = mset nsList"
        "list_all2 (settled_hook nsList) (wcWebhooks wc) hs"
    using hooks_loop_result [of "wcWebhooks wc" nsList "[]"] unfolding hooks_result_def by auto
  then show ?thesis
  proof cases
    case 3
    have "scoped_config xs wc (wc\<lparr>wcWebhooks := settle_hooks xs' hs\<rparr>)"
      using 3(2,3) assms(4) settle_scoped settled_hook_mset [OF assms(4)] by (simp add: scoped_config_def)
    from csv_requestI(1) [OF assms(2,3) this] show ?thesis
      using good_endD(1,3) [OF assms(1) subset_insertI] 3(1,2) assms(4)
      by (auto simp: patchWebhookConfig_def go_try_def bind_call split: sum.split)
  qed (use good_endD [OF assms(1)] in \<open>simp_all add: patchWebhookConfig_def go_try_def\<close>)
qed

lemma hwp_patch_configs:
  assumes "good_end (members_kept xs) H Q" "injecting rc req n xs H"
    and "\<forall>wc \<in> set wcs. owned_config n H k mk wc" "mset (isMembers st) = mset xs"
  shows "hwp (csv_request p rc req) S Q (patch_configs mk wcs st) H"
  using assms
proof (induction wcs arbitrary: st H)
  case (Cons wc wcs)
  show ?case
    unfolding patch_configs.simps
  proof (rule hwp_go_try_good [OF Cons.prems(1), where R = "\<lambda>_ xs'. mset xs' = mset xs"])
    show "hwp (csv_request p rc req) S Q (patch_configs mk wcs (st\<lparr>
         isManagedWebhook := isManagedWebhook st @ [omName (wcMeta wc)],
         isPatchedWebhook := isPatchedWebhook st @ [omName (wcMeta wc)],
         isMembers := nsList\<rparr>)) H'" if "H \<subseteq> H'" "mset nsList = mset xs" for nsList H'
      using Cons.prems that
      by (intro Cons.IH) (auto intro: good_end_grow injecting_mono owned_config_mono)
    show "hwp (csv_request p rc req) S Q' (patchWebhookConfig mk wc (isMembers st)) H"
      if "good_end (\<lambda>_ xs'. mset xs' = mset xs) H Q'" for Q'
      using Cons.prems by (intro hwp_patchWebhookConfig [OF that]) auto
  qed
qed (simp add: good_endD)

lemma as_list_listed:
  assumes "as_list prj r = Inr xs" "\<And>ob x. prj ob = Some x \<Longrightarrow> ob = mk x"
  shows "\<forall>x \<in> set xs. listed (insert (ListOf Cached k ns l, r) H) k ns l (mk x)"
proof
  fix x
  assume "x \<in> set xs"
  moreover obtain obs where "r = RList obs" "\<And>x. x \<in> set xs \<Longrightarrow> \<exists>ob \<in> set obs. prj ob = Some x"
    using as_list_InrE [OF assms(1)] by blast
  ultimately show "listed (insert (ListOf Cached k ns l, r) H) k ns l (mk x)"
    unfolding listed_def using assms(2) by blast
qed

lemma the_injection_iff:
  "the_csv ob = Some c \<longleftrightarrow> ob = OCsv c"
  "the_mutating_webhook ob = Some w \<longleftrightarrow> ob = OMutatingWebhook w"
  "the_validating_webhook ob = Some w \<longleftrightarrow> ob = OValidatingWebhook w"
  by (cases ob; simp)+

text \<open>A list call, and what follows it when it succeeds.\<close>

lemma hwp_go_try_list:
  assumes "P H (ListOf Cached k ns l)" "\<And>H' e. H \<subseteq> H' \<Longrightarrow> Q H' (Done (Inl e))"
    and "\<And>ob x. prj ob = Some x \<Longrightarrow> ob = mk x"
    and "\<And>xs H'. H \<subseteq> H' \<Longrightarrow> \<forall>x \<in> set xs. listed H' k ns l (mk x) \<Longrightarrow> hwp P S Q (f xs) H'"
  shows "hwp P S Q (go_try (call (ListOf Cached k ns l) (as_list prj)) f) H"
proof -
  have "hwp P S Q (case as_list prj r of Inl e \<Rightarrow> Ret (Inl e) | Inr xs \<Rightarrow> f xs)
      (insert (ListOf Cached k ns l, r) H)" for r
  proof (cases "as_list prj r")
    case (Inl e)
    then show ?thesis by (auto intro!: assms(2))
  next
    case (Inr xs)
    then show ?thesis
      unfolding Inr sum.case by (intro assms(4) as_list_listed [OF Inr assms(3)]) auto
  qed
  with assms(1) show ?thesis
    by (simp add: go_try_def bind_call)
qed

lemma hwp_getWebhooks:
  assumes "\<And>H q. \<not> is_write q \<Longrightarrow> P H q" "\<And>H' e. H \<subseteq> H' \<Longrightarrow> Q H' (Done (Inl e))"
    and "\<And>H' ms vs. H \<subseteq> H' \<Longrightarrow>
        \<forall>m \<in> set ms. listed H' KMutatingWebhook [] (owner_selector nm ns) (OMutatingWebhook m) \<Longrightarrow>
        \<forall>v \<in> set vs. listed H' KValidatingWebhook [] (owner_selector nm ns) (OValidatingWebhook v) \<Longrightarrow>
        Q H' (Done (Inr (ms, vs)))"
  shows "hwp P S Q (getWebhooks nm ns) H"
  unfolding getWebhooks_def
proof (rule hwp_go_try_list [where mk = OValidatingWebhook])
  fix vs H2
  assume H2: "H \<subseteq> H2"
    and vs: "\<forall>v \<in> set vs. listed H2 KValidatingWebhook [] (owner_selector nm ns) (OValidatingWebhook v)"
  show "hwp P S Q (go_try (call (ListOf Cached KMutatingWebhook [] (owner_selector nm ns))
      (as_list the_mutating_webhook)) (\<lambda>ms. Ret (Inr (ms, vs)))) H2"
  proof (rule hwp_go_try_list [where mk = OMutatingWebhook])
    show "hwp P S Q (Ret (Inr (ms, vs))) H3"
      if "H2 \<subseteq> H3" "\<forall>m \<in> set ms. listed H3 KMutatingWebhook [] (owner_selector nm ns) (OMutatingWebhook m)" for ms H3
      using that H2 vs listed_mono [OF _ that(1)] by (auto intro!: assms(3))
  qed (use assms(1,2) H2 in \<open>auto simp: the_injection_iff\<close>)
qed (use assms(1,2) in \<open>auto simp: the_injection_iff\<close>)

lemma hwp_patchWebhook:
  assumes "good_end (members_kept xs) H Q" "injecting rc req n xs H" "managed_csv n H c"
    and "map_of (omAnnotations (csvMeta c)) WebhookMark \<noteq> None" "mset (isMembers st) = mset xs"
  shows "hwp (csv_request p rc req) S Q (patchWebhook (setDefaults n) c st) H"
proof -
  let ?l = "owner_selector (omName (csvMeta c)) (nss_namespace n)"
  have owned: "owned_config n H' k mk wc" if "H \<subseteq> H'" "listed H' k [] ?l (mk wc)"
    "(k, mk) \<in> {(KMutatingWebhook, OMutatingWebhook), (KValidatingWebhook, OValidatingWebhook)}" for H' k mk wc
    unfolding owned_config_def using that assms(4) managed_csv_mono [OF assms(3)] by blast
  have configs: "hwp (csv_request p rc req) S Q (go_try (patch_configs OMutatingWebhook ms st)
       (patch_configs OValidatingWebhook vs)) H'"
    if H': "H \<subseteq> H'" and ms: "\<forall>m \<in> set ms. listed H' KMutatingWebhook [] ?l (OMutatingWebhook m)"
      and vs: "\<forall>v \<in> set vs. listed H' KValidatingWebhook [] ?l (OValidatingWebhook v)" for ms vs H'
  proof (rule hwp_go_try_good [OF good_end_grow [OF assms(1) H'], where R = "members_kept xs"])
    show "hwp (csv_request p rc req) S Q (patch_configs OValidatingWebhook vs st1) H2"
      if "H' \<subseteq> H2" "members_kept xs H2 st1" for st1 H2
    proof (rule hwp_patch_configs [OF _ _ _ that(2)])
      have "H \<subseteq> H2" using H' that(1) by blast
      then show "good_end (members_kept xs) H2 Q" "injecting rc req n xs H2"
        "\<forall>wc \<in> set vs. owned_config n H2 KValidatingWebhook OValidatingWebhook wc"
        using vs listed_mono [OF _ that(1)] good_end_grow [OF assms(1)] injecting_mono [OF assms(2)]
        by (auto intro: owned)
    qed
    show "hwp (csv_request p rc req) S Q' (patch_configs OMutatingWebhook ms st) H'"
      if "good_end (members_kept xs) H' Q'" for Q'
      by (rule hwp_patch_configs [OF that injecting_mono [OF assms(2) H'] _ assms(5)]) (use ms in \<open>auto intro: owned [OF H']\<close>)
  qed
  show ?thesis
    unfolding patchWebhook_def hwp_go_try [of _ _ _ "getWebhooks _ _"] setDefaults_sel
  proof (rule hwp_getWebhooks)
    fix H' ms vs
    assume "H \<subseteq> H'" "\<forall>m \<in> set ms. listed H' KMutatingWebhook [] ?l (OMutatingWebhook m)"
      "\<forall>v \<in> set vs. listed H' KValidatingWebhook [] ?l (OValidatingWebhook v)"
    from configs [OF this] show "and_then (Q H') (\<lambda>x. case x of Inl e \<Rightarrow> Q H' (Done (Inl e))
        | Inr a \<Rightarrow> hwp (csv_request p rc req) S Q (case a of (ms, vs) \<Rightarrow>
            go_try (patch_configs OMutatingWebhook ms st) (patch_configs OValidatingWebhook vs)) H') (Done (Inr (ms, vs)))"
      by simp
  qed (auto intro: good_endD(1) [OF assms(1)])
qed

lemma hwp_patch_csv:
  assumes "any_end H Q" "injecting rc req n xs H" "managed_csv n H c"
  shows "hwp (csv_request p rc req) S Q (patch_csv p (setDefaults n) c) H"
  using csv_requestI(2) [OF assms(2,3)] any_endD [OF assms(1)]
  by (auto simp: patch_csv_def call_def subset_insertI split: option.split)

lemma hwp_csv_loop:
  assumes "good_end (members_kept xs) H Q" "injecting rc req n xs H" "\<forall>c \<in> set cs. managed_csv n H c"
    and "mset (isMembers st) = mset xs"
  shows "hwp (csv_request p rc req) S Q (csv_loop p (setDefaults n) cs st) H"
  using assms
proof (induction cs arbitrary: st H)
  case (Cons c cs)
  have c: "managed_csv n H c" using Cons.prems(3) by simp
  have rest: "hwp (csv_request p rc req) S Q (csv_loop p (setDefaults n) cs st') H'"
    if "H \<subseteq> H'" "members_kept xs H' st'" for st' H'
    using Cons.prems that by (intro Cons.IH) (auto intro: good_end_grow injecting_mono managed_csv_mono)
  show ?case
    unfolding csv_loop.simps
  proof (rule hwp_go_try_good [OF Cons.prems(1), where R = "members_kept xs"])
    fix st1 H'
    assume H': "H \<subseteq> H'" and st1: "members_kept xs H' st1"
    show "hwp (csv_request p rc req) S Q (go_try (patch_csv p (setDefaults n) c) (\<lambda>_. csv_loop p (setDefaults n) cs st1)) H'"
    proof (rule hwp_go_try_good [OF good_end_grow [OF Cons.prems(1) H'], where R = "\<lambda>_ _. True"])
      show "hwp (csv_request p rc req) S Q' (patch_csv p (setDefaults n) c) H'" if "good_end (\<lambda>_ _. True) H' Q'" for Q'
        using that injecting_mono [OF Cons.prems(2) H'] managed_csv_mono [OF c H']
        by (intro hwp_patch_csv) (auto simp: good_end_def any_end_def)
    qed (use rest H' st1 in auto)
  next
    show "hwp (csv_request p rc req) S Q' (if map_of (omAnnotations (csvMeta c)) WebhookMark \<noteq> None
        then patchWebhook (setDefaults n) c st else Ret (Inr st)) H" if "good_end (members_kept xs) H Q'" for Q'
      using hwp_patchWebhook [OF that Cons.prems(2) c _ Cons.prems(4)] good_endD(3) [OF that order_refl] Cons.prems(4)
      by auto
  qed
qed (simp add: good_endD)

lemma hwp_package_loop:
  assumes "good_end (members_kept xs) H Q" "injecting rc req n xs H" "\<forall>pk \<in> set packages. managed_package H pk"
    and "mset (isMembers st) = mset xs"
  shows "hwp (csv_request p rc req) S Q (package_loop p (setDefaults n) packages st) H"
  using assms
proof (induction packages arbitrary: st H)
  case (Cons package packages)
  have label: "package_label (setDefaults n) package = package_label n package"
    by (simp add: package_label_def)
  have rest: "hwp (csv_request p rc req) S Q (package_loop p (setDefaults n) packages st') H'"
    if "H \<subseteq> H'" "members_kept xs H' st'" for st' H'
    using Cons.prems that by (intro Cons.IH) (auto intro: good_end_grow injecting_mono managed_package_mono)
  show ?case
    unfolding package_loop.simps Let_def label
  proof (rule hwp_go_try_list [where mk = OCsv])
    fix cs H'
    assume H': "H \<subseteq> H'" and cs: "\<forall>c \<in> set cs. listed H' KCsv [] [(package_label n package, [])] (OCsv c)"
    have managed: "\<forall>c \<in> set cs. managed_csv n H' c"
      unfolding managed_csv_def using cs Cons.prems(3) managed_package_mono [OF _ H'] by auto
    have "hwp (csv_request p rc req) S Q (go_try (csv_loop p (setDefaults n) cs st')
        (\<lambda>st2. package_loop p (setDefaults n) packages st2)) H'" if "members_kept xs H' st'" for st'
    proof (rule hwp_go_try_good [OF good_end_grow [OF Cons.prems(1) H'], where R = "members_kept xs"])
      show "hwp (csv_request p rc req) S Q' (csv_loop p (setDefaults n) cs st') H'" if "good_end (members_kept xs) H' Q'" for Q'
        by (rule hwp_csv_loop [OF that injecting_mono [OF Cons.prems(2) H'] managed \<open>members_kept xs H' st'\<close>])
    qed (use rest H' in auto)
    then show "hwp (csv_request p rc req) S Q
        (if length cs = 0 then package_loop p (setDefaults n) packages
            (st\<lparr>isManagedCSV := isManagedCSV st @ [package]\<rparr>)
         else go_try (csv_loop p (setDefaults n) cs
            (st\<lparr>isManagedCSV := isManagedCSV st @ [package],
                isPatchedCSV := isPatchedCSV (st\<lparr>isManagedCSV := isManagedCSV st @ [package]\<rparr>) @ [package]\<rparr>))
           (package_loop p (setDefaults n) packages)) H'"
      using rest H' Cons.prems(4) by simp
  qed (use Cons.prems in \<open>auto simp: the_injection_iff good_endD\<close>)
qed (simp add: good_endD)

lemma set_candidate_packages:
  "set (candidate_packages cs acc) = set acc \<union>
     {pk. \<exists>c \<in> set cs. \<exists>pks. map_of (omAnnotations (csvMeta c)) InjectorMark = Some pks \<and> pk \<in> set (split_on CHR '','' pks)}"
  by (induction cs acc rule: candidate_packages.induct) (auto split: option.split)

lemma hwp_CheckStatusLists:
  assumes "any_end H Q" "injector_on rc req H n"
  shows "hwp (csv_request p rc req) S Q (go_try (CheckStatusLists (setDefaults n) n st) (\<lambda>_. Ret (Inr 180))) H"
  using csv_requestI(3) [OF assms(2)] any_endD(1) [OF assms(1) order_refl] any_endD(1) [OF assms(1) subset_insertI]
  by (auto simp: CheckStatusLists_def Let_def go_try_def bind_call bind_assoc split: sum.split)

text \<open>The packages are those of the CSVs listed, the members those of the instances that were read.\<close>

lemma hwp_inject_all:
  assumes "injector_on rc req H n" "\<forall>c \<in> set csvs. listed H KCsv [] [] (OCsv c)"
  shows "hwp (csv_request p rc req) S (\<lambda>_ oc. oc \<noteq> Blocked)
    (go_try (getAllValidatedNamespaceMembers (setDefaults n)) (\<lambda>members.
      bind (ToStringSlice (MakeSet (candidate_packages csvs []))) (\<lambda>packages.
      go_try (package_loop p (setDefaults n) packages
         \<lparr>isManagedCSV = [], isPatchedCSV = [], isManagedWebhook = [], isPatchedWebhook = [], isMembers = members\<rparr>) (\<lambda>st.
      go_try (CheckStatusLists (setDefaults n) n st) (\<lambda>_. Ret (Inr (180 :: nat))))))) H"
  unfolding hwp_go_try [of _ _ _ "getAllValidatedNamespaceMembers _"]
proof (rule hwp_getAllValidatedNamespaceMembers)
  fix H' xs
  assume H': "H \<subseteq> H'" and xs: "members_read (setDefaults n) H' xs"
  let ?Q = "\<lambda>(_ :: history) (oc :: (err + nat) outcome). oc \<noteq> Blocked"
  have any: "any_end H2 ?Q" for H2 by (simp add: any_end_def)
  have candidates: "managed_package H' pk" if "pk \<in> set (candidate_packages csvs [])" for pk
    using that assms(2) listed_mono [OF _ H'] unfolding managed_package_def set_candidate_packages by fastforce
  have "hwp (csv_request p rc req) S ?Q (go_try (package_loop p (setDefaults n) packages
      \<lparr>isManagedCSV = [], isPatchedCSV = [], isManagedWebhook = [], isPatchedWebhook = [], isMembers = xs\<rparr>) (\<lambda>st.
      go_try (CheckStatusLists (setDefaults n) n st) (\<lambda>_. Ret (Inr 180)))) H2"
    if H2: "H' \<subseteq> H2" and packages: "set packages \<subseteq> set (candidate_packages csvs [])" for packages H2
  proof (rule hwp_go_try_after [OF any, where R = "members_kept xs"])
    have "injecting rc req n xs H2"
      unfolding injecting_def using injector_on_mono [OF assms(1)] members_read_mono [OF xs H2] H' H2 by blast
    moreover have "\<forall>pk \<in> set packages. managed_package H2 pk"
      using candidates packages managed_package_mono [OF _ H2] by blast
    ultimately show "hwp (csv_request p rc req) S Q' (package_loop p (setDefaults n) packages
        \<lparr>isManagedCSV = [], isPatchedCSV = [], isManagedWebhook = [], isPatchedWebhook = [], isMembers = xs\<rparr>) H2"
      if "good_end (members_kept xs) H2 Q'" for Q'
      by (intro hwp_package_loop [OF that]) simp_all
    show "hwp (csv_request p rc req) S ?Q (go_try (CheckStatusLists (setDefaults n) n st) (\<lambda>_. Ret (Inr 180))) H3"
      if "H2 \<subseteq> H3" for st H3
      using injector_on_mono [OF assms(1), of H3] H' H2 that by (intro hwp_CheckStatusLists any) blast
  qed
  then show "and_then (?Q H') (\<lambda>x. case x of Inl e \<Rightarrow> ?Q H' (Done (Inl e)) | Inr members \<Rightarrow>
      hwp (csv_request p rc req) S ?Q (bind (ToStringSlice (MakeSet (candidate_packages csvs []))) (\<lambda>packages.
      go_try (package_loop p (setDefaults n) packages
         \<lparr>isManagedCSV = [], isPatchedCSV = [], isManagedWebhook = [], isPatchedWebhook = [], isMembers = members\<rparr>) (\<lambda>st.
      go_try (CheckStatusLists (setDefaults n) n st) (\<lambda>_. Ret (Inr 180))))) H') (Done (Inr xs))"
    by (simp add: ToStringSlice_def bind_call subset_insertI)
qed simp_all

lemma hwp_CSVReconcile: "hwp (csv_request p rc req) S (\<lambda>_ oc. oc \<noteq> Blocked) (CSVReconcile p rc req) {}"
proof -
  let ?hwp = "hwp (csv_request p rc req) S (\<lambda>(_ :: history) (oc :: (err + nat) outcome). oc \<noteq> Blocked)"
  have on: "injector_on rc req (insert (Get Cached KNss req, r) {}) n"
    if "as_obj the_nss r = Inr n" "enable (csvInjector (spec n))" "hasOLMAPI rc" for r n
    using that by (auto simp: injector_on_def elim: as_obj_InrE)
  have enabled: "?hwp (go_try (call (ListOf Cached KCsv [] []) (as_list the_csv)) (\<lambda>csvs.
      go_try (getAllValidatedNamespaceMembers (setDefaults n)) (\<lambda>members.
      bind (ToStringSlice (MakeSet (candidate_packages csvs []))) (\<lambda>ps. go_try (package_loop p (setDefaults n) ps
        \<lparr>isManagedCSV = [], isPatchedCSV = [], isManagedWebhook = [], isPatchedWebhook = [], isMembers = members\<rparr>)
      (\<lambda>st. go_try (CheckStatusLists (setDefaults n) n st) (\<lambda>_. Ret (Inr 180))))))) H"
    if "injector_on rc req H n" for n H
    by (rule hwp_go_try_list [where mk = OCsv])
       (auto simp: the_injection_iff intro!: hwp_inject_all injector_on_mono [OF that])
  show ?thesis
    unfolding CSVReconcile_def bind_call Let_def
    by (auto split: sum.split intro!: enabled on)
qed

section \<open>Properties\<close>

lemma those_None: "those xs = None \<longleftrightarrow> None \<in> set xs"
  by (induction xs) (auto split: option.split)

lemma inject_deployments_None:
  "inject_deployments rl cmName ds = None \<longleftrightarrow> (\<exists>d \<in> set ds. \<exists>c \<in> set (ptContainers (dsTemplate d)). bare_watch (ctEnv c))"
proof -
  have "inject_container cmName c = None \<longleftrightarrow> bare_watch (ctEnv c)" for c
    by (simp add: inject_container_eq)
  then show ?thesis
    by (auto simp: inject_deployments_def inject_template_def those_None image_iff eq_commute [of None])
qed

text \<open>
  C32: the injection of the variable. \<open>patch_csv\<close> panics exactly when a container of a deployment has
  \<open>WATCH_NAMESPACE\<close> without a source (a literal value, for instance). A container without such a
  variable ends up with the variable, each of its occurrences refers to the key \<open>namespaces\<close> of
  the instance's ConfigMap, and every other variable is left as it was, in the same order.
\<close>

theorem inject_container_spec:
  "(patch_csv p inst k = Panic) = (csvStrategyName k = ''deployment'' \<and>
     (\<exists>d \<in> set (csvDeployments k). \<exists>c \<in> set (ptContainers (dsTemplate d)). \<exists>e \<in> set (ctEnv c).
        evName e = ''WATCH_NAMESPACE'' \<and> evValueFrom e = None)) \<and>
   (case inject_container cmName c of
      None \<Rightarrow> bare_watch (ctEnv c)
    | Some c' \<Rightarrow> \<not> bare_watch (ctEnv c) \<and>
        filter watches (ctEnv c') \<noteq> [] \<and> list_all (refers_to cmName) (filter watches (ctEnv c')) \<and>
        filter (\<lambda>e. \<not> watches e) (ctEnv c') = filter (\<lambda>e. \<not> watches e) (ctEnv c) \<and> ctName c' = ctName c)"
proof (rule conjI)
  let ?injected = "inject_deployments (restartLabels (spec inst)) (configmapName (spec inst)) (csvDeployments k)"
  have "(patch_csv p inst k = Panic) = (csvStrategyName k = ''deployment'' \<and> ?injected = None)"
    by (auto simp: patch_csv_def call_def split: option.split)
  then show "(patch_csv p inst k = Panic) = (csvStrategyName k = ''deployment'' \<and>
     (\<exists>d \<in> set (csvDeployments k). \<exists>c \<in> set (ptContainers (dsTemplate d)). \<exists>e \<in> set (ctEnv c).
        evName e = ''WATCH_NAMESPACE'' \<and> evValueFrom e = None))"
    unfolding inject_deployments_None bare_watch_def watches_def watch_namespace_def .
  show "case inject_container cmName c of None \<Rightarrow> bare_watch (ctEnv c) | Some c' \<Rightarrow> \<not> bare_watch (ctEnv c) \<and>
      filter watches (ctEnv c') \<noteq> [] \<and> list_all (refers_to cmName) (filter watches (ctEnv c')) \<and>
      filter (\<lambda>e. \<not> watches e) (ctEnv c') = filter (\<lambda>e. \<not> watches e) (ctEnv c) \<and> ctName c' = ctName c"
    using injected_env_some [of cmName "ctEnv c"]
    by (auto simp: inject_container_eq injected_env_others filter_empty_conv list_all_iff
        dest: injected_env_watches)
qed

text \<open>
  The injection is idempotent. Injecting into deployments that were injected changes nothing,
  so that the next reconciliation compares equal and sends no patch.
\<close>

theorem injection_idempotent:
  "Option.bind (inject_deployments rl cmName ds) (inject_deployments rl cmName) = inject_deployments rl cmName ds"
  by (cases "inject_deployments rl cmName ds") (simp_all add: inject_deployments_idem)

text \<open>
  C31: patching a CSV settles it. A run of \<open>patch_csv\<close> that sends nothing and does not panic had
  nothing to do, and would have nothing to do again; and one that sends a patch sends a CSV, with
  the injected deployments and no other change, for which \<open>patch_csv\<close> makes no request at all.
\<close>

theorem patch_csv_settles:
  assumes "pkg_ok p" "runs E (patch_csv p inst c) s tr oc t"
  shows "case tr of
      [] \<Rightarrow> oc = Panicked \<or> patch_csv p inst c = Ret (Inr ())
    | (q, r) # rest \<Rightarrow> rest = [] \<and>
        (\<exists>ds. q = Patch (OCsv (c\<lparr>csvDeployments := ds\<rparr>)) (OCsv c) \<and>
           patch_csv p inst (c\<lparr>csvDeployments := ds\<rparr>) = Ret (Inr ()))"
proof -
  have settled: "patch_csv p inst (c\<lparr>csvDeployments := ds\<rparr>) = Ret (Inr ())"
    if "inject_deployments (restartLabels (spec inst)) (configmapName (spec inst)) (csvDeployments c) = Some ds" for ds
    using inject_deployments_idem [OF that] assms(1) by (simp add: patch_csv_def pkg_ok_def controller_util_def)
  show ?thesis
    using assms(2) settled
    by (auto simp: patch_csv_def call_def proc_simps split: if_splits option.splits)
qed

definition sample_csv :: csv where
  "sample_csv = \<lparr>csvMeta = new_meta ''odlm'' ''ibm-common-services'' [], csvStrategyName = ''deployment'',
     csvDeployments = [\<lparr>dsName = ''odlm'', dsTemplate =
       \<lparr>ptLabels = Some [], ptAnnotations = None, ptContainers = [\<lparr>ctName = ''manager'', ctEnv = []\<rparr>]\<rparr>\<rparr>]\<rparr>"

definition sample_injected :: csv where
  "sample_injected = sample_csv\<lparr>csvDeployments := [\<lparr>dsName = ''odlm'', dsTemplate =
     \<lparr>ptLabels = Some [(''intent'', ''projected'')], ptAnnotations = None,
      ptContainers = [\<lparr>ctName = ''manager'', ctEnv = [configmap_env ''namespace-scope'']\<rparr>]\<rparr>\<rparr>]\<rparr>"

lemma sample_patch:
  "patch_csv std_pkg sample_nss sample_csv = call (Patch (OCsv sample_injected) (OCsv sample_csv)) as_unit"
  by (simp add: patch_csv_def sample_csv_def sample_nss_def std_pkg_def inject_deployments_def inject_template_def
      inject_container_def map_put_all_def sample_injected_def)

theorem patch_csv_settles_witness:
  "runs (\<lambda>(_ :: unit) q _ r. r = ROk) (patch_csv std_pkg sample_nss sample_csv) ()
      [(Patch (OCsv sample_injected) (OCsv sample_csv), ROk)] (Done (Inr ())) () \<and>
   patch_csv std_pkg sample_nss sample_injected = Ret (Inr ())"
proof -
  have run: "runs (\<lambda>(_ :: unit) q _ r. r = ROk) (patch_csv std_pkg sample_nss sample_csv) ()
      [(Patch (OCsv sample_injected) (OCsv sample_csv), ROk)] (Done (Inr ())) ()"
    by (simp add: sample_patch call_def proc_simps response_simps)
  from patch_csv_settles [OF std_pkg_ok run] run show ?thesis by auto
qed

text \<open>
  The restart labels get lost when the pod template of a deployment has no labels at all: the
  map made for them belongs to the copy of the template only.
\<close>

theorem injection_loses_labels:
  "map_option ptLabels (inject_template rl cmName (t\<lparr>ptLabels := None\<rparr>)) =
     map_option (\<lambda>_. None) (those (map (inject_container cmName) (ptContainers t)))"
  by (simp add: inject_template_def option.map_comp o_def)

text \<open>
  C22: the injector writes on good grounds only. Whatever the API server answers, \<open>CSVReconcile\<close>
  writes only when it read the instance with the injector enabled and OLM's API group is there. A
  CSV it patches was listed for a package that the annotation of a listed CSV names; it gets its
  injected deployments, which differ from those it has, and no other change. A webhook configuration
  it updates was listed as owned by such a CSV that carries the webhook mark, and changes in the
  namespace selectors of its webhooks only. With the validated members of the instances that share
  the ConfigMap, read before, a webhook is treated in one of two ways. If the first requirement of its
  selector has these members as its values already, it is left alone but for the order of the values,
  whatever the key and the operator of the requirement are. Any other one gets a selector with a
  single requirement, \<open>kubernetes.io/metadata.name In\<close> these members. The status is patched only in
  its four lists and only when they changed.
\<close>

theorem CSVReconcile_confined:
  "ensures (CSVReconcile p rc req) (csv_request p rc req) (\<lambda>_ oc. oc \<noteq> Blocked)"
  by (rule ensuresI) (rule hwp_CSVReconcile)

lemma merge_list_mset: "mset (merge_list current computed) = mset computed"
proof -
  obtain d a b where d: "CheckListDifference current computed = (d, a, b)"
    by (metis prod_cases3)
  then show ?thesis
    using CheckListDifference_mset [OF d] CheckListDifference_iff [of current computed]
    by (auto simp: merge_list_def)
qed

text \<open>
  The lists of the status follow the lists computed. After the merge each of the four lists
  holds exactly the names that were computed, with their multiplicities, and every other field
  of the status is as it was.
\<close>

theorem merge_lists_follow:
  "mset (managedCSVList (merge_lists s st)) = mset (isManagedCSV st) \<and>
   mset (patchedCSVList (merge_lists s st)) = mset (isPatchedCSV st) \<and>
   mset (managedWebhookList (merge_lists s st)) = mset (isManagedWebhook st) \<and>
   mset (patchedWebhookList (merge_lists s st)) = mset (isPatchedWebhook st) \<and>
   (merge_lists s st)\<lparr>managedCSVList := managedCSVList s, patchedCSVList := patchedCSVList s,
     managedWebhookList := managedWebhookList s, patchedWebhookList := patchedWebhookList s\<rparr> = s"
  by (simp add: merge_lists_def merge_list_mset)

end
