(* ===== verification/Csv_Complete.thy ===== *)
theory Csv_Complete
  imports Csv_Properties
begin

text \<open>
  The other direction of \<open>CSVReconcile_confined\<close>: a run of \<open>CSVReconcile\<close> that reports success has
  injected into every CSV of every candidate package and has updated every webhook configuration
  that the annotated ones own, with the selectors that \<open>scoped_hook\<close> describes.
\<close>

section \<open>What it means to be done\<close>

abbreviation answered_ok :: "history \<Rightarrow> request \<Rightarrow> bool" where
  "answered_ok H q \<equiv> \<exists>r. (q, r) \<in> H \<and> as_unit r = Inr ()"

text \<open>The CSV needed no patch, or the API server accepted it with the injected deployments.\<close>

definition csv_injected :: "pkg \<Rightarrow> nss \<Rightarrow> history \<Rightarrow> csv \<Rightarrow> bool" where
  "csv_injected p inst H c \<longleftrightarrow>
     csvStrategyName c = ''deployment'' \<longrightarrow>
       (\<exists>ds. inject_deployments (restartLabels (spec inst)) (configmapName (spec inst)) (csvDeployments c) = Some ds \<and>
          (pkgSemanticDeepEqual p (csvDeployments c) ds \<or>
           answered_ok H (Patch (OCsv (c\<lparr>csvDeployments := ds\<rparr>)) (OCsv c))))"

definition config_settled :: "string list \<Rightarrow> (webhook_config \<Rightarrow> obj) \<Rightarrow> history \<Rightarrow> webhook_config \<Rightarrow> bool" where
  "config_settled xs mk H wc \<longleftrightarrow> (\<exists>wc'. answered_ok H (Update (mk wc')) \<and> scoped_config xs wc wc')"

text \<open>Both kinds of webhook configurations that OLM made for the CSV were listed and settled.\<close>

definition webhooks_settled :: "nss \<Rightarrow> string list \<Rightarrow> history \<Rightarrow> csv \<Rightarrow> bool" where
  "webhooks_settled inst xs H c \<longleftrightarrow>
     (\<exists>r r' ms vs.
        (ListOf Cached KMutatingWebhook [] (owner_selector (omName (csvMeta c)) (nss_namespace inst)), r) \<in> H \<and>
        as_list the_mutating_webhook r = Inr ms \<and> (\<forall>wc \<in> set ms. config_settled xs OMutatingWebhook H wc) \<and>
        (ListOf Cached KValidatingWebhook [] (owner_selector (omName (csvMeta c)) (nss_namespace inst)), r') \<in> H \<and>
        as_list the_validating_webhook r' = Inr vs \<and> (\<forall>wc \<in> set vs. config_settled xs OValidatingWebhook H wc))"

definition csv_done :: "pkg \<Rightarrow> nss \<Rightarrow> string list \<Rightarrow> history \<Rightarrow> csv \<Rightarrow> bool" where
  "csv_done p inst xs H c \<longleftrightarrow>
     csv_injected p inst H c \<and>
     (map_of (omAnnotations (csvMeta c)) WebhookMark \<noteq> None \<longrightarrow> webhooks_settled inst xs H c)"

definition package_done :: "pkg \<Rightarrow> nss \<Rightarrow> string list \<Rightarrow> history \<Rightarrow> string \<Rightarrow> bool" where
  "package_done p inst xs H package \<longleftrightarrow>
     (\<exists>r cs. (ListOf Cached KCsv [] [(package_label inst package, [])], r) \<in> H \<and> as_list the_csv r = Inr cs \<and>
        (\<forall>c \<in> set cs. csv_done p inst xs H c))"

lemma csv_injected_mono: "csv_injected p inst H c \<Longrightarrow> H \<subseteq> H' \<Longrightarrow> csv_injected p inst H' c"
  unfolding csv_injected_def by blast

lemma config_settled_mono: "config_settled xs mk H wc \<Longrightarrow> H \<subseteq> H' \<Longrightarrow> config_settled xs mk H' wc"
  unfolding config_settled_def by blast

lemma webhooks_settled_mono: "webhooks_settled inst xs H c \<Longrightarrow> H \<subseteq> H' \<Longrightarrow> webhooks_settled inst xs H' c"
  unfolding webhooks_settled_def using config_settled_mono by (meson subsetD)

lemma csv_done_mono: "csv_done p inst xs H c \<Longrightarrow> H \<subseteq> H' \<Longrightarrow> csv_done p inst xs H' c"
  unfolding csv_done_def using csv_injected_mono webhooks_settled_mono by blast

lemma package_done_mono: "package_done p inst xs H pk \<Longrightarrow> H \<subseteq> H' \<Longrightarrow> package_done p inst xs H' pk"
  unfolding package_done_def using csv_done_mono by (meson subsetD)

section \<open>The webhook configurations\<close>

abbreviation does :: "(history \<Rightarrow> 'a outcome \<Rightarrow> bool) \<Rightarrow> 'a proc \<Rightarrow> history \<Rightarrow> bool" where
  "does Q \<equiv> hwp (\<lambda>_ _. True) (\<lambda>_ _. False) Q"

lemma does_patchWebhookConfig:
  assumes "good_end (\<lambda>H xs'. mset xs' = mset xs \<and> config_settled xs mk H wc) H Q" "mset nsList = mset xs"
  shows "does Q (patchWebhookConfig mk wc nsList) H"
proof -
  consider "hooks_loop (wcWebhooks wc) nsList [] = Panic" | e where "hooks_loop (wcWebhooks wc) nsList [] = Ret (Inl e)"
    | hs xs' where "hooks_loop (wcWebhooks wc) nsList [] = Ret (Inr (hs, xs'))" "mset xs' = mset nsList"
        "list_all2 (settled_hook nsList) (wcWebhooks wc) hs"
    using hooks_loop_result [of "wcWebhooks wc" nsList "[]"] unfolding hooks_result_def by auto
  then show ?thesis
  proof cases
    case 3
    let ?wc = "wc\<lparr>wcWebhooks := settle_hooks xs' hs\<rparr>"
    have "scoped_config xs wc ?wc"
      using 3(2,3) assms(2) settle_scoped settled_hook_mset [OF assms(2)] by (simp add: scoped_config_def)
    then have "config_settled xs mk (insert (Update (mk ?wc), r) H) wc" if "as_unit r = Inr ()" for r
      unfolding config_settled_def using that by blast
    then show ?thesis
      using good_endD(1,3) [OF assms(1) subset_insertI] 3(1,2) assms(2)
      by (auto simp: patchWebhookConfig_def go_try_def bind_call split: sum.split)
  qed (use good_endD [OF assms(1)] in \<open>simp_all add: patchWebhookConfig_def go_try_def\<close>)
qed

text \<open>What the loops hand on: the members, in some order, and the packages seen so far.\<close>

definition carried :: "string list \<Rightarrow> injection_state \<Rightarrow> injection_state \<Rightarrow> bool" where
  "carried xs st st' \<longleftrightarrow> mset (isMembers st') = mset xs \<and> isManagedCSV st' = isManagedCSV st"

lemma does_patch_configs:
  assumes "good_end (\<lambda>H st'. carried xs st st' \<and> (\<forall>wc \<in> set wcs. config_settled xs mk H wc)) H Q"
    and "mset (isMembers st) = mset xs"
  shows "does Q (patch_configs mk wcs st) H"
  using assms
proof (induction wcs arbitrary: st H)
  case Nil
  then show ?case by (simp add: good_endD(3) carried_def)
next
  case (Cons wc wcs)
  let ?st = "\<lambda>nsList. st\<lparr>isManagedWebhook := isManagedWebhook st @ [omName (wcMeta wc)],
    isPatchedWebhook := isPatchedWebhook st @ [omName (wcMeta wc)], isMembers := nsList\<rparr>"
  show ?case
    unfolding patch_configs.simps
  proof (rule hwp_go_try_good [OF Cons.prems(1), where R = "\<lambda>H xs'. mset xs' = mset xs \<and> config_settled xs mk H wc"])
    show "does Q (patch_configs mk wcs (?st nsList)) H'"
      if "H \<subseteq> H'" "mset nsList = mset xs \<and> config_settled xs mk H' wc" for nsList H'
    proof (rule Cons.IH)
      show "good_end (\<lambda>H st'. carried xs (?st nsList) st' \<and> (\<forall>wc \<in> set wcs. config_settled xs mk H wc)) H' Q"
      proof (rule good_end_mono [OF Cons.prems(1) that(1)])
        fix H2 st'
        assume "H' \<subseteq> H2" "carried xs (?st nsList) st' \<and> (\<forall>wc \<in> set wcs. config_settled xs mk H2 wc)"
        then show "carried xs st st' \<and> (\<forall>wc \<in> set (wc # wcs). config_settled xs mk H2 wc)"
          using that(2) config_settled_mono [of xs mk H' wc H2] by (simp add: carried_def)
      qed
    qed (use that in simp)
  qed (rule does_patchWebhookConfig [OF _ Cons.prems(2)])
qed

text \<open>A list that was asked for, and what follows it.\<close>

lemma does_list:
  assumes "good_end R H Q"
    and "\<And>xs r. as_list prj r = Inr xs \<Longrightarrow> does Q (f xs) (insert (ListOf Cached k ns l, r) H)"
  shows "does Q (go_try (call (ListOf Cached k ns l) (as_list prj)) f) H"
  unfolding go_try_def
  by (rule hwp_call_cases) (auto intro!: assms(2) good_endD(1) [OF assms(1)])

lemma go_try_assoc:
  "go_try (go_try q f) g = go_try q (\<lambda>x. go_try (f x) g)" "go_try (Ret (Inr x)) h = h x"
  by (auto simp: go_try_def bind_assoc intro!: arg_cong [of _ _ "bind q"] split: sum.split)

lemma does_patchWebhook:
  assumes "good_end (\<lambda>H st'. carried xs st st' \<and> webhooks_settled inst xs H c) H Q" "mset (isMembers st) = mset xs"
  shows "does Q (patchWebhook inst c st) H"
proof -
  let ?l = "owner_selector (omName (csvMeta c)) (nss_namespace inst)"
  let ?qv = "ListOf Cached KValidatingWebhook [] ?l" and ?qm = "ListOf Cached KMutatingWebhook [] ?l"
  have configs: "does Q (go_try (patch_configs OMutatingWebhook ms st) (patch_configs OValidatingWebhook vs))
      (insert (?qm, r) (insert (?qv, r') H))"
    if "as_list the_mutating_webhook r = Inr ms" "as_list the_validating_webhook r' = Inr vs" for r r' ms vs
  proof (rule hwp_go_try_good [OF good_end_grow [OF assms(1)],
        where R = "\<lambda>H st1. carried xs st st1 \<and> (\<forall>wc \<in> set ms. config_settled xs OMutatingWebhook H wc)"])
    fix st1 H'
    assume H': "insert (?qm, r) (insert (?qv, r') H) \<subseteq> H'"
      and st1: "carried xs st st1 \<and> (\<forall>wc \<in> set ms. config_settled xs OMutatingWebhook H' wc)"
    show "does Q (patch_configs OValidatingWebhook vs st1) H'"
    proof (rule does_patch_configs, rule good_end_mono [OF assms(1)])
      fix H2 st'
      assume H2: "H' \<subseteq> H2" "carried xs st1 st' \<and> (\<forall>wc \<in> set vs. config_settled xs OValidatingWebhook H2 wc)"
      have "\<forall>wc \<in> set ms. config_settled xs OMutatingWebhook H2 wc"
        using st1 config_settled_mono [OF _ H2(1)] by blast
      moreover have "(?qm, r) \<in> H2" "(?qv, r') \<in> H2" using H' H2(1) by blast+
      ultimately have "webhooks_settled inst xs H2 c"
        unfolding webhooks_settled_def using that H2(2) by blast
      then show "carried xs st st' \<and> webhooks_settled inst xs H2 c"
        using st1 H2(2) by (simp add: carried_def)
    qed (use H' st1 in \<open>auto simp: carried_def\<close>)
  qed (use assms(2) in \<open>auto intro: does_patch_configs\<close>)
  have "does Q (go_try (call ?qv (as_list the_validating_webhook)) (\<lambda>vs.
      go_try (call ?qm (as_list the_mutating_webhook)) (\<lambda>ms.
      go_try (patch_configs OMutatingWebhook ms st) (patch_configs OValidatingWebhook vs)))) H"
    by (intro does_list [OF assms(1)] does_list [OF good_end_grow [OF assms(1) subset_insertI]] configs)
  moreover have "patchWebhook inst c st = go_try (call ?qv (as_list the_validating_webhook)) (\<lambda>vs.
      go_try (call ?qm (as_list the_mutating_webhook)) (\<lambda>ms.
      go_try (patch_configs OMutatingWebhook ms st) (patch_configs OValidatingWebhook vs)))"
    by (simp add: patchWebhook_def getWebhooks_def go_try_assoc)
  ultimately show ?thesis by simp
qed

section \<open>The ClusterServiceVersions\<close>

lemma does_patch_csv:
  assumes "good_end (\<lambda>H _. csv_injected p inst H c) H Q"
  shows "does Q (patch_csv p inst c) H"
proof (cases "csvStrategyName c = ''deployment''")
  case False
  then show ?thesis using good_endD(3) [OF assms order_refl] by (simp add: patch_csv_def csv_injected_def)
next
  case True
  note strategy = this
  show ?thesis
  proof (cases "inject_deployments (restartLabels (spec inst)) (configmapName (spec inst)) (csvDeployments c)")
    case None
    then show ?thesis using True good_endD(2) [OF assms order_refl] by (simp add: patch_csv_def)
  next
    case (Some ds)
    let ?q = "Patch (OCsv (c\<lparr>csvDeployments := ds\<rparr>)) (OCsv c)"
    have sent: "Q (insert (?q, r) H) (Done (as_unit r))" for r
    proof (cases "as_unit r")
      case (Inr u)
      have "csv_injected p inst (insert (?q, r) H) c"
        unfolding csv_injected_def using Some Inr by (intro impI exI [of _ ds]) auto
      then show ?thesis unfolding Inr by (rule good_endD(3) [OF assms subset_insertI])
    qed (simp add: good_endD(1) [OF assms subset_insertI])
    have same: "Q H (Done (Inr ()))" if "pkgSemanticDeepEqual p (csvDeployments c) ds"
      using that Some by (intro good_endD(3) [OF assms order_refl]) (simp add: csv_injected_def)
    show ?thesis
      using Some strategy sent same by (simp add: patch_csv_def hwp_call)
  qed
qed

lemma does_csv_loop:
  assumes "good_end (\<lambda>H st'. carried xs st st' \<and> (\<forall>c \<in> set cs. csv_done p inst xs H c)) H Q"
    and "mset (isMembers st) = mset xs"
  shows "does Q (csv_loop p inst cs st) H"
  using assms
proof (induction cs arbitrary: st H)
  case Nil
  then show ?case by (simp add: good_endD(3) carried_def)
next
  case (Cons c cs)
  let ?marked = "map_of (omAnnotations (csvMeta c)) WebhookMark \<noteq> None"
  have webhooks: "does Q' (if ?marked then patchWebhook inst c st else Ret (Inr st)) H"
    if "good_end (\<lambda>H st1. carried xs st st1 \<and> (?marked \<longrightarrow> webhooks_settled inst xs H c)) H Q'" for Q'
    using that does_patchWebhook [OF _ Cons.prems(2), of inst c H Q'] good_endD(3) [OF that order_refl, of st] Cons.prems(2)
    by (cases ?marked) (simp_all add: carried_def)
  show ?case
    unfolding csv_loop.simps
  proof (rule hwp_go_try_good [OF Cons.prems(1) webhooks], assumption)
    fix st1 H'
    assume H': "H \<subseteq> H'" and st1: "carried xs st st1 \<and> (?marked \<longrightarrow> webhooks_settled inst xs H' c)"
    show "does Q (go_try (patch_csv p inst c) (\<lambda>_. csv_loop p inst cs st1)) H'"
    proof (rule hwp_go_try_good [OF good_end_grow [OF Cons.prems(1) H'] does_patch_csv], assumption)
      fix u H2
      assume H2: "H' \<subseteq> H2" "csv_injected p inst H2 c"
      show "does Q (csv_loop p inst cs st1) H2"
      proof (rule Cons.IH, rule good_end_mono [OF Cons.prems(1) order_trans [OF H' H2(1)]])
        fix H3 st'
        assume H3: "H2 \<subseteq> H3" "carried xs st1 st' \<and> (\<forall>c \<in> set cs. csv_done p inst xs H3 c)"
        have "csv_done p inst xs H3 c"
          unfolding csv_done_def
          using csv_injected_mono [OF H2(2) H3(1)] st1 webhooks_settled_mono [OF _ order_trans [OF H2(1) H3(1)]] by blast
        then show "carried xs st st' \<and> (\<forall>c \<in> set (c # cs). csv_done p inst xs H3 c)"
          using st1 H3(2) by (simp add: carried_def)
      qed (use st1 in \<open>simp add: carried_def\<close>)
    qed
  qed
qed

lemma does_package_loop:
  assumes "good_end (\<lambda>H st'. isManagedCSV st' = isManagedCSV st @ packages \<and>
      (\<forall>pk \<in> set packages. package_done p inst xs H pk)) H Q"
    and "mset (isMembers st) = mset xs"
  shows "does Q (package_loop p inst packages st) H"
  using assms
proof (induction packages arbitrary: st H)
  case Nil
  then show ?case by (simp add: good_endD(3))
next
  case (Cons pk packages)
  let ?q = "ListOf Cached KCsv [] [(package_label inst pk, [])]"
  let ?st = "st\<lparr>isManagedCSV := isManagedCSV st @ [pk]\<rparr>"
  have rest: "does Q (package_loop p inst packages st') H'"
    if "H \<subseteq> H'" "package_done p inst xs H' pk" "isManagedCSV st' = isManagedCSV st @ [pk]" "mset (isMembers st') = mset xs"
    for st' H'
  proof (rule Cons.IH [OF good_end_mono [OF Cons.prems(1) that(1)] that(4)])
    fix H2 st''
    assume "H' \<subseteq> H2" "isManagedCSV st'' = isManagedCSV st' @ packages \<and> (\<forall>pk \<in> set packages. package_done p inst xs H2 pk)"
    then show "isManagedCSV st'' = isManagedCSV st @ pk # packages \<and> (\<forall>pk \<in> set (pk # packages). package_done p inst xs H2 pk)"
      using that(3) package_done_mono [OF that(2)] by simp
  qed
  have listed: "package_done p inst xs H' pk"
    if "as_list the_csv r = Inr cs" "insert (?q, r) H \<subseteq> H'" "\<forall>c \<in> set cs. csv_done p inst xs H' c" for r cs H'
    unfolding package_done_def using that by blast
  have csvs: "does Q (go_try (csv_loop p inst cs (?st\<lparr>isPatchedCSV := isPatchedCSV ?st @ [pk]\<rparr>))
      (package_loop p inst packages)) (insert (?q, r) H)" if "as_list the_csv r = Inr cs" for r cs
  proof (rule hwp_go_try_good [OF good_end_grow [OF Cons.prems(1) subset_insertI] does_csv_loop], assumption)
    fix st2 H'
    assume H': "insert (?q, r) H \<subseteq> H'"
      and st2: "carried xs (?st\<lparr>isPatchedCSV := isPatchedCSV ?st @ [pk]\<rparr>) st2 \<and> (\<forall>c \<in> set cs. csv_done p inst xs H' c)"
    show "does Q (package_loop p inst packages st2) H'"
    proof (rule rest)
      show "package_done p inst xs H' pk" using listed [OF that H'] st2 by blast
    qed (use H' st2 in \<open>auto simp: carried_def\<close>)
  qed (use Cons.prems(2) in simp)
  show ?case
    unfolding package_loop.simps Let_def
  proof (rule does_list [OF Cons.prems(1)])
    fix cs r
    assume r: "as_list the_csv r = Inr cs"
    show "does Q (if length cs = 0 then package_loop p inst packages ?st
        else go_try (csv_loop p inst cs (?st\<lparr>isPatchedCSV := isPatchedCSV ?st @ [pk]\<rparr>)) (package_loop p inst packages))
      (insert (?q, r) H)"
    proof (cases "cs = []")
      case True
      have "does Q (package_loop p inst packages ?st) (insert (?q, r) H)"
        using True listed [OF r order_refl] Cons.prems(2) by (intro rest) auto
      then show ?thesis using True by simp
    qed (use csvs [OF r] in simp)
  qed
qed

section \<open>The handler\<close>

text \<open>The four lists of the status are those computed, or the API server accepted the patch with them.\<close>

definition lists_settled :: "nss \<Rightarrow> history \<Rightarrow> injection_state \<Rightarrow> bool" where
  "lists_settled n H st \<longleftrightarrow>
     merge_lists (nssStatus n) st = nssStatus n \<or>
     answered_ok H (StatusPatch (ONss ((setDefaults n)\<lparr>nssStatus := merge_lists (nssStatus n) st\<rparr>)) (ONss n))"

text \<open>
  All CSVs were listed, the packages that their annotations name were all dealt with for the
  members read, and the status lists them.
\<close>

definition all_injected :: "pkg \<Rightarrow> nss \<Rightarrow> history \<Rightarrow> bool" where
  "all_injected p n H \<longleftrightarrow>
     (\<exists>r csvs xs st.
        (ListOf Cached KCsv [] [], r) \<in> H \<and> as_list the_csv r = Inr csvs \<and> members_read (setDefaults n) H xs \<and>
        (\<forall>pk \<in> set (candidate_packages csvs []). package_done p (setDefaults n) xs H pk) \<and>
        set (isManagedCSV st) = set (candidate_packages csvs []) \<and> lists_settled n H st)"

definition csv_success :: "pkg \<Rightarrow> reconciler \<Rightarrow> key \<Rightarrow> history \<Rightarrow> nat \<Rightarrow> bool" where
  "csv_success p rc req H delay \<longleftrightarrow>
     (\<exists>r. (Get Cached KNss req, r) \<in> H \<and>
        (case as_obj the_nss r of
           Inl e \<Rightarrow> is_not_found e \<and> delay = 0
         | Inr n \<Rightarrow>
             if \<not> enable (csvInjector (spec n)) then delay = 0
             else delay = 180 \<and> (hasOLMAPI rc \<longrightarrow> all_injected p n H)))"

lemma does_CheckStatusLists:
  assumes "good_end (\<lambda>H _. lists_settled n H st) H Q"
  shows "does Q (CheckStatusLists (setDefaults n) n st) H"
proof (cases "nssStatus n = merge_lists (nssStatus n) st")
  case True
  then have "Q H (Done (Inr 180))"
    by (intro good_endD(3) [OF assms order_refl]) (simp add: lists_settled_def)
  then show ?thesis using True by (simp add: CheckStatusLists_def)
next
  case False
  let ?q = "StatusPatch (ONss ((setDefaults n)\<lparr>nssStatus := merge_lists (nssStatus n) st\<rparr>)) (ONss n)"
  have "Q (insert (?q, r) H) (Done (Inr 180))" if "as_unit r = Inr ()" for r
    using that by (intro good_endD(3) [OF assms subset_insertI]) (auto simp: lists_settled_def)
  then show ?thesis
    using False good_endD(1) [OF assms subset_insertI]
    by (auto simp: CheckStatusLists_def Let_def go_try_def bind_call split: sum.split)
qed

lemma does_inject_all:
  assumes "good_end (\<lambda>H delay. delay = 180 \<and> all_injected p n H) H Q"
    and "(ListOf Cached KCsv [] [], r) \<in> H" "as_list the_csv r = Inr csvs"
  shows "does Q
    (go_try (getAllValidatedNamespaceMembers (setDefaults n)) (\<lambda>members.
      bind (ToStringSlice (MakeSet (candidate_packages csvs []))) (\<lambda>packages.
      go_try (package_loop p (setDefaults n) packages
         \<lparr>isManagedCSV = [], isPatchedCSV = [], isManagedWebhook = [], isPatchedWebhook = [], isMembers = members\<rparr>) (\<lambda>st.
      go_try (CheckStatusLists (setDefaults n) n st) (\<lambda>_. Ret (Inr (180 :: nat))))))) H"
proof -
  have packages: "does Q (go_try (package_loop p (setDefaults n) packages
         \<lparr>isManagedCSV = [], isPatchedCSV = [], isManagedWebhook = [], isPatchedWebhook = [], isMembers = xs\<rparr>) (\<lambda>st.
      go_try (CheckStatusLists (setDefaults n) n st) (\<lambda>_. Ret (Inr 180)))) H2"
    if H2: "H \<subseteq> H2" and xs: "members_read (setDefaults n) H2 xs" and pks: "set packages = set (candidate_packages csvs [])"
    for packages xs H2
  proof (rule hwp_go_try_good [OF good_end_grow [OF assms(1) H2] does_package_loop], assumption)
    fix st :: injection_state and H3
    assume H3: "H2 \<subseteq> H3" and st: "isManagedCSV st = isManagedCSV \<lparr>isManagedCSV = [], isPatchedCSV = [],
        isManagedWebhook = [], isPatchedWebhook = [], isMembers = xs\<rparr> @ packages \<and>
      (\<forall>pk \<in> set packages. package_done p (setDefaults n) xs H3 pk)"
    show "does Q (go_try (CheckStatusLists (setDefaults n) n st) (\<lambda>_. Ret (Inr 180))) H3"
    proof (rule hwp_go_try_good [OF good_end_grow [OF assms(1) order_trans [OF H2 H3]] does_CheckStatusLists], assumption)
      fix u H4
      assume H4: "H3 \<subseteq> H4" "lists_settled n H4 st"
      have sub: "H \<subseteq> H4" by (rule order_trans [OF H2 order_trans [OF H3 H4(1)]])
      have "all_injected p n H4"
        unfolding all_injected_def
      proof (rule exI [of _ r], rule exI [of _ csvs], rule exI [of _ xs], rule exI [of _ st], intro conjI)
        show "(ListOf Cached KCsv [] [], r) \<in> H4" using assms(2) sub by blast
        show "members_read (setDefaults n) H4 xs" by (rule members_read_mono [OF xs order_trans [OF H3 H4(1)]])
        show "\<forall>pk \<in> set (candidate_packages csvs []). package_done p (setDefaults n) xs H4 pk"
          using st package_done_mono [OF _ H4(1)] pks by blast
        show "set (isManagedCSV st) = set (candidate_packages csvs [])" using st pks by simp
      qed (rule assms(3), rule H4(2))
      then show "does Q (Ret (Inr 180)) H4"
        by (simp add: good_endD(3) [OF assms(1) sub])
    qed
  qed simp
  show ?thesis
    unfolding hwp_go_try [of _ _ _ "getAllValidatedNamespaceMembers _"]
  proof (rule hwp_getAllValidatedNamespaceMembers)
    fix H' xs
    assume H': "H \<subseteq> H'" and xs: "members_read (setDefaults n) H' xs"
    show "and_then (Q H') (\<lambda>x. case x of Inl e \<Rightarrow> Q H' (Done (Inl e)) | Inr members \<Rightarrow>
      does Q (bind (ToStringSlice (MakeSet (candidate_packages csvs []))) (\<lambda>packages.
      go_try (package_loop p (setDefaults n) packages
         \<lparr>isManagedCSV = [], isPatchedCSV = [], isManagedWebhook = [], isPatchedWebhook = [], isMembers = members\<rparr>) (\<lambda>st.
      go_try (CheckStatusLists (setDefaults n) n st) (\<lambda>_. Ret (Inr 180))))) H') (Done (Inr xs))"
      using H' members_read_mono [OF xs subset_insertI]
      by (auto simp: ToStringSlice_def bind_call intro!: packages)
  qed (use good_endD(1) [OF assms(1)] in simp_all)
qed

lemma does_CSVReconcile:
  assumes "good_end (csv_success p rc req) {} Q"
  shows "does Q (CSVReconcile p rc req) {}"
proof -
  let ?get = "Get Cached KNss req"
  have success: "csv_success p rc req H delay"
    if "(?get, r) \<in> H" "as_obj the_nss r = Inr n"
      "if \<not> enable (csvInjector (spec n)) then delay = 0 else delay = 180 \<and> (hasOLMAPI rc \<longrightarrow> all_injected p n H)"
    for r n H and delay :: nat
    unfolding csv_success_def using that by (intro exI [of _ r]) simp
  have inject: "does Q (go_try (call (ListOf Cached KCsv [] []) (as_list the_csv)) (\<lambda>csvs.
      go_try (getAllValidatedNamespaceMembers (setDefaults n)) (\<lambda>members.
      bind (ToStringSlice (MakeSet (candidate_packages csvs []))) (\<lambda>ps. go_try (package_loop p (setDefaults n) ps
        \<lparr>isManagedCSV = [], isPatchedCSV = [], isManagedWebhook = [], isPatchedWebhook = [], isMembers = members\<rparr>)
      (\<lambda>st. go_try (CheckStatusLists (setDefaults n) n st) (\<lambda>_. Ret (Inr 180))))))) {(?get, r)}"
    if "as_obj the_nss r = Inr n" "enable (csvInjector (spec n))" for r n
  proof (rule does_list [OF good_end_grow [OF assms]])
    fix csvs r'
    assume "as_list the_csv r' = Inr csvs"
    then show "does Q (go_try (getAllValidatedNamespaceMembers (setDefaults n)) (\<lambda>members.
      bind (ToStringSlice (MakeSet (candidate_packages csvs []))) (\<lambda>ps. go_try (package_loop p (setDefaults n) ps
        \<lparr>isManagedCSV = [], isPatchedCSV = [], isManagedWebhook = [], isPatchedWebhook = [], isMembers = members\<rparr>)
      (\<lambda>st. go_try (CheckStatusLists (setDefaults n) n st) (\<lambda>_. Ret (Inr 180))))))
      (insert (ListOf Cached KCsv [] [], r') {(?get, r)})"
    proof (rule does_inject_all [rotated 2], intro good_end_mono [OF assms])
      fix H and delay :: nat
      assume "insert (ListOf Cached KCsv [] [], r') {(?get, r)} \<subseteq> H" "delay = 180 \<and> all_injected p n H"
      then show "csv_success p rc req H delay" using that by (intro success [of r]) auto
    qed simp_all
  qed simp
  have others: "Q {(?get, r)} (Done (Inr delay))"
    if "as_obj the_nss r = Inr n" "\<not> enable (csvInjector (spec n)) \<and> delay = 0 \<or> enable (csvInjector (spec n)) \<and> delay = 180 \<and> \<not> hasOLMAPI rc"
    for r n and delay :: nat
    using that by (intro good_endD(3) [OF assms] success [of r]) auto
  have gone: "Q {(?get, r)} (Done (Inr 0))" if "as_obj the_nss r = Inl e" "is_not_found e" for r e
    using that by (intro good_endD(3) [OF assms]) (auto simp: csv_success_def)
  show ?thesis
    unfolding CSVReconcile_def bind_call Let_def
    using inject others gone good_endD(1) [OF assms] by (auto split: sum.split)
qed

section \<open>The property\<close>

text \<open>
  C23: what the success of \<open>CSVReconcile\<close> means. A run that returns no error read the instance; it is
  gone or does not ask for the injection (and the delay is none), or the delay is 180 seconds. Then,
  unless OLM is not installed, all CSVs were listed, and for every package that an annotation of one
  of them names, every CSV with the label of the package has its deployments injected, by no need
  or by a patch that the API server accepted; every webhook configuration that OLM made for an
  annotated one was updated, each of its webhooks with the selector
  \<open>kubernetes.io/metadata.name In\<close> the validated members read, unless the first requirement of its
  selector had these members as its values already, whatever its key and operator, in which case the
  selector stayed; and the status lists the packages.
\<close>

theorem CSVReconcile_complete:
  "ensures (CSVReconcile p rc req) (\<lambda>_ _. True)
     (\<lambda>H oc. oc \<noteq> Blocked \<and> (case oc of Done (Inr delay) \<Rightarrow> csv_success p rc req H delay | _ \<Rightarrow> True))"
  by (rule ensuresI, rule does_CSVReconcile) (auto simp: good_end_def split: outcome.split sum.split)

end
