(* ===== verification/Config_Properties.thy ===== *)
theory Config_Properties
  imports Cleanup_Properties Restart_Complete
begin

text \<open>
  The ConfigMap against its contract: after a successful \<open>UpdateConfigMap\<close> the value of
  \<open>namespaces\<close> lists the validated members of the instances that share the ConfigMap, and the
  value written can be read back as the list it was made from.
\<close>

section \<open>The encoding of the list\<close>

text \<open>
  The client of the ConfigMap (the operators that watch it, and \<open>UpdateConfigMap\<close> itself in its
  next run) splits the value at the commas. What an encoding of lists has to offer it:
\<close>

locale list_codec =
  fixes enc :: "string list \<Rightarrow> string" and dec :: "string \<Rightarrow> string list" and ok :: "string list \<Rightarrow> bool"
  assumes dec_enc: "ok xs \<Longrightarrow> dec (enc xs) = xs" and enc_dec: "enc (dec s) = s"
begin

lemma same_members: "ok xs \<Longrightarrow> mset xs = mset ys \<Longrightarrow> mset (dec (enc xs)) = mset ys"
  by (simp add: dec_enc)

lemma enc_inject: "ok xs \<Longrightarrow> ok ys \<Longrightarrow> enc xs = enc ys \<longleftrightarrow> xs = ys"
  using dec_enc by metis

end

definition decodable :: "string list \<Rightarrow> bool" where
  "decodable xs \<longleftrightarrow> xs \<noteq> [] \<and> (\<forall>x \<in> set xs. CHR '','' \<notin> set x)"

interpretation commas: list_codec "join_with '',''" "split_on CHR '',''" decodable
  by unfold_locales (simp_all add: decodable_def split_on_join join_split_on)

lemma decodable_mset: "mset xs = mset ys \<Longrightarrow> decodable xs \<longleftrightarrow> decodable ys"
  unfolding decodable_def by (metis mset_zero_iff set_mset_mset)

section \<open>The grounds of a write\<close>

text \<open>The ConfigMap lists \<open>xs\<close>, in some order, under its only key; it is the instance's.\<close>

definition lists_members :: "config_map \<Rightarrow> string list \<Rightarrow> bool" where
  "lists_members cm xs \<longleftrightarrow> (\<exists>ys. mset ys = mset xs \<and> cm_namespaces cm = join_with '','' ys)"

definition owned_by :: "nss \<Rightarrow> config_map \<Rightarrow> bool" where
  "owned_by inst cm \<longleftrightarrow> omUID (nssMeta inst) \<in> set (map orUID (omOwnerReferences (cmMeta cm)))"

abbreviation config_map_key :: "nss \<Rightarrow> key" where
  "config_map_key inst \<equiv> (nss_namespace inst, configmapName (spec inst))"

definition config_map_absent :: "nss \<Rightarrow> history \<Rightarrow> bool" where
  "config_map_absent inst H \<longleftrightarrow>
     (\<exists>e. (Get Cached KConfigMap (config_map_key inst), RErr e) \<in> H \<and> is_not_found e)"

text \<open>The ConfigMap was written, and the answer is the object \<open>cm'\<close>.\<close>

definition config_map_stored :: "nss \<Rightarrow> history \<Rightarrow> config_map \<Rightarrow> config_map \<Rightarrow> bool" where
  "config_map_stored inst H cm cm' \<longleftrightarrow>
     (Create (OConfigMap cm), RObj (OConfigMap cm')) \<in> H \<or> (Update (OConfigMap cm), RObj (OConfigMap cm')) \<in> H"

text \<open>
  A new ConfigMap when none was found; an update of the one that was read, which either brings
  the list up to date or only adds the owner reference; and the requests of \<open>RestartPods\<close> for a
  ConfigMap that was stored before.
\<close>

definition config_request :: "nss \<Rightarrow> history \<Rightarrow> request \<Rightarrow> bool" where
  "config_request inst H q \<longleftrightarrow>
     (is_write q \<longrightarrow>
        (\<exists>cm xs. q = Create (OConfigMap cm) \<and> config_map_absent inst H \<and> members_read inst H xs \<and>
           lists_members cm xs \<and> owned_by inst cm \<and>
           meta_key (cmMeta cm) = config_map_key inst \<and> omLabels (cmMeta cm) = [(NamespaceScopeLabel, ''true'')]) \<or>
        (\<exists>cm cm0 xs. q = Update (OConfigMap cm) \<and> config_map_read inst H cm0 \<and> members_read inst H xs \<and>
           meta_key (cmMeta cm) = meta_key (cmMeta cm0) \<and> omLabels (cmMeta cm) = omLabels (cmMeta cm0) \<and>
           owned_by inst cm \<and>
           (lists_members cm xs \<or> cmData cm = cmData cm0 \<and> mset (split_on CHR '','' (cm_namespaces cm)) = mset xs)) \<or>
        (\<exists>cm cm'. config_map_stored inst H cm cm' \<and>
           restart_request (restartLabels (spec inst)) cm' (nss_namespace inst) H q))"

text \<open>
  Success: the ConfigMap that was read is owned by the instance and lists the members; or it was
  written so, and \<open>RestartPods\<close> succeeded (see \<open>RestartPods_complete\<close> for what that means); or only the
  owner was missing, and it was written with its data unchanged.
\<close>

definition config_result :: "nss \<Rightarrow> history \<Rightarrow> (err + unit) outcome \<Rightarrow> bool" where
  "config_result inst H oc \<longleftrightarrow>
     oc \<noteq> Blocked \<and>
     (oc = Done (Inr ()) \<longrightarrow>
        (\<exists>xs. members_read inst H xs \<and>
           ((\<exists>cm. config_map_read inst H cm \<and> owned_by inst cm \<and>
               mset (split_on CHR '','' (cm_namespaces cm)) = mset xs) \<or>
            (\<exists>cm cm'. config_map_stored inst H cm cm' \<and> owned_by inst cm \<and> lists_members cm xs \<and>
               restart_handled (restartLabels (spec inst)) cm' (nss_namespace inst) H) \<or>
            (\<exists>cm cm' cm0. config_map_stored inst H cm cm' \<and> owned_by inst cm \<and> config_map_read inst H cm0 \<and>
               cmData cm = cmData cm0 \<and> mset (split_on CHR '','' (cm_namespaces cm)) = mset xs))))"

lemma config_read [simp]: "\<not> is_write q \<Longrightarrow> config_request inst H q"
  by (simp add: config_request_def)

lemma config_map_stored_mono: "config_map_stored inst H cm cm' \<Longrightarrow> H \<subseteq> H' \<Longrightarrow> config_map_stored inst H' cm cm'"
  unfolding config_map_stored_def by blast

lemma config_result_written:
  "config_map_stored inst H cm cm' \<Longrightarrow> owned_by inst cm \<Longrightarrow> members_read inst H xs \<Longrightarrow> lists_members cm xs \<Longrightarrow>
     restart_handled (restartLabels (spec inst)) cm' (nss_namespace inst) H \<Longrightarrow> config_result inst H (Done x)"
  unfolding config_result_def by blast

lemma config_result_owned:
  "config_map_stored inst H cm cm' \<Longrightarrow> owned_by inst cm \<Longrightarrow> members_read inst H xs \<Longrightarrow>
     config_map_read inst H cm0 \<Longrightarrow> cmData cm = cmData cm0 \<Longrightarrow>
     mset (split_on CHR '','' (cm_namespaces cm)) = mset xs \<Longrightarrow> config_result inst H (Done x)"
  unfolding config_result_def by blast

lemma config_result_unchanged:
  "config_map_read inst H cm \<Longrightarrow> owned_by inst cm \<Longrightarrow> members_read inst H xs \<Longrightarrow>
     mset (split_on CHR '','' (cm_namespaces cm)) = mset xs \<Longrightarrow> config_result inst H (Done x)"
  unfolding config_result_def by blast

lemma config_request_update:
  "config_map_read inst H cm0 \<Longrightarrow> members_read inst H xs \<Longrightarrow> meta_key (cmMeta cm) = meta_key (cmMeta cm0) \<Longrightarrow>
     omLabels (cmMeta cm) = omLabels (cmMeta cm0) \<Longrightarrow> owned_by inst cm \<Longrightarrow>
     lists_members cm xs \<or> cmData cm = cmData cm0 \<and> mset (split_on CHR '','' (cm_namespaces cm)) = mset xs \<Longrightarrow>
     config_request inst H (Update (OConfigMap cm))"
  unfolding config_request_def by blast

lemma config_result_mono:
  assumes "config_result inst H (Done (Inr ()))" "H \<subseteq> H'"
  shows "config_result inst H' (Done (Inr ()))"
proof -
  note mono = members_read_mono [OF _ assms(2)] config_map_read_mono [OF _ assms(2)]
    config_map_stored_mono [OF _ assms(2)] restart_handled_mono [OF _ assms(2)]
  obtain xs where xs: "members_read inst H xs"
    and "(\<exists>cm. config_map_read inst H cm \<and> owned_by inst cm \<and> mset (split_on CHR '','' (cm_namespaces cm)) = mset xs) \<or>
      (\<exists>cm cm'. config_map_stored inst H cm cm' \<and> owned_by inst cm \<and> lists_members cm xs \<and>
         restart_handled (restartLabels (spec inst)) cm' (nss_namespace inst) H) \<or>
      (\<exists>cm cm' cm0. config_map_stored inst H cm cm' \<and> owned_by inst cm \<and> config_map_read inst H cm0 \<and>
         cmData cm = cmData cm0 \<and> mset (split_on CHR '','' (cm_namespaces cm)) = mset xs)"
    using assms(1) unfolding config_result_def by blast
  from this(2) show ?thesis
  proof (elim disjE exE conjE)
    fix cm
    assume "config_map_read inst H cm" "owned_by inst cm" "mset (split_on CHR '','' (cm_namespaces cm)) = mset xs"
    then show ?thesis using mono(1) [OF xs] mono(2) by (intro config_result_unchanged)
  next
    fix cm cm'
    assume "config_map_stored inst H cm cm'" "owned_by inst cm" "lists_members cm xs"
      "restart_handled (restartLabels (spec inst)) cm' (nss_namespace inst) H"
    then show ?thesis using mono(1) [OF xs] mono(3,4) by (intro config_result_written)
  next
    fix cm cm' cm0
    assume "config_map_stored inst H cm cm'" "owned_by inst cm" "config_map_read inst H cm0"
      "cmData cm = cmData cm0" "mset (split_on CHR '','' (cm_namespaces cm)) = mset xs"
    then show ?thesis using mono(1) [OF xs] mono(2,3) by (intro config_result_owned)
  qed
qed

section \<open>Restarting after the write\<close>

lemma hwp_restart_stored:
  assumes "daemonSetPermissionChecker rc = None" "config_map_stored inst H cm cm'"
    and "owned_by inst cm" "members_read inst H xs" "lists_members cm xs"
  shows "hwp (config_request inst) S (config_result inst)
     (RestartPods rc (restartLabels (spec inst)) cm' (nss_namespace inst)) H"
proof (rule hwp_conseq)
  let ?done = "\<lambda>H (_ :: unit). restart_handled (restartLabels (spec inst)) cm' (nss_namespace inst) H"
  show "hwp (restart_request (restartLabels (spec inst)) cm' (nss_namespace inst)) S
      (\<lambda>H' oc. oc \<noteq> Blocked \<and> (\<forall>u. oc = Done (Inr u) \<longrightarrow> ?done H' u))
      (RestartPods rc (restartLabels (spec inst)) cm' (nss_namespace inst)) H"
    by (rule hwp_both [OF hwp_RestartPods [OF assms(1)] hwp_RestartPods_done [OF assms(1)]])
       (simp_all add: any_end_def good_end_def)
  show "config_request inst H' q"
    if "H \<subseteq> H'" "restart_request (restartLabels (spec inst)) cm' (nss_namespace inst) H' q" for H' q
    unfolding config_request_def using config_map_stored_mono [OF assms(2) that(1)] that(2) by blast
  show "config_result inst H' oc"
    if "H \<subseteq> H'" "oc \<noteq> Blocked \<and> (\<forall>u. oc = Done (Inr u) \<longrightarrow> ?done H' u)" for H' oc
  proof (cases "oc = Done (Inr ())")
    case True
    then show ?thesis
      using config_result_written [OF config_map_stored_mono [OF assms(2) that(1)] assms(3)
          members_read_mono [OF assms(4) that(1)] assms(5)] that(2) by simp
  qed (use that in \<open>simp add: config_result_def\<close>)
qed

section \<open>The two ways to write it\<close>

lemma cm_namespaces_new [simp]: "cm_namespaces (new_config_map inst xs) = join_with '','' xs"
  by (simp add: cm_namespaces_def new_config_map_def namespaces_key_def map_get_def)

lemma set_owner_facts:
  assumes "pkg_ok p" "pkgSetOwnerReference p inst cm = Inr cm'"
  shows "cmData cm' = cmData cm" "meta_key (cmMeta cm') = meta_key (cmMeta cm)"
    "omLabels (cmMeta cm') = omLabels (cmMeta cm)" "owned_by inst cm'"
    "cm_namespaces cm' = cm_namespaces cm"
proof -
  from assms(1) have "set_owner_law (pkgSetOwnerReference p)"
    unfolding pkg_ok_def controller_util_def by blast
  then show "cmData cm' = cmData cm" "meta_key (cmMeta cm') = meta_key (cmMeta cm)"
    "omLabels (cmMeta cm') = omLabels (cmMeta cm)" "owned_by inst cm'"
    using assms(2) unfolding set_owner_law_def owned_by_def by blast+
  then show "cm_namespaces cm' = cm_namespaces cm"
    by (simp add: cm_namespaces_def)
qed

text \<open>A stored ConfigMap is followed by the restart; an error ends the update.\<close>

lemma hwp_stored_then_restart:
  assumes "daemonSetPermissionChecker rc = None" "owned_by inst cm" "members_read inst H xs"
    and "lists_members cm xs" "q = Create (OConfigMap cm) \<or> q = Update (OConfigMap cm)"
    and "config_request inst H q"
  shows "hwp (config_request inst) S (config_result inst)
     (go_try (call q (as_obj the_config_map))
        (\<lambda>cm'. RestartPods rc (restartLabels (spec inst)) cm' (nss_namespace inst))) H"
proof -
  have "hwp (config_request inst) S (config_result inst)
      (RestartPods rc (restartLabels (spec inst)) cm' (nss_namespace inst)) (insert (q, RObj (OConfigMap cm')) H)" for cm'
    by (rule hwp_restart_stored [OF assms(1), where cm = cm and xs = xs])
       (use assms in \<open>auto simp: config_map_stored_def intro: members_read_mono\<close>)
  then have "hwp (config_request inst) S (config_result inst)
      (case as_obj the_config_map r of Inl e \<Rightarrow> Ret (Inl e)
         | Inr cm' \<Rightarrow> RestartPods rc (restartLabels (spec inst)) cm' (nss_namespace inst)) (insert (q, r) H)" for r
    by (auto simp: config_result_def split: sum.split elim: as_obj_InrE)
  then show ?thesis
    using assms(6) by (simp add: go_try_def bind_call)
qed

lemma hwp_create_config_map:
  assumes "pkg_ok p" "daemonSetPermissionChecker rc = None" "members_read inst H xs" "config_map_absent inst H"
  shows "hwp (config_request inst) S (config_result inst) (create_config_map p rc inst xs) H"
proof (cases "pkgSetOwnerReference p inst (new_config_map inst xs)")
  case (Inl e)
  then show ?thesis by (simp add: create_config_map_def config_result_def)
next
  case (Inr cm)
  note owner = set_owner_facts [OF assms(1) Inr]
  have lists: "lists_members cm xs"
    unfolding lists_members_def owner by (intro exI [of _ xs]) simp
  have "meta_key (cmMeta cm) = config_map_key inst \<and> omLabels (cmMeta cm) = [(NamespaceScopeLabel, ''true'')]"
    unfolding owner by (simp add: new_config_map_def new_meta_def meta_key_def)
  then have "config_request inst H (Create (OConfigMap cm))"
    unfolding config_request_def using assms(3,4) owner(4) lists by blast
  then show ?thesis
    unfolding create_config_map_def Inr sum.case
    by (intro hwp_stored_then_restart [OF assms(2) owner(4) assms(3) lists]) simp_all
qed

lemma cm_namespaces_put [simp]:
  "cm_namespaces (cm\<lparr>cmData := Some (map_put d namespaces_key v)\<rparr>) = v"
  by (simp add: cm_namespaces_def)

text \<open>The update of a ConfigMap that was read, once it is known what is written and why.\<close>

lemma hwp_write_config_map:
  assumes "pkg_ok p" "daemonSetPermissionChecker rc = None" "config_map_read inst H cm" "members_read inst H xs"
    and "meta_key (cmMeta cm1) = meta_key (cmMeta cm)" "omLabels (cmMeta cm1) = omLabels (cmMeta cm)"
    and "restart \<Longrightarrow> lists_members cm1 xs"
    and "\<not> restart \<Longrightarrow> cmData cm1 = cmData cm \<and> mset (split_on CHR '','' (cm_namespaces cm1)) = mset xs"
  shows "hwp (config_request inst) S (config_result inst)
     (case pkgSetOwnerReference p inst cm1 of
        Inl e \<Rightarrow> Ret (Inl e)
      | Inr cm2 \<Rightarrow> go_try (call (Update (OConfigMap cm2)) (as_obj the_config_map)) (\<lambda>cm3.
          if restart then RestartPods rc (restartLabels (spec inst)) cm3 (nss_namespace inst)
          else Ret (Inr ()))) H"
proof (cases "pkgSetOwnerReference p inst cm1")
  case (Inl e)
  then show ?thesis by (simp add: config_result_def)
next
  case (Inr cm2)
  note owner = set_owner_facts [OF assms(1) Inr]
  show ?thesis
  proof (cases restart)
    case True
    with assms(7) owner(5) have lists: "lists_members cm2 xs"
      by (simp add: lists_members_def)
    have "config_request inst H (Update (OConfigMap cm2))"
      by (rule config_request_update [OF assms(3,4)]) (use assms(5,6) owner lists in simp_all)
    with True Inr show ?thesis
      using hwp_stored_then_restart [OF assms(2) owner(4) assms(4) lists] by simp
  next
    case False
    with assms(8) owner have same: "cmData cm2 = cmData cm" "mset (split_on CHR '','' (cm_namespaces cm2)) = mset xs"
      by simp_all
    have request: "config_request inst H (Update (OConfigMap cm2))"
      by (rule config_request_update [OF assms(3,4)]) (use assms(5,6) owner same in simp_all)
    have "config_result inst (insert (Update (OConfigMap cm2), r) H) (Done (Inr ()))"
      if "as_obj the_config_map r = Inr cm3" for r cm3
    proof (rule config_result_owned [OF _ owner(4) members_read_mono [OF assms(4) subset_insertI] _ same])
      show "config_map_stored inst (insert (Update (OConfigMap cm2), r) H) cm2 cm3"
        using as_obj_InrE [OF that] by (auto simp: config_map_stored_def)
    qed (rule config_map_read_mono [OF assms(3) subset_insertI])
    then show ?thesis
      using Inr False request
      by (auto simp: go_try_def bind_call config_result_def [of _ _ "Done (Inl _)"] split: sum.split)
  qed
qed

lemma hwp_sync_config_map:
  assumes "pkg_ok p" "daemonSetPermissionChecker rc = None" "config_map_read inst H cm" "members_read inst H xs"
  shows "hwp (config_request inst) S (config_result inst) (sync_config_map p rc inst xs cm) H"
proof -
  let ?current = "split_on CHR '','' (cm_namespaces cm)"
  obtain differs m1 c1 where d1: "CheckListDifference xs ?current = (differs, m1, c1)"
    by (metis prod_cases3)
  obtain restart m2 c2 where d2: "CheckListDifference m1 ?current = (restart, m2, c2)"
    by (metis prod_cases3)
  have m: "mset m1 = mset xs" "mset m2 = mset xs"
    using CheckListDifference_mset [OF d1] CheckListDifference_mset [OF d2] by simp_all
  have iff: "differs \<longleftrightarrow> mset xs \<noteq> mset ?current" "restart \<longleftrightarrow> mset xs \<noteq> mset ?current"
    using CheckListDifference_iff [of xs ?current] CheckListDifference_iff [of m1 ?current] d1 d2 m by simp_all
  define cm1 where "cm1 = (if restart
    then cm\<lparr>cmData := map_option (\<lambda>d. map_put d namespaces_key (join_with '','' m2)) (cmData cm)\<rparr> else cm)"
  show ?thesis
  proof (cases "differs \<or> \<not> owned_by inst cm")
    case False
    then have "config_result inst H (Done (Inr ()))"
      using iff(1) by (intro config_result_unchanged [OF assms(3) _ assms(4)]) simp_all
    with False show ?thesis
      by (simp add: sync_config_map_def d1 Let_def owned_by_def GetOwnerReferenceUIDs_def)
  next
    case True
    show ?thesis
    proof (cases "restart \<and> cmData cm = None")
      case True': True
      with True show ?thesis
        by (simp add: sync_config_map_def d1 d2 Let_def owned_by_def GetOwnerReferenceUIDs_def config_result_def)
    next
      case False
      have "lists_members cm1 xs" if restart
        unfolding lists_members_def using that False m(2)
        by (intro exI [of _ m2]) (auto simp: cm1_def)
      moreover have "cmData cm1 = cmData cm \<and> mset (split_on CHR '','' (cm_namespaces cm1)) = mset xs" if "\<not> restart"
        using that iff(2) by (simp add: cm1_def)
      ultimately have "hwp (config_request inst) S (config_result inst)
        (case pkgSetOwnerReference p inst cm1 of
          Inl e \<Rightarrow> Ret (Inl e)
        | Inr cm2 \<Rightarrow> go_try (call (Update (OConfigMap cm2)) (as_obj the_config_map)) (\<lambda>cm3.
            if restart then RestartPods rc (restartLabels (spec inst)) cm3 (nss_namespace inst)
            else Ret (Inr ()))) H"
        by (intro hwp_write_config_map [OF assms]) (simp_all add: cm1_def)
      with True False show ?thesis
        by (auto simp: sync_config_map_def d1 d2 Let_def owned_by_def GetOwnerReferenceUIDs_def cm1_def [symmetric])
    qed
  qed
qed

lemma hwp_UpdateConfigMap:
  assumes "pkg_ok p" "daemonSetPermissionChecker rc = None"
  shows "hwp (config_request inst) S (config_result inst) (UpdateConfigMap p rc inst) H"
proof -
  let ?q = "Get Cached KConfigMap (config_map_key inst)"
  let ?then = "\<lambda>xs x. case x of
      Inl e \<Rightarrow> if is_not_found e then create_config_map p rc inst xs else Ret (Inl e)
    | Inr cm \<Rightarrow> sync_config_map p rc inst xs cm"
  have "hwp (config_request inst) S (config_result inst) (?then xs (as_obj the_config_map r)) (insert (?q, r) H2)"
    if "members_read inst H2 xs" for xs r H2
  proof (cases "as_obj the_config_map r")
    case (Inl e)
    have xs: "members_read inst (insert (?q, r) H2) xs"
      using that by (rule members_read_mono) auto
    have "config_map_absent inst (insert (?q, r) H2)" if "is_not_found e"
      using as_obj_not_found [OF Inl that] that by (auto simp: config_map_absent_def)
    then show ?thesis
      using Inl hwp_create_config_map [OF assms xs] by (auto simp: config_result_def)
  next
    case (Inr cm)
    then have "config_map_read inst (insert (?q, r) H2) cm"
      by (auto simp: config_map_read_def elim: as_obj_InrE)
    then show ?thesis
      unfolding Inr sum.case
      by (rule hwp_sync_config_map [OF assms]) (rule members_read_mono [OF that], auto)
  qed
  then have "hwp (config_request inst) S (config_result inst)
      (bind (get_config_map (config_map_key inst)) (?then xs)) H2" if "members_read inst H2 xs" for xs H2
    using that by (simp add: get_config_map_def bind_call)
  then show ?thesis
    unfolding UpdateConfigMap_def hwp_go_try
    by (intro hwp_getAllValidatedNamespaceMembers) (auto simp: config_result_def [of _ _ "Done (Inl _)"])
qed

section \<open>Properties\<close>

text \<open>
  C14: \<open>UpdateConfigMap\<close> makes the ConfigMap list the members in use. It creates the ConfigMap
  only when it was not found, otherwise it updates the one it read, keeps its name and labels,
  and adds the owner reference; \<open>RestartPods\<close> runs only on a ConfigMap that was stored before.
  When it reports success the ConfigMap, as read or as written, is owned by the instance and
  lists exactly the validated members of the live instances that share it; and when its list was
  written, \<open>RestartPods\<close> was carried out in full, which means what \<open>RestartPods_complete\<close> says it does:
  of the pods with the restart labels that read the ConfigMap those of operators were deleted, the
  Deployments of the others were annotated, the DaemonSets annotated or refused, and the
  StatefulSets left as they were.
\<close>

theorem UpdateConfigMap_lists_members:
  assumes "pkg_ok p" "daemonSetPermissionChecker rc = None"
  shows "ensures (UpdateConfigMap p rc inst) (config_request inst) (config_result inst)"
  by (rule ensuresI) (rule hwp_UpdateConfigMap [OF assms])

theorem UpdateConfigMap_lists_members_witness:
  "ensures (UpdateConfigMap std_pkg sample_reconciler sample_nss) (config_request sample_nss) (config_result sample_nss)"
  by (rule UpdateConfigMap_lists_members) (simp_all add: std_pkg_ok sample_reconciler_def)

text \<open>
  What a ConfigMap that the instance owns and that has data does to \<open>sync_config_map\<close>: it is left
  alone, without any request, exactly when the value splits into the members.
\<close>

lemma sync_config_map_idle:
  assumes "owned_by inst cm" "cmData cm \<noteq> None"
  shows "sync_config_map p rc inst xs cm = Ret (Inr ()) \<longleftrightarrow> mset xs = mset (split_on CHR '','' (cm_namespaces cm))"
proof -
  let ?current = "split_on CHR '','' (cm_namespaces cm)"
  obtain d1 m1 c1 where d1: "CheckListDifference xs ?current = (d1, m1, c1)" by (metis prod_cases3)
  obtain d2 m2 c2 where d2: "CheckListDifference m1 ?current = (d2, m2, c2)" by (metis prod_cases3)
  have differs: "d1 \<longleftrightarrow> mset xs \<noteq> mset ?current" "d2 \<longleftrightarrow> d1"
    using CheckListDifference_iff [of xs ?current] CheckListDifference_iff [of m1 ?current] d1 d2
      CheckListDifference_mset [OF d1] by simp_all
  have owner: "UIDContains (GetOwnerReferenceUIDs (omOwnerReferences (cmMeta cm))) (omUID (nssMeta inst))"
    using assms(1) by (simp add: owned_by_def GetOwnerReferenceUIDs_def)
  show ?thesis
  proof (cases d1)
    case True
    then have "sync_config_map p rc inst xs cm \<noteq> Ret (Inr ())"
      using assms(2) differs(2) by (auto simp: sync_config_map_def d1 d2 go_try_def bind_call Let_def split: sum.split)
    with True differs(1) show ?thesis by blast
  qed (use differs(1) owner in \<open>simp add: sync_config_map_def d1\<close>)
qed

text \<open>
  C33: what is written can be read back. A ConfigMap as \<open>create_config_map\<close> sends it for the members
  \<open>xs\<close> (names without commas, at least one) is found up to date by a later \<open>sync_config_map\<close>, which then
  makes no request at all, exactly when the members have stayed the same, in whatever order they
  are computed then.
\<close>

theorem config_map_round_trip:
  assumes "pkg_ok p" "decodable xs" "pkgSetOwnerReference p inst (new_config_map inst xs) = Inr cm"
  shows "sync_config_map p rc inst ys cm = Ret (Inr ()) \<longleftrightarrow> mset ys = mset xs"
proof -
  have owner: "set_owner_law (pkgSetOwnerReference p)"
    using assms(1) unfolding pkg_ok_def by (rule controller_util.owner_set)
  then have data: "cmData cm = cmData (new_config_map inst xs)" and "owned_by inst cm"
    using assms(3) unfolding set_owner_law_def owned_by_def by blast+
  then have "mset (split_on CHR '','' (cm_namespaces cm)) = mset xs"
    using commas.same_members [OF assms(2) refl] by (simp add: cm_namespaces_def new_config_map_def map_get_def)
  moreover have "cmData cm \<noteq> None" by (simp add: data new_config_map_def)
  ultimately show ?thesis
    using sync_config_map_idle [OF \<open>owned_by inst cm\<close>] by metis
qed

theorem config_map_round_trip_witness:
  "\<exists>cm. pkgSetOwnerReference std_pkg sample_nss (new_config_map sample_nss [''app'', ''db'']) = Inr cm \<and>
     sync_config_map std_pkg sample_reconciler sample_nss [''db'', ''app''] cm = Ret (Inr ()) \<and>
     sync_config_map std_pkg sample_reconciler sample_nss [''app''] cm \<noteq> Ret (Inr ())"
proof -
  have "\<exists>cm. pkgSetOwnerReference std_pkg n c = Inr cm" for n c
    by (simp add: std_pkg_def std_set_owner_def Let_def)
  then obtain cm where cm: "pkgSetOwnerReference std_pkg sample_nss (new_config_map sample_nss [''app'', ''db'']) = Inr cm"
    by blast
  have "decodable [''app'', ''db'']" by (simp add: decodable_def)
  from config_map_round_trip [OF std_pkg_ok this cm] cm show ?thesis by auto
qed

text \<open>
  The empty list is not read back. Splitting the empty value yields one empty name, so that
  with no members left every \<open>UpdateConfigMap\<close> finds a difference, writes the same value again and
  restarts the pods.
\<close>

theorem config_map_empty_differs:
  "cm_namespaces (new_config_map inst []) = [] \<and>
   split_on CHR '','' (cm_namespaces (new_config_map inst [])) = [[]] \<and>
   fst (CheckListDifference [] (split_on CHR '','' (cm_namespaces (new_config_map inst []))))"
  by (simp add: CheckListDifference_iff)

text \<open>
  A ConfigMap without data is not survived. When the ConfigMap that was found has no data at
  all (a nil map) and the instances have two members or more, \<open>UpdateConfigMap\<close> assigns to an
  entry of the nil map, which panics, before anything is written.
\<close>

theorem config_map_nil_data_panics:
  "sync_config_map p rc inst (m1 # m2 # ms) (cm\<lparr>cmData := None\<rparr>) = Panic"
proof -
  have current: "split_on CHR '','' (cm_namespaces (cm\<lparr>cmData := None\<rparr>)) = [[]]"
    by (simp add: cm_namespaces_def)
  have "CheckListDifference (m1 # m2 # ms) [[]] = (True, m1 # m2 # ms, [[]])"
    by (simp add: CheckListDifference_def)
  then show ?thesis
    by (simp add: sync_config_map_def current Let_def)
qed

end
