(* ===== verification/Reconcile_Loop.thy ===== *)
theory Reconcile_Loop
  imports Rbac_Cleanup Csv_Injection
begin

text \<open>
  \<open>Reconcile\<close>, the main handler of \<open>namespacescope_controller.go\<close>, composed of the operations of
  the other theories in the order of the source: the deletion branch, and the twelve steps of
  the normal branch, each of whose failures is recorded in the status.
\<close>

section \<open>Runtime roles\<close>

text \<open>\<open>^nss-(managed|runtime)-role-from.*\<close> matches the strings with one of the two prefixes.\<close>

definition managed_or_runtime_name :: "string \<Rightarrow> bool" where
  "managed_or_runtime_name nm \<longleftrightarrow>
     has_prefix ''nss-managed-role-from'' nm \<or> has_prefix ''nss-runtime-role-from'' nm"

fun summarize_rules :: "role list \<Rightarrow> policy_rule list \<Rightarrow> policy_rule list" where
  "summarize_rules [] acc = acc"
| "summarize_rules (r # rs) acc =
     (if \<not> managed_or_runtime_name (omName (roleMeta r)) then summarize_rules rs (acc @ roleRules r)
      else summarize_rules rs acc)"

text \<open>The error of \<open>GetRolesFromNamespace\<close> is dropped: its list is nil then.\<close>

primrec runtime_loop :: "nss \<Rightarrow> string list \<Rightarrow> err option proc" where
  "runtime_loop inst [] = Ret None"
| "runtime_loop inst (namespaceMember # rest) =
     bind (GetRolesFromNamespace inst namespaceMember) (\<lambda>x.
       let rolesList = (case x of Inl e \<Rightarrow> [] | Inr rs \<Rightarrow> rs) in
       if length rolesList \<noteq> 0 then
         bind (CreateRuntimeRoleToNamespace inst namespaceMember (summarize_rules rolesList [])) (\<lambda>y.
           case y of
             Inl e \<Rightarrow> Ret (Some e)
           | Inr _ \<Rightarrow> runtime_loop inst rest)
       else runtime_loop inst rest)"

section \<open>The deletion branch\<close>

definition remove_finalizer :: "pkg \<Rightarrow> nss \<Rightarrow> nss" where
  "remove_finalizer p inst =
     (let m = nssMeta inst in
      inst\<lparr>nssMeta := m\<lparr>omFinalizers := pkgRemoveFinalizer p (omFinalizers m) NamespaceScopeFinalizer\<rparr>\<rparr>)"

definition finalize_nss :: "pkg \<Rightarrow> reconciler \<Rightarrow> nss \<Rightarrow> (err + nat) proc" where
  "finalize_nss p rc inst0 =
     (if Contains (omFinalizers (nssMeta inst0)) NamespaceScopeFinalizer then
        let inst = setDefaults inst0 in
        go_try (UpdateConfigMap p rc inst) (\<lambda>_.
        go_try (DeleteAllRbac inst) (\<lambda>_.
        go_try (put_nss (remove_finalizer p inst)) (\<lambda>_.
          Ret (Inr 0))))
      else Ret (Inr 0))"

section \<open>The normal branch\<close>

definition failed :: "nss \<Rightarrow> time \<Rightarrow> string \<Rightarrow> err \<Rightarrow> (err + nat) proc" where
  "failed inst startT msg e =
     bind (recordOperationTimingAndStatus inst startT ''Failed'' msg (Some e)) (\<lambda>_. Ret (Inl e))"

text \<open>\<open>if err := p; err != nil { record \<dots>; return err }\<close>, the message a prefix and the error's text.\<close>

definition step_or_fail ::
  "nss \<Rightarrow> time \<Rightarrow> (err \<Rightarrow> string) \<Rightarrow> (err + 'a) proc \<Rightarrow> ('a \<Rightarrow> (err + nat) proc) \<Rightarrow> (err + nat) proc" where
  "step_or_fail inst startT msg p f =
     bind p (\<lambda>x. case x of Inl e \<Rightarrow> failed inst startT (msg e) e | Inr a \<Rightarrow> f a)"

text \<open>From the point where the unprojected roles are known to the end.\<close>

definition reconcile_tail :: "pkg \<Rightarrow> reconciler \<Rightarrow> nss \<Rightarrow> time \<Rightarrow> (err + nat) proc" where
  "reconcile_tail p rc inst startT =
     step_or_fail inst startT (\<lambda>e. ''Failed to delete rbac: '' @ err_text e)
       (DeleteRbacFromUnmanagedNamespace inst) (\<lambda>_.
     step_or_fail inst startT (\<lambda>e. ''Failed to update configmap: '' @ err_text e)
       (UpdateConfigMap p rc inst) (\<lambda>_.
     bind (runtime_loop inst (namespaceMembers (spec inst))) (\<lambda>er.
       case er of
         Some e \<Rightarrow>
           bind (recordOperationTimingAndStatus inst startT ''Failed''
                  (''Failed to create runtime role: '' @ err_text e) (Some e)) (\<lambda>_. Ret (Inr 60))
       | None \<Rightarrow>
           bind (recordOperationTimingAndStatus inst startT ''Completed''
                  ''Reconcile operation completed successfully'' None) (\<lambda>_. Ret (Inr 60)))))"

definition reconcile_members :: "pkg \<Rightarrow> reconciler \<Rightarrow> nss \<Rightarrow> time \<Rightarrow> (err + nat) proc" where
  "reconcile_members p rc inst0 startT =
     step_or_fail inst0 startT (\<lambda>e. ''Failed to update status: '' @ err_text e)
       (UpdateStatus inst0) (\<lambda>inst1.
     let inst = setDefaults inst1 in
     bind (PushRbacToNamespace inst) (\<lambda>(unprojected, er).
       case er of
         Some e \<Rightarrow> failed inst startT (''Failed to generate rbac: '' @ err_text e) e
       | None \<Rightarrow>
           step_or_fail inst startT (\<lambda>e. ''Failed to update unprojected roles status: '' @ err_text e)
             (UpdateUnprojectedRolesStatus inst unprojected) (\<lambda>inst2.
           reconcile_tail p rc inst2 startT)))"

text \<open>The search for an accepted license decides on a log line only.\<close>

definition reconcile_nss :: "pkg \<Rightarrow> reconciler \<Rightarrow> nss \<Rightarrow> (err + nat) proc" where
  "reconcile_nss p rc inst =
     bind (call Now as_time) (\<lambda>startT.
     step_or_fail inst startT (\<lambda>_. ''Failed to list NamespaceScope resources'')
       (call (ListOf Cached KNss [] []) (as_list the_nss)) (\<lambda>_.
     step_or_fail inst startT (\<lambda>_. ''Failed to add finalizer'')
       (if \<not> Contains (omFinalizers (nssMeta inst)) NamespaceScopeFinalizer
        then addFinalizer p inst else Ret (Inr inst)) (\<lambda>inst1.
     reconcile_members p rc inst1 startT)))"

section \<open>The handler\<close>

definition Reconcile :: "pkg \<Rightarrow> reconciler \<Rightarrow> key \<Rightarrow> (err + nat) proc" where
  "Reconcile p rc req =
     bind (call (Get Cached KNss req) (as_obj the_nss)) (\<lambda>x.
       case x of
         Inl e \<Rightarrow> if is_not_found e then Ret (Inr 0) else Ret (Inl e)
       | Inr inst \<Rightarrow>
           if \<not> time_is_zero (omDeletionTimestamp (nssMeta inst)) then finalize_nss p rc inst
           else reconcile_nss p rc inst)"

end
