(* ===== verification/Operator_Setup.thy ===== *)
theory Operator_Setup
  imports Reconcile_Loop
begin

text \<open>
  The start of the operator: \<open>main.go\<close>, the cache options of \<open>controllers/common/cache.go\<close>, the
  OLM detection, the two controllers of \<open>SetupWithManager\<close> and the filters of their watches.
\<close>

section \<open>The cache\<close>

text \<open>Per kind the labels an object must carry to be cached; \<open>None\<close> is every namespace.\<close>

definition NewNSSCache :: "string list \<Rightarrow> manager_options \<Rightarrow> manager_options" where
  "NewNSSCache watchNamespaceList opts =
     (let configmapSelector = [(''managedby-namespace-scope'', ''true'')];
          RBACSelector = [(''namespace-scope-configmap'', ''true'')]
      in opts\<lparr>moCache := \<lparr>
           coByObject = [(KConfigMap, configmapSelector), (KRole, RBACSelector), (KRoleBinding, RBACSelector)],
           coDefaultNamespaces =
             (if length watchNamespaceList = 1 \<and> watchNamespaceList ! 0 = [] then None
              else Some (MakeSet watchNamespaceList))\<rparr>\<rparr>)"

text \<open>
  Whether the cache holds an object of a kind, given its namespace and labels. The namespaces are a
  restriction of the namespaced kinds only.
\<close>

fun namespaced :: "kind \<Rightarrow> bool" where
  "namespaced KNamespace = False"
| "namespaced KValidatingWebhook = False"
| "namespaced KMutatingWebhook = False"
| "namespaced _ = True"

definition cached :: "cache_options \<Rightarrow> kind \<Rightarrow> string \<Rightarrow> labels \<Rightarrow> bool" where
  "cached co k ns lbls \<longleftrightarrow>
     (case coDefaultNamespaces co of None \<Rightarrow> True | Some nss \<Rightarrow> namespaced k \<longrightarrow> ns \<in> set nss) \<and>
     (case map_of (coByObject co) k of None \<Rightarrow> True | Some sel \<Rightarrow> labels_match sel lbls)"

section \<open>The controllers\<close>

definition olm_group_version :: string where
  "olm_group_version = ''operators.coreos.com/v1alpha1''"

definition detectOLMAPI :: "bool proc" where
  "detectOLMAPI =
     bind (call NewDiscoveryClient as_unit) (\<lambda>x.
       case x of
         Inl e \<Rightarrow> Ret False
       | Inr _ \<Rightarrow>
           bind (call (ServerResources olm_group_version) as_unit) (\<lambda>y.
             case y of Inl e \<Rightarrow> Ret False | Inr _ \<Rightarrow> Ret True))"

text \<open>
  The watches in the order in which the builders are given them. The CSV controller looks at an
  instance only when its generation changed, which a status write does not do; the other one
  has no such filter. The result is the reconciler with \<open>hasOLMAPI\<close> set, or the error of a builder.
\<close>

definition SetupWithManager :: "reconciler \<Rightarrow> (err + reconciler) proc" where
  "SetupWithManager rc =
     go_try (call (BuildController ''NamespaceScope contorller''
         [Owns KConfigMap AllEvents, For KNss AllEvents] RunReconcile) as_unit) (\<lambda>_.
     bind detectOLMAPI (\<lambda>olm.
     go_try (call (BuildController ''NamespaceScope CSV contorller''
         ([For KNss GenerationChanged] @
          (if olm then [Watches KCsv PredicateFuncs] else []) @
          [Watches KValidatingWebhook PredicateFuncs, Watches KMutatingWebhook PredicateFuncs]) RunCSVReconcile) as_unit) (\<lambda>_.
       Ret (Inr (rc\<lparr>hasOLMAPI := olm\<rparr>)))))"

text \<open>
  The events that the predicate functions (\<open>PredicateFuncs\<close>) let through: every creation, a deletion unless its final state is unknown,
  and an update unless the new object agrees with what the old one had set.
\<close>

datatype 'a watch_event = CreateEvent 'a | UpdateEvent 'a 'a | DeleteEvent 'a bool

fun watch_passes :: "('b \<Rightarrow> 'b \<Rightarrow> bool) \<Rightarrow> ('a \<Rightarrow> 'b) \<Rightarrow> 'a watch_event \<Rightarrow> bool" where
  "watch_passes derivative part (DeleteEvent ob deleteStateUnknown) = (\<not> deleteStateUnknown)"
| "watch_passes derivative part (UpdateEvent oldObject newObject) = (\<not> derivative (part oldObject) (part newObject))"
| "watch_passes derivative part (CreateEvent ob) = True"

definition csv_watch_passes :: "pkg \<Rightarrow> csv watch_event \<Rightarrow> bool" where
  "csv_watch_passes p = watch_passes (pkgDerivativeDeployments p) csvDeployments"

definition webhook_watch_passes :: "pkg \<Rightarrow> webhook_config watch_event \<Rightarrow> bool" where
  "webhook_watch_passes p = watch_passes (pkgDerivativeWebhooks p) wcWebhooks"

section \<open>The program\<close>

text \<open>
  The flags after parsing. \<open>metricsAddr\<close> is read and then not used. The result is the exit code;
  \<open>StartManager\<close> returns when the manager stops.
\<close>

record flags =
  metricsAddr :: string
  probeAddr :: string
  enableLeaderElection :: bool

definition default_flags :: flags where
  "default_flags = \<lparr>metricsAddr = '':8080'', probeAddr = '':8081'', enableLeaderElection = False\<rparr>"

definition or_exit :: "(err + 'a) proc \<Rightarrow> ('a \<Rightarrow> nat proc) \<Rightarrow> nat proc" where
  "or_exit p f = bind p (\<lambda>x. case x of Inl e \<Rightarrow> Ret 1 | Inr a \<Rightarrow> f a)"

definition flag_options :: "flags \<Rightarrow> manager_options" where
  "flag_options fl =
     \<lparr>moHealthProbeBindAddress = probeAddr fl, moLeaderElection = enableLeaderElection fl,
      moLeaderElectionID = ''6a4a72f9.ibm.com'', moCache = \<lparr>coByObject = [], coDefaultNamespaces = None\<rparr>\<rparr>"

text \<open>\<open>NewManager\<close> stands for the reading of the cluster configuration too, whose failure also exits with 1.\<close>

definition main :: "flags \<Rightarrow> nat proc" where
  "main fl =
     or_exit GetOperatorNamespace (\<lambda>operatorNs.
     or_exit (call (NewManager (NewNSSCache [operatorNs] (flag_options fl))) as_unit) (\<lambda>_.
     or_exit (SetupWithManager \<lparr>hasOLMAPI = False, daemonSetPermissionChecker = None\<rparr>) (\<lambda>_.
     or_exit (call (AddHealthzCheck ''healthz'') as_unit) (\<lambda>_.
     or_exit (call (AddReadyzCheck ''readyz'') as_unit) (\<lambda>_.
     or_exit (call StartManager as_unit) (\<lambda>_. Ret 0))))))"

end
