(* ===== verification/Cluster.thy ===== *)
theory Cluster
  imports Interaction
begin

text \<open>
  A concrete API server, as a function: the state is the list of the objects it stores, each under
  its kind, namespace and name. It grants every access review, its cache is in step, and it is
  never out of order. The contracts that the properties ask of a server are shown to hold of it.
\<close>

section \<open>Objects\<close>

primrec obj_kind :: "obj \<Rightarrow> kind" where
  "obj_kind (ONss n) = KNss"
| "obj_kind (OConfigMap cm) = KConfigMap"
| "obj_kind (ORole ro) = KRole"
| "obj_kind (ORoleBinding b) = KRoleBinding"
| "obj_kind (OPod p) = KPod"
| "obj_kind (OServiceAccount m) = KServiceAccount"
| "obj_kind (ONamespace ns) = KNamespace"
| "obj_kind (ODeployment w) = KDeployment"
| "obj_kind (ODaemonSet w) = KDaemonSet"
| "obj_kind (OStatefulSet w) = KStatefulSet"
| "obj_kind (OCsv c) = KCsv"
| "obj_kind (OMutatingWebhook wc) = KMutatingWebhook"
| "obj_kind (OValidatingWebhook wc) = KValidatingWebhook"

primrec obj_meta :: "obj \<Rightarrow> object_meta" where
  "obj_meta (ONss n) = nssMeta n"
| "obj_meta (OConfigMap cm) = cmMeta cm"
| "obj_meta (ORole ro) = roleMeta ro"
| "obj_meta (ORoleBinding b) = rbMeta b"
| "obj_meta (OPod p) = podMeta p"
| "obj_meta (OServiceAccount m) = m"
| "obj_meta (ONamespace ns) = new_meta (nsName ns) [] []"
| "obj_meta (ODeployment w) = wlMeta w"
| "obj_meta (ODaemonSet w) = wlMeta w"
| "obj_meta (OStatefulSet w) = wlMeta w"
| "obj_meta (OCsv c) = csvMeta c"
| "obj_meta (OMutatingWebhook wc) = wcMeta wc"
| "obj_meta (OValidatingWebhook wc) = wcMeta wc"

abbreviation obj_key :: "obj \<Rightarrow> key" where
  "obj_key ob \<equiv> meta_key (obj_meta ob)"

definition stored_at :: "kind \<Rightarrow> key \<Rightarrow> obj \<Rightarrow> bool" where
  "stored_at k nm ob \<longleftrightarrow> obj_kind ob = k \<and> obj_key ob = nm"

abbreviation same_place :: "obj \<Rightarrow> obj \<Rightarrow> bool" where
  "same_place ob \<equiv> stored_at (obj_kind ob) (obj_key ob)"

definition selected :: "kind \<Rightarrow> string \<Rightarrow> labels \<Rightarrow> obj \<Rightarrow> bool" where
  "selected k ns ls ob \<longleftrightarrow>
     obj_kind ob = k \<and> (ns = [] \<or> omNamespace (obj_meta ob) = ns) \<and> labels_match ls (omLabels (obj_meta ob))"

section \<open>The server\<close>

text \<open>The status of an instance is a subresource: a write of the object keeps it, and a status write keeps the rest.\<close>

fun spec_written :: "obj \<Rightarrow> obj \<Rightarrow> obj" where
  "spec_written (ONss old) (ONss n) = ONss (n\<lparr>nssStatus := nssStatus old\<rparr>)"
| "spec_written old ob = ob"

fun status_written :: "obj \<Rightarrow> obj \<Rightarrow> obj" where
  "status_written (ONss old) (ONss n) = ONss (old\<lparr>nssStatus := nssStatus n\<rparr>)"
| "status_written old ob = old"

type_synonym cluster = "obj list"

definition not_found :: response where
  "not_found = RErr (StatusErr NotFound ''not found'')"

definition store :: "(obj \<Rightarrow> obj \<Rightarrow> obj) \<Rightarrow> obj \<Rightarrow> cluster \<Rightarrow> response \<times> cluster" where
  "store f ob c =
     (case find (same_place ob) c of
        None \<Rightarrow> (not_found, c)
      | Some old \<Rightarrow> (RObj (f old ob), map (\<lambda>o'. if same_place ob o' then f o' ob else o') c))"

fun cluster_step :: "cluster \<Rightarrow> request \<Rightarrow> response \<times> cluster" where
  "cluster_step c (Get src k nm) =
     (case find (stored_at k nm) c of Some ob \<Rightarrow> (RObj ob, c) | None \<Rightarrow> (not_found, c))"
| "cluster_step c (ListOf src k ns ls) = (RList (filter (selected k ns ls) c), c)"
| "cluster_step c (Create ob) =
     (if find (same_place ob) c = None then (RObj ob, c @ [ob])
      else (RErr (StatusErr AlreadyExists ''already exists''), c))"
| "cluster_step c (Update ob) = store spec_written ob c"
| "cluster_step c (Patch ob orig) = store (\<lambda>old ob. if ob = orig then old else spec_written old ob) ob c"
| "cluster_step c (StatusUpdate ob) = store status_written ob c"
| "cluster_step c (StatusPatch ob orig) = store status_written ob c"
| "cluster_step c (Delete ob) = (ROk, filter (\<lambda>o'. \<not> same_place ob o') c)"
| "cluster_step c (DeleteAllOf k ns ls) = (ROk, filter (\<lambda>ob. \<not> selected k ns ls ob) c)"
| "cluster_step c (Review ra) =
     (RReview \<lparr>rsAllowed = True, rsDenied = False, rsReason = [], rsEvaluationError = []\<rparr>, c)"
| "cluster_step c (LookupEnv v) = (REnv (Some ''ibm-common-services''), c)"
| "cluster_step c Now = (RTime 0, c)"
| "cluster_step c (IterSet xs) = (ROrder (remdups xs), c)"
| "cluster_step c (Schedule n) = (RSched [], c)"
| "cluster_step c q = (ROk, c)"

definition cluster_env :: "cluster env" where
  "cluster_env c q c' r \<longleftrightarrow> cluster_step c q = (r, c')"

text \<open>The cluster answers everything, so that there always is a run.\<close>

lemma cluster_runs: "\<exists>tr oc t. runs cluster_env p s tr oc t"
  using exec_runs [of cluster_step cluster_env p s] by (metis cluster_env_def prod_cases3)

lemma run_step:
  "cluster_step s q = (r, s1) \<Longrightarrow> \<exists>tr t. runs cluster_env (k r) s1 tr oc t \<Longrightarrow>
     \<exists>tr t. runs cluster_env (Call q k) s tr oc t"
  by (metis cluster_env_def runs_Call)

lemma run_ret: "\<exists>tr t. runs cluster_env (Ret x) s tr (Done x) t"
  by (blast intro: runs_Ret)

section \<open>What is stored\<close>

lemma obj_kind_iff [simp]:
  "obj_kind ob = KNss \<longleftrightarrow> (\<exists>n. ob = ONss n)" "obj_kind ob = KConfigMap \<longleftrightarrow> (\<exists>cm. ob = OConfigMap cm)"
  by (cases ob; simp)+

lemma spec_written_place [simp]: "same_place ob old \<Longrightarrow> stored_at k nm (spec_written old ob) = stored_at k nm ob"
  by (cases "(old, ob)" rule: spec_written.cases) (auto simp: stored_at_def)

lemma status_written_place [simp]: "stored_at k nm (status_written old ob) = stored_at k nm old"
  by (cases "(old, ob)" rule: status_written.cases) (auto simp: stored_at_def)

lemma find_place: "find (stored_at k nm) c = Some ob \<Longrightarrow> ob \<in> set c \<and> obj_kind ob = k \<and> obj_key ob = nm"
  by (auto simp: find_Some_iff stored_at_def)

text \<open>
  The parts of the objects that are stored: a request that the cluster carries out adds none but
  those it writes, and an answer tells none but those that are stored.
\<close>

definition parts_of :: "(obj \<Rightarrow> 'x set) \<Rightarrow> cluster \<Rightarrow> 'x set" where
  "parts_of parts c = (\<Union>ob \<in> set c. parts ob)"

definition mergeable :: "(obj \<Rightarrow> 'x set) \<Rightarrow> bool" where
  "mergeable parts \<longleftrightarrow>
     (\<forall>old ob. same_place ob old \<longrightarrow>
        parts (spec_written old ob) \<union> parts (status_written old ob) \<subseteq> parts old \<union> parts ob)"

lemma in_store:
  assumes "store f ob c = (r, c')" "ob' \<in> set c'"
  shows "ob' \<in> set c \<or> (\<exists>old \<in> set c. same_place ob old \<and> ob' = f old ob)"
  using assms by (auto simp: store_def split: option.splits if_splits)

lemma store_answer:
  assumes "store f ob c = (r, c')"
  shows "r = not_found \<and> c' = c \<or> (\<exists>old \<in> set c. same_place ob old \<and> r = RObj (f old ob) \<and> f old ob \<in> set c')"
proof (cases "find (same_place ob) c")
  case (Some old)
  then have "old \<in> set c" "same_place ob old" by (auto simp: find_Some_iff)
  then have "f old ob \<in> set (map (\<lambda>o'. if same_place ob o' then f o' ob else o') c)" by force
  then show ?thesis
    using assms Some \<open>old \<in> set c\<close> \<open>same_place ob old\<close> by (auto simp: store_def simp del: set_map)
qed (use assms in \<open>simp add: store_def\<close>)

end
