(* ===== verification/Sample_Run.thy ===== *)
theory Sample_Run
  imports Rbac_Properties Reconcile_Loop Cluster
begin

text \<open>
  A whole reconciliation, carried out in the logic: the model of \<open>Reconcile\<close> is executed against the
  API server of \<open>Cluster\<close>, in a cluster with one instance, one further member, and one Role that a Pod's
  service account is bound to. It shows that what the properties say of a successful run is
  not said of nothing, and what such a run leaves behind.
\<close>

section \<open>Execution\<close>

text \<open>Where a handler ends: its outcome and the cluster it leaves.\<close>

definition ending :: "'a proc \<Rightarrow> cluster \<Rightarrow> 'a outcome \<times> cluster" where
  "ending p s = snd (exec cluster_step p s)"

lemma ending_simps:
  "ending (Ret a) s = (Done a, s)" "ending Panic s = (Panicked, s)" "ending Block s = (Blocked, s)"
  "ending (Send m p) s = (Blocked, s)"
  "ending (Call q k) s = (case cluster_step s q of (r, s1) \<Rightarrow> ending (k r) s1)"
  by (simp_all add: ending_def split: prod.splits)

lemma ending_bind:
  "ending (bind p f) s = (case ending p s of (oc, t) \<Rightarrow> (case oc of
     Done a \<Rightarrow> ending (f a) t | Panicked \<Rightarrow> (Panicked, t) | Blocked \<Rightarrow> (Blocked, t)))"
  by (induction p arbitrary: s) (simp_all add: ending_simps split: prod.split)

lemma ending_runs: "ending p s = (oc, t) \<Longrightarrow> \<exists>tr. runs cluster_env p s tr oc t"
  unfolding ending_def using exec_runs [of cluster_step cluster_env p s] by (metis cluster_env_def prod.collapse)

text \<open>A continuation is evaluated only when the answer it waits for is there.\<close>

lemma lazy_cong:
  "p = p' \<Longrightarrow> bind p f = bind p' f" "q = q' \<Longrightarrow> Call q k = Call q' k"
  "x = x' \<Longrightarrow> go_try x g = go_try x' g" "y = y' \<Longrightarrow> step_or_fail n t m y h = step_or_fail n t m y' h"
  by simp_all

lemmas run_simps = ending_simps call_def stored_at_def selected_def store_def not_found_def response_simps
  new_meta_def meta_key_def labels_match_def Let_def go_try_def step_or_fail_def GetOperatorNamespace_def
  check_operator_namespace_def

section \<open>The cluster\<close>

definition sample_rule :: "string list \<Rightarrow> policy_rule" where
  "sample_rule verbs = \<lparr>prVerbs = verbs, prAPIGroups = [''''], prResources = [''secrets''],
     prResourceNames = [], prNonResourceURLs = []\<rparr>"

definition sample_world :: "nss \<Rightarrow> cluster" where
  "sample_world n =
     [ONss n,
      ONamespace \<lparr>nsName = ''app'', nsTerminating = False\<rparr>,
      OPod \<lparr>podMeta = new_meta ''odlm-0'' ''ibm-common-services'' [(''intent'', ''projected'')],
        podServiceAccountName = ''odlm'', podVolumes = [], podContainers = []\<rparr>,
      ORoleBinding \<lparr>rbMeta = new_meta ''odlm'' ''ibm-common-services'' [],
        rbSubjects = [\<lparr>sbKind = ''ServiceAccount'', sbName = ''odlm'', sbNamespace = ''ibm-common-services''\<rparr>],
        rbRoleRef = \<lparr>rrKind = ''Role'', rrName = ''reader'', rrAPIGroup = ''rbac.authorization.k8s.io''\<rparr>\<rparr>,
      ORole \<lparr>roleMeta = new_meta ''reader'' ''ibm-common-services'' [],
        roleRules = [sample_rule [''get'', ''bind'']]\<rparr>]"

text \<open>The instance after the finalizer was added.\<close>

definition sample_inst :: nss where
  "sample_inst = sample_nss\<lparr>nssMeta := (nssMeta sample_nss)\<lparr>omFinalizers := [NamespaceScopeFinalizer]\<rparr>\<rparr>"

lemma sample_inst_sel:
  "nssMeta sample_inst = (new_meta ''common-service'' ''ibm-common-services'' [])\<lparr>omFinalizers := [NamespaceScopeFinalizer]\<rparr>"
  "spec sample_inst = spec sample_nss" "nssStatus sample_inst = nssStatus sample_nss"
  "restartLabels (spec sample_nss) = [(''intent'', ''projected'')]"
  "serviceAccountMembers (spec sample_nss) = []" "namespaceMembers (spec sample_nss) = [''ibm-common-services'', ''app'']"
  "allowSubsetProjection (spec sample_nss) = False" "configmapName (spec sample_nss) = ''namespace-scope''"
  "unprojectedRoles (nssStatus sample_nss) = []"
  "validatedMembers (nssStatus sample_nss) = [''ibm-common-services'', ''app'']"
  by (simp_all add: sample_inst_def sample_nss_def)

lemma sample_inst_defaults: "setDefaults sample_inst = sample_inst"
  by (simp add: setDefaults_def default_spec_def sample_inst_sel Let_def)

text \<open>What is projected, and the ConfigMap.\<close>

definition sample_projected :: cluster where
  "sample_projected =
     [ORole (projected_role ''reader'' (projected_labels sample_inst) ''odlm'' ''ibm-common-services'' ''app''
        [sample_rule [''get'']]),
      ORoleBinding (projected_binding ''reader'' (projected_labels sample_inst) ''odlm'' ''ibm-common-services'' ''app'')]"

lemma sample_filtered:
  "rulesFilter ''reader'' ''ibm-common-services'' ''app'' [sample_rule [''get'', ''bind'']] [] = ([sample_rule [''get'']], True)"
  by code_simp

section \<open>The steps\<close>

lemma sample_status: "ending (UpdateStatus sample_inst) (sample_world sample_inst) = (Done (Inr sample_inst), sample_world sample_inst)"
  by (simp add: run_simps UpdateStatus_def getValidatedNamespaces_def sample_inst_sel sample_world_def
      checkGetNSAuth_def StringSliceContentEqual_def cong: lazy_cong)

lemma sample_push:
  "ending (PushRbacToNamespace sample_inst) (sample_world sample_inst) =
     (Done ([], None), sample_world sample_inst @ sample_projected)"
  by (simp add: run_simps PushRbacToNamespace_def GetServiceAccountFromNamespace_def sample_inst_sel
      sample_world_def sample_projected_def ToStringSlice_def MakeSet_def gset_add_def as_order_def
      push_goroutine_def generateRBACToNamespace_def fork_join_def as_schedule_def rbac_goroutine_def
      CreateRole_def GetRolesFromServiceAccount_def get_role_def first_error_def sample_filtered
      projected_role_def projected_binding_def NamespaceScopeManagedPrefix_def cong: lazy_cong)

lemma sample_unprojected:
  "ending (UpdateUnprojectedRolesStatus sample_inst []) s = (Done (Inr sample_inst), s)"
  by (simp add: run_simps UpdateUnprojectedRolesStatus_def sample_inst_sel cong: lazy_cong)

lemma sample_unmanaged:
  "ending (DeleteRbacFromUnmanagedNamespace sample_inst) (sample_world sample_inst @ sample_projected) =
     (Done (Inr ()), sample_world sample_inst @ sample_projected)"
  by (simp add: run_simps DeleteRbacFromUnmanagedNamespace_def get_config_map_def sample_inst_sel sample_world_def
      sample_projected_def projected_role_def projected_binding_def cong: lazy_cong)

definition sample_config :: config_map where
  "sample_config =
     \<lparr>cmMeta = (new_meta ''namespace-scope'' ''ibm-common-services'' [(NamespaceScopeLabel, ''true'')])
        \<lparr>omOwnerReferences := [\<lparr>orKind = ''NamespaceScope'', orName = ''common-service'', orUID = [], orController = None\<rparr>]\<rparr>,
      cmData = Some [(namespaces_key, ''ibm-common-services,app'')]\<rparr>"

lemma sample_config_map:
  "ending (UpdateConfigMap std_pkg sample_reconciler sample_inst) (sample_world sample_inst @ sample_projected) =
     (Done (Inr ()), sample_world sample_inst @ sample_projected @ [OConfigMap sample_config])"
  by (simp add: run_simps UpdateConfigMap_def getAllValidatedNamespaceMembers_def ToStringSlice_def
      get_config_map_def create_config_map_def RestartPods_def manage_daemon_sets_def members_loop_eq MakeSet_def
      std_pkg_def std_set_owner_def new_config_map_def as_order_def sample_inst_sel sample_world_def sample_projected_def
      shares_config_map_def time_is_zero_def sample_config_def gset_add_def cong: lazy_cong)

lemma sample_runtime:
  "ending (runtime_loop sample_inst [''ibm-common-services'', ''app''])
      (sample_world sample_inst @ sample_projected @ [OConfigMap sample_config]) =
     (Done None, sample_world sample_inst @ sample_projected @
        [OConfigMap sample_config, ORole (runtime_role [sample_rule [''get'']] ''ibm-common-services'' ''app'')])"
  by (simp add: run_simps GetRolesFromNamespace_def CreateRuntimeRoleToNamespace_def generateRuntimeRoleForNSS_def
      createRuntimeRoleForNSS_def labelled_for_def projected_role_def projected_binding_def projected_labels_def
      NamespaceScopeConfigmapLabelKey_def managed_or_runtime_name_def NamespaceScopeManagedPrefix_def
      NamespaceScopeRuntimePrefix_def projected_name_def runtime_role_def sample_config_def
      sample_inst_sel sample_world_def sample_projected_def cong: lazy_cong)

text \<open>The instance with the record of the run.\<close>

definition sample_done :: nss where
  "sample_done = sample_inst\<lparr>nssStatus := record_status 0 0 ''Completed'' None (nssStatus sample_inst)\<rparr>"

definition sample_made :: cluster where
  "sample_made = sample_projected @
     [OConfigMap sample_config, ORole (runtime_role [sample_rule [''get'']] ''ibm-common-services'' ''app'')]"

lemma sample_record:
  "ending (recordOperationTimingAndStatus sample_inst 0 ''Completed'' m None) (sample_world sample_inst @ sample_made) =
     (Done (), sample_world sample_done @ sample_made)"
  by (simp add: run_simps recordOperationTimingAndStatus_def put_status_def sample_inst_sel sample_world_def sample_done_def
      sample_made_def sample_config_def sample_projected_def projected_role_def projected_binding_def runtime_role_def cong: lazy_cong)

section \<open>The run\<close>

lemma sample_tail:
  "ending (reconcile_tail std_pkg sample_reconciler sample_inst 0) (sample_world sample_inst @ sample_projected) =
     (Done (Inr 60), sample_world sample_done @ sample_made)"
  by (simp add: reconcile_tail_def step_or_fail_def ending_bind ending_simps sample_unmanaged sample_config_map
      sample_runtime sample_inst_sel sample_record [unfolded sample_made_def] sample_made_def
      del: runtime_loop.simps cong: lazy_cong)

lemma sample_from_members:
  "ending (reconcile_members std_pkg sample_reconciler sample_inst 0) (sample_world sample_inst) =
     (Done (Inr 60), sample_world sample_done @ sample_made)"
  by (simp add: reconcile_members_def step_or_fail_def ending_bind ending_simps sample_status sample_push
      sample_inst_defaults sample_unprojected sample_tail Let_def cong: lazy_cong)

lemma sample_nss_meta: "nssMeta sample_nss = new_meta ''common-service'' ''ibm-common-services'' []"
  by (simp add: sample_nss_def)

lemma sample_get:
  "ending (call (Get Cached KNss (nss_key sample_nss)) (as_obj the_nss)) (sample_world sample_nss) =
     (Done (Inr sample_nss), sample_world sample_nss)"
  by (simp add: run_simps sample_world_def)

lemma sample_list:
  "\<exists>ns. ending (call (ListOf Cached KNss [] []) (as_list the_nss)) (sample_world sample_nss) =
     (Done (Inr ns), sample_world sample_nss)"
  by (simp add: run_simps sample_world_def)

lemma sample_finalizer:
  "ending (addFinalizer std_pkg sample_nss) (sample_world sample_nss) = (Done (Inr sample_inst), sample_world sample_inst)"
  by (simp add: run_simps addFinalizer_def put_nss_def std_pkg_def map_get_def sample_world_def sample_nss_meta
      sample_inst_def cong: lazy_cong)

lemma sample_reconcile:
  "ending (Reconcile std_pkg sample_reconciler (nss_key sample_nss)) (sample_world sample_nss) =
     (Done (Inr 60), sample_world sample_done @ sample_made)"
proof -
  have now: "ending (call Now as_time) (sample_world sample_nss) = (Done 0, sample_world sample_nss)"
    by (simp add: run_simps)
  have live: "time_is_zero (omDeletionTimestamp (nssMeta sample_nss))"
      "NamespaceScopeFinalizer \<notin> set (omFinalizers (nssMeta sample_nss))"
    by (simp_all add: sample_nss_meta new_meta_def time_is_zero_def)
  obtain ns where list: "ending (call (ListOf Cached KNss [] []) (as_list the_nss)) (sample_world sample_nss) =
      (Done (Inr ns), sample_world sample_nss)"
    using sample_list by blast
  show ?thesis
    by (simp add: Reconcile_def reconcile_nss_def step_or_fail_def ending_bind sample_get live now list
        sample_finalizer sample_from_members cong: lazy_cong)
qed

text \<open>So there is a run that reports success.\<close>

lemma sample_run_of_Reconcile:
  "\<exists>tr. runs cluster_env (Reconcile std_pkg sample_reconciler (nss_key sample_nss)) (sample_world sample_nss) tr
     (Done (Inr 60)) (sample_world sample_done @ sample_made)"
  by (rule ending_runs) (rule sample_reconcile)

end
