(* ===== verification/Sample_Deletion.thy ===== *)
theory Sample_Deletion
  imports Sample_Run
begin

text \<open>
  The deletion of the instance of \<open>Sample_Run\<close>, carried out in the logic as well: from the cluster that
  the run there ends with, the deletion branch empties the list in the ConfigMap, removes what was
  projected, and takes the finalizer off. The runtime Role, which no label marks, stays.
\<close>

section \<open>The instance\<close>

definition sample_deleted :: nss where
  "sample_deleted = sample_done\<lparr>nssMeta := (nssMeta sample_done)\<lparr>omDeletionTimestamp := Some 1\<rparr>\<rparr>"

definition sample_released :: nss where
  "sample_released = sample_deleted\<lparr>nssMeta := (nssMeta sample_deleted)\<lparr>omFinalizers := []\<rparr>\<rparr>"

lemma sample_deleted_sel:
  "nssMeta sample_deleted = (new_meta ''common-service'' ''ibm-common-services'' [])
     \<lparr>omFinalizers := [NamespaceScopeFinalizer], omDeletionTimestamp := Some 1\<rparr>"
  "spec sample_deleted = spec sample_nss"
  by (simp_all add: sample_deleted_def sample_done_def sample_inst_sel)

lemma sample_deleted_defaults: "setDefaults sample_deleted = sample_deleted"
  by (simp add: setDefaults_def default_spec_def sample_deleted_sel sample_inst_sel Let_def)

definition sample_emptied :: config_map where
  "sample_emptied = sample_config\<lparr>cmData := Some [(namespaces_key, [])]\<rparr>"

definition sample_runtime_role :: obj where
  "sample_runtime_role = ORole (runtime_role [sample_rule [''get'']] ''ibm-common-services'' ''app'')"

section \<open>The ConfigMap\<close>

lemma sample_cm_sel:
  "cmMeta sample_config = (new_meta ''namespace-scope'' ''ibm-common-services'' [(NamespaceScopeLabel, ''true'')])
     \<lparr>omOwnerReferences := [\<lparr>orKind = ''NamespaceScope'', orName = ''common-service'', orUID = [], orController = None\<rparr>]\<rparr>"
  "cmMeta sample_emptied = cmMeta sample_config" "cmData sample_emptied = Some [(namespaces_key, [])]"
  by (simp_all add: sample_config_def sample_emptied_def)

lemma sample_difference:
  "split_on CHR '','' (cm_namespaces sample_config) = [''ibm-common-services'', ''app'']"
  "fst (CheckListDifference [] [''ibm-common-services'', ''app''])"
  "fst (snd (CheckListDifference [] [''ibm-common-services'', ''app''])) = []"
  by code_simp+

lemma sample_sync:
  "sync_config_map std_pkg rc sample_deleted [] sample_config =
     go_try (call (Update (OConfigMap sample_emptied)) (as_obj the_config_map))
       (\<lambda>cm. RestartPods rc (restartLabels (spec sample_nss)) cm ''ibm-common-services'')"
proof -
  obtain d m c where diff: "CheckListDifference [] [''ibm-common-services'', ''app''] = (d, m, c)" by (metis prod_cases3)
  with sample_difference(2,3) have "d" "m = []" by simp_all
  moreover have "sample_config\<lparr>cmData := map_option (\<lambda>d. map_put d namespaces_key []) (cmData sample_config)\<rparr> = sample_emptied"
    by (simp add: sample_config_def sample_emptied_def)
  moreover have "cmData sample_config \<noteq> None" by (simp add: sample_config_def)
  moreover have "pkgSetOwnerReference std_pkg sample_deleted sample_emptied = Inr sample_emptied"
    by (simp add: std_pkg_def std_set_owner_def sample_cm_sel sample_deleted_sel new_meta_def Let_def)
  ultimately show ?thesis
    by (auto simp: sync_config_map_def sample_difference(1) diff sample_deleted_sel new_meta_def Let_def)
qed

lemma sample_deleted_config_map:
  "ending (UpdateConfigMap std_pkg sample_reconciler sample_deleted) (sample_world sample_deleted @ sample_made) =
     (Done (Inr ()), sample_world sample_deleted @ sample_projected @ [OConfigMap sample_emptied, sample_runtime_role])"
  by (simp add: run_simps UpdateConfigMap_def getAllValidatedNamespaceMembers_def ToStringSlice_def
      get_config_map_def sample_sync RestartPods_def manage_daemon_sets_def MakeSet_def
      as_order_def sample_deleted_sel sample_inst_sel sample_world_def sample_projected_def
      time_is_zero_def zero_time_def sample_cm_sel sample_made_def sample_runtime_role_def cong: lazy_cong)

section \<open>The RBAC and the finalizer\<close>

definition sample_cleaned :: cluster where
  "sample_cleaned = [OConfigMap sample_emptied, sample_runtime_role]"

lemma sample_delete_all:
  "ending (DeleteAllRbac sample_deleted) (sample_world sample_deleted @ sample_projected @ sample_cleaned) =
     (Done (Inr ()), sample_world sample_deleted @ sample_cleaned)"
  by (simp add: run_simps DeleteAllRbac_def getAllValidatedNamespaceMembers_def ToStringSlice_def
      GetListDifference_def gset_difference_def MakeSet_def gset_add_def as_order_def DeleteRoleBinding_def DeleteRole_def
      cleanup_labels_def projected_labels_def configmap_label_value_def
      sample_deleted_sel sample_inst_sel sample_world_def sample_projected_def projected_role_def projected_binding_def
      time_is_zero_def zero_time_def sample_cm_sel sample_cleaned_def sample_runtime_role_def runtime_role_def
      cong: lazy_cong)

lemma sample_release:
  "ending (put_nss (remove_finalizer std_pkg sample_deleted)) (sample_world sample_deleted @ sample_cleaned) =
     (Done (Inr sample_released), sample_world sample_released @ sample_cleaned)"
  by (simp add: run_simps put_nss_def remove_finalizer_def std_pkg_def sample_deleted_sel sample_released_def
      sample_world_def sample_cleaned_def sample_runtime_role_def runtime_role_def sample_cm_sel cong: lazy_cong)

lemma sample_finalize:
  "ending (finalize_nss std_pkg sample_reconciler sample_deleted) (sample_world sample_deleted @ sample_made) =
     (Done (Inr 0), sample_world sample_released @ sample_cleaned)"
  by (simp add: finalize_nss_def ending_bind go_try_def ending_simps sample_deleted_defaults
      sample_deleted_config_map sample_delete_all sample_release sample_deleted_sel Let_def
      sample_cleaned_def [symmetric] cong: lazy_cong)

lemma sample_run_of_finalize:
  "\<exists>tr. runs cluster_env (finalize_nss std_pkg sample_reconciler sample_deleted) (sample_world sample_deleted @ sample_made) tr
     (Done (Inr 0)) (sample_world sample_released @ sample_cleaned)"
  by (rule ending_runs) (rule sample_finalize)

end
