(* ===== verification/Reconcile_Properties.thy ===== *)
theory Reconcile_Properties
  imports Config_Properties Status_Properties Csv_Properties Operator_Setup Sample_Deletion
begin

text \<open>
  The handler as a whole: the finalizer is removed only after the clean-up it stands for reported
  success, and every reconciliation of a live instance leaves its outcome in the status, the error
  included.
\<close>

section \<open>The deletion branch\<close>

text \<open>The instance the deletion branch works on.\<close>

abbreviation deleted :: "nss \<Rightarrow> nss" where
  "deleted inst \<equiv> setDefaults inst"

definition finalize_request :: "pkg \<Rightarrow> nss \<Rightarrow> history \<Rightarrow> request \<Rightarrow> bool" where
  "finalize_request p inst H q \<longleftrightarrow>
     config_request (deleted inst) H q \<or>
     cleanup_request (deleted inst) (member_candidate (deleted inst)) H q \<or>
     (q = Update (ONss (remove_finalizer p (deleted inst))) \<and>
        NamespaceScopeFinalizer \<notin> set (omFinalizers (nssMeta (remove_finalizer p (deleted inst)))) \<and>
        config_result (deleted inst) H (Done (Inr ())) \<and>
        cleanup_done (deleted inst) H (namespaceMembers (spec inst)))"

lemma removed_finalizer:
  assumes "pkg_ok p"
  shows "NamespaceScopeFinalizer \<notin> set (omFinalizers (nssMeta (remove_finalizer p inst)))"
proof -
  have "set (pkgRemoveFinalizer p fs f) = set fs - {f}" for fs f
    using assms unfolding pkg_ok_def controller_util_def by blast
  then show ?thesis
    by (simp add: remove_finalizer_def Let_def)
qed

lemma hwp_finalize_nss:
  assumes "pkg_ok p" "daemonSetPermissionChecker rc = None"
  shows "hwp (finalize_request p inst) S (\<lambda>_ oc. oc \<noteq> Blocked) (finalize_nss p rc inst) H"
proof -
  let ?i = "deleted inst"
  let ?Q = "\<lambda>(_ :: history) (oc :: (err + nat) outcome). oc \<noteq> Blocked"
  let ?hwp = "hwp (finalize_request p inst) S ?Q"
  let ?put = "go_try (put_nss (remove_finalizer p ?i)) (\<lambda>_. Ret (Inr 0))"
  have put: "?hwp ?put H2"
    if "config_result ?i H2 (Done (Inr ()))" "cleanup_done ?i H2 (namespaceMembers (spec inst))" for H2
  proof -
    have "finalize_request p inst H2 (Update (ONss (remove_finalizer p ?i)))"
      unfolding finalize_request_def using that removed_finalizer [OF assms(1)] by blast
    then show ?thesis
      by (simp add: put_nss_def go_try_def bind_call split: sum.split)
  qed
  have rbac: "?hwp (go_try (DeleteAllRbac ?i) (\<lambda>_. ?put)) H2" if "config_result ?i H2 (Done (Inr ()))" for H2
    unfolding hwp_go_try [of _ _ _ "DeleteAllRbac _"]
  proof (rule hwp_conseq [OF hwp_DeleteAllRbac])
    fix H3 and oc :: "(err + unit) outcome"
    assume H3: "H2 \<subseteq> H3" and oc: "delete_all_result ?i H3 oc"
    then obtain x where x: "oc = Done x" by (auto simp: delete_all_result_def finishes_def)
    show "and_then (?Q H3) (\<lambda>x. case x of Inl e \<Rightarrow> ?Q H3 (Done (Inl e)) | Inr _ \<Rightarrow> ?hwp ?put H3) oc"
      using oc put [OF config_result_mono [OF that H3]] by (cases x) (auto simp: x delete_all_result_def)
  qed (auto simp: finalize_request_def)
  have "?hwp (go_try (UpdateConfigMap p rc ?i) (\<lambda>_. go_try (DeleteAllRbac ?i) (\<lambda>_. ?put))) H"
    unfolding hwp_go_try [of _ _ _ "UpdateConfigMap _ _ _"]
  proof (rule hwp_conseq [OF hwp_UpdateConfigMap [OF assms]])
    fix H2 and oc :: "(err + unit) outcome"
    assume oc: "config_result ?i H2 oc"
    show "and_then (?Q H2) (\<lambda>x. case x of Inl e \<Rightarrow> ?Q H2 (Done (Inl e))
        | Inr _ \<Rightarrow> ?hwp (go_try (DeleteAllRbac ?i) (\<lambda>_. ?put)) H2) oc"
      using oc rbac [of H2] by (cases oc) (auto simp: config_result_def [of _ _ Blocked] split: sum.split)
  qed (auto simp: finalize_request_def)
  then show ?thesis
    by (simp add: finalize_nss_def Let_def)
qed

section \<open>Not blocked\<close>

text \<open>\<open>returns_or_panics p\<close>: no run of \<open>p\<close> waits forever.\<close>

definition returns_or_panics :: "'a proc \<Rightarrow> bool" where
  "returns_or_panics p \<longleftrightarrow> wp (\<lambda>_. True) (\<lambda>_. False) (\<lambda>oc. oc \<noteq> Blocked) p"

lemma returns_or_panicsI:
  "hwp P (\<lambda>_ _. False) Q p {} \<Longrightarrow> (\<And>H. \<not> Q H Blocked) \<Longrightarrow> returns_or_panics p"
  unfolding returns_or_panics_def wp_iff_hwp [of _ _ _ p "{}"]
  by (erule hwp_conseq) auto

lemma hwp_any:
  "returns_or_panics p \<Longrightarrow> any_end H Q \<Longrightarrow> hwp (\<lambda>_ _. True) (\<lambda>_ _. False) Q p H"
  unfolding returns_or_panics_def
proof (induction p arbitrary: H)
  case (Call q k)
  have "hwp (\<lambda>_ _. True) (\<lambda>_ _. False) Q (k r) (insert (q, r) H)" for r
    using Call.prems by (intro Call.IH) (auto intro: any_end_grow)
  then show ?case by simp
qed (auto simp: any_endD)

lemma returns_UpdateStatus: "returns_or_panics (UpdateStatus inst)"
  by (rule returns_or_panicsI [OF hwp_UpdateStatus]) (simp add: status_result_def)

lemma returns_PushRbac: "returns_or_panics (PushRbacToNamespace inst)"
  unfolding returns_or_panics_def by (rule wp_mono [OF wp_PushRbacToNamespace_finishes]) auto

lemma returns_UpdateUnprojected: "returns_or_panics (UpdateUnprojectedRolesStatus inst roles)"
  by (rule returns_or_panicsI [OF hwp_UpdateUnprojectedRolesStatus]) (simp add: unprojected_result_def)

lemma returns_DeleteUnmanaged: "returns_or_panics (DeleteRbacFromUnmanagedNamespace inst)"
  by (rule returns_or_panicsI [OF hwp_DeleteRbacFromUnmanagedNamespace]) (simp add: delete_unmanaged_result_def)

lemma returns_UpdateConfigMap:
  "pkg_ok p \<Longrightarrow> daemonSetPermissionChecker rc = None \<Longrightarrow> returns_or_panics (UpdateConfigMap p rc inst)"
  by (rule returns_or_panicsI [OF hwp_UpdateConfigMap]) (simp_all add: config_result_def)

lemma returns_addFinalizer: "returns_or_panics (addFinalizer p inst)"
  by (simp add: returns_or_panics_def addFinalizer_def Let_def wp_put_nss)

lemma returns_bind:
  "returns_or_panics p \<Longrightarrow> (\<And>a. returns_or_panics (f a)) \<Longrightarrow> returns_or_panics (bind p f)"
  unfolding returns_or_panics_def wp_bind
  by (erule wp_mono) (auto simp: and_then_def split: outcome.splits)

lemma returns_call [simp]: "returns_or_panics (call q dec)"
  by (simp add: returns_or_panics_def wp_call)

lemma returns_Ret [simp]: "returns_or_panics (Ret a)"
  by (simp add: returns_or_panics_def)

lemma returns_runtime_loop: "returns_or_panics (runtime_loop inst ns)"
proof (induction ns)
  case (Cons n ns)
  have "returns_or_panics (GetRolesFromNamespace inst n)"
    unfolding GetRolesFromNamespace_def by (intro returns_bind) (auto split: sum.split)
  moreover have ops: "returns_or_panics GetOperatorNamespace"
    unfolding returns_or_panics_def by (rule wp_mono [OF wp_reads_GetOperatorNamespace]) auto
  have "returns_or_panics (generateRuntimeRoleForNSS inst rs f t)" for rs f t
    unfolding generateRuntimeRoleForNSS_def createRuntimeRoleForNSS_def updateRuntimeRoleForNSS_def warn_forbidden_def
    by (auto intro!: returns_bind split: sum.split)
  then have "returns_or_panics (CreateRuntimeRoleToNamespace inst n rs)" for rs
    unfolding CreateRuntimeRoleToNamespace_def go_try_def
    by (auto intro!: returns_bind ops split: sum.split)
  ultimately show ?case
    using Cons by (auto simp: Let_def intro!: returns_bind split: sum.split)
qed simp

section \<open>The outcome in the status\<close>

text \<open>The name and namespace of the instance, or of an instance that the API server answered.\<close>

definition known_key :: "nss \<Rightarrow> history \<Rightarrow> key \<Rightarrow> bool" where
  "known_key inst H k \<longleftrightarrow> k = nss_key inst \<or> (\<exists>q n. (q, RObj (ONss n)) \<in> H \<and> k = nss_key n)"

definition outcome_recorded :: "nss \<Rightarrow> history \<Rightarrow> (err + nat) outcome \<Rightarrow> bool" where
  "outcome_recorded inst H oc \<longleftrightarrow>
     oc \<noteq> Blocked \<and>
     (\<forall>x. oc = Done x \<longrightarrow>
        (\<exists>k r. known_key inst H k \<and> (Now, r) \<in> H \<and>
           (case x of
              Inl e \<Rightarrow> recorded k (as_time r) ''Failed'' (Some e) H
            | Inr delay \<Rightarrow> delay = 60 \<and>
                (recorded k (as_time r) ''Completed'' None H \<or>
                 (\<exists>e. recorded k (as_time r) ''Failed'' (Some e) H)))))"

text \<open>What the steps carry along: the current instance is known and the start was read.\<close>

definition underway :: "nss \<Rightarrow> history \<Rightarrow> nss \<Rightarrow> time \<Rightarrow> bool" where
  "underway inst0 H inst startT \<longleftrightarrow> known_key inst0 H (nss_key inst) \<and> (\<exists>r. (Now, r) \<in> H \<and> startT = as_time r)"

lemma underway_mono: "underway i H inst t \<Longrightarrow> H \<subseteq> H' \<Longrightarrow> underway i H' inst t"
  unfolding underway_def known_key_def by blast

lemma underway_answer: "underway i H inst t \<Longrightarrow> H \<subseteq> H' \<Longrightarrow> (q, RObj (ONss inst')) \<in> H' \<Longrightarrow> underway i H' inst' t"
  unfolding underway_def known_key_def by blast

lemma underway_defaults [simp]: "underway i H (setDefaults inst) t = underway i H inst t"
  by (simp add: underway_def)

abbreviation outcome_hwp :: "nss \<Rightarrow> (err + nat) proc \<Rightarrow> history \<Rightarrow> bool" where
  "outcome_hwp inst \<equiv> hwp (\<lambda>_ _. True) (\<lambda>_ _. False) (outcome_recorded inst)"

lemma recorded_outcome:
  assumes "underway i H inst t"
  shows "recorded (nss_key inst) t ''Failed'' (Some e) H \<Longrightarrow> outcome_recorded i H (Done (Inl e))"
    "recorded (nss_key inst) t ''Failed'' (Some e) H \<Longrightarrow> outcome_recorded i H (Done (Inr 60))"
    "recorded (nss_key inst) t ''Completed'' None H \<Longrightarrow> outcome_recorded i H (Done (Inr 60))"
proof -
  obtain r where r: "known_key i H (nss_key inst)" "(Now, r) \<in> H" "t = as_time r"
    using assms by (auto simp: underway_def)
  note grounds = exI [of _ "nss_key inst"] exI [of _ r]
  show "outcome_recorded i H (Done (Inl e))" if "recorded (nss_key inst) t ''Failed'' (Some e) H"
    unfolding outcome_recorded_def using that r by (auto intro!: grounds simp del: split_paired_Ex)
  show "outcome_recorded i H (Done (Inr 60))" if "recorded (nss_key inst) t ''Failed'' (Some e) H"
    unfolding outcome_recorded_def using that r by (auto intro!: grounds simp del: split_paired_Ex)
  show "outcome_recorded i H (Done (Inr 60))" if "recorded (nss_key inst) t ''Completed'' None H"
    unfolding outcome_recorded_def using that r by (auto intro!: grounds simp del: split_paired_Ex)
qed

lemma outcome_failed: "underway i H inst t \<Longrightarrow> outcome_hwp i (failed inst t msg e) H"
  unfolding failed_def hwp_bind
  by (rule hwp_record) (auto intro: recorded_outcome(1) underway_mono)

lemma outcome_panicked [simp]: "outcome_recorded i H Panicked"
  by (simp add: outcome_recorded_def)

text \<open>A step that may end in any way, and one whose answer becomes the instance.\<close>

lemma outcome_step:
  assumes "underway i H inst t" "returns_or_panics q"
    and "\<And>a H'. H \<subseteq> H' \<Longrightarrow> outcome_hwp i (f a) H'"
  shows "outcome_hwp i (step_or_fail inst t msg q f) H"
  unfolding step_or_fail_def hwp_bind
proof (rule hwp_any [OF assms(2)])
  show "any_end H (\<lambda>H. and_then (outcome_recorded i H) (\<lambda>x. outcome_hwp i (case x of
      Inl e \<Rightarrow> failed inst t (msg e) e | Inr a \<Rightarrow> f a) H))"
    unfolding any_end_def
  proof (intro allI impI, goal_cases)
    case (1 H' oc)
    then show ?case
      using assms(3) outcome_failed [OF underway_mono [OF assms(1)]] by (cases oc) (auto split: sum.split)
  qed
qed

lemma outcome_instance_step:
  assumes "underway i H inst t" "hwp P (\<lambda>_ _. False) Q q H"
    and "\<And>H' oc. Q H' oc \<Longrightarrow> (\<exists>x. oc = Done x)"
    and "\<And>H' inst'. Q H' (Done (Inr inst')) \<Longrightarrow> inst' = inst0 \<or> (\<exists>w. (w, RObj (ONss inst')) \<in> H')"
    and "nss_key inst0 = nss_key inst"
    and "\<And>inst' H'. H \<subseteq> H' \<Longrightarrow> underway i H' inst' t \<Longrightarrow> outcome_hwp i (f inst') H'"
  shows "outcome_hwp i (step_or_fail inst t msg q f) H"
  unfolding step_or_fail_def hwp_bind
proof (rule hwp_conseq [OF assms(2)])
  fix H' oc
  assume H': "H \<subseteq> H'" and oc: "Q H' oc"
  then obtain x where x: "oc = Done x" using assms(3) by blast
  show "and_then (outcome_recorded i H') (\<lambda>x. outcome_hwp i (case x of
      Inl e \<Rightarrow> failed inst t (msg e) e | Inr a \<Rightarrow> f a) H') oc"
  proof (cases x)
    case (Inl e)
    then show ?thesis using outcome_failed [OF underway_mono [OF assms(1) H']] by (simp add: x)
  next
    case (Inr inst')
    have "underway i H' inst' t"
      using assms(4) [of H' inst'] oc underway_answer [OF assms(1) H'] underway_mono [OF assms(1) H'] assms(5)
      by (auto simp: x Inr underway_def)
    then show ?thesis using assms(6) [OF H'] by (simp add: x Inr)
  qed
qed simp_all

lemma outcome_reconcile_tail:
  assumes "pkg_ok p" "daemonSetPermissionChecker rc = None" "underway i H inst t"
  shows "outcome_hwp i (reconcile_tail p rc inst t) H"
proof -
  have completed: "outcome_hwp i (bind (recordOperationTimingAndStatus inst t ''Completed'' m None) (\<lambda>_. Ret (Inr 60))) H2"
    if "H \<subseteq> H2" for m H2
    unfolding hwp_bind using underway_mono [OF assms(3)] that
    by (intro hwp_record) (auto intro!: recorded_outcome(3) intro: order_trans)
  have runtime_failed: "outcome_hwp i (bind (recordOperationTimingAndStatus inst t ''Failed'' m (Some e)) (\<lambda>_. Ret (Inr 60))) H2"
    if "H \<subseteq> H2" for m e H2
    unfolding hwp_bind using underway_mono [OF assms(3)] that
    by (intro hwp_record) (auto intro!: recorded_outcome(2) intro: order_trans)
  have runtime: "outcome_hwp i (bind (runtime_loop inst nss) (\<lambda>er. case er of
        Some e \<Rightarrow> bind (recordOperationTimingAndStatus inst t ''Failed''
                  (''Failed to create runtime role: '' @ err_text e) (Some e)) (\<lambda>_. Ret (Inr 60))
      | None \<Rightarrow> bind (recordOperationTimingAndStatus inst t ''Completed''
                  ''Reconcile operation completed successfully'' None) (\<lambda>_. Ret (Inr 60)))) H2"
    if "H \<subseteq> H2" for nss H2
    unfolding hwp_bind [of _ _ _ "runtime_loop _ _"]
  proof (rule hwp_any [OF returns_runtime_loop])
    show "any_end H2 (\<lambda>H. and_then (outcome_recorded i H) (\<lambda>er. outcome_hwp i (case er of
        Some e \<Rightarrow> bind (recordOperationTimingAndStatus inst t ''Failed''
                  (''Failed to create runtime role: '' @ err_text e) (Some e)) (\<lambda>_. Ret (Inr 60))
      | None \<Rightarrow> bind (recordOperationTimingAndStatus inst t ''Completed''
                  ''Reconcile operation completed successfully'' None) (\<lambda>_. Ret (Inr 60))) H))"
      unfolding any_end_def
    proof (intro allI impI, goal_cases)
      case (1 H3 oc)
      then have "H \<subseteq> H3" using that by blast
      then show ?case
        using 1 completed [of H3] runtime_failed [of H3] by (cases oc) (auto split: option.split)
    qed
  qed
  show ?thesis
    unfolding reconcile_tail_def
    by (intro outcome_step [OF assms(3) returns_DeleteUnmanaged]
        outcome_step [OF underway_mono [OF assms(3)] returns_UpdateConfigMap [OF assms(1,2)]] runtime)
       auto
qed

lemma outcome_reconcile_members:
  assumes "pkg_ok p" "daemonSetPermissionChecker rc = None" "underway i H inst t"
  shows "outcome_hwp i (reconcile_members p rc inst t) H"
proof -
  have tail: "outcome_hwp i (step_or_fail n t (\<lambda>e. ''Failed to update unprojected roles status: '' @ err_text e)
      (UpdateUnprojectedRolesStatus n u) (\<lambda>n'. reconcile_tail p rc n' t)) H2"
    if "underway i H2 n t" for n u H2
    by (rule outcome_instance_step [OF that hwp_UpdateUnprojectedRolesStatus, of n])
       (auto simp: unprojected_result_def finishes_def outcome_reconcile_tail [OF assms(1,2)])
  have push: "outcome_hwp i (bind (PushRbacToNamespace n) (\<lambda>(u, er). case er of
        Some e \<Rightarrow> failed n t (''Failed to generate rbac: '' @ err_text e) e
      | None \<Rightarrow> step_or_fail n t (\<lambda>e. ''Failed to update unprojected roles status: '' @ err_text e)
          (UpdateUnprojectedRolesStatus n u) (\<lambda>n'. reconcile_tail p rc n' t))) H2"
    if "underway i H2 n t" for n H2
    unfolding hwp_bind
  proof (rule hwp_any [OF returns_PushRbac])
    show "any_end H2 (\<lambda>H. and_then (outcome_recorded i H) (\<lambda>x. outcome_hwp i (case x of (u, er) \<Rightarrow> case er of
          Some e \<Rightarrow> failed n t (''Failed to generate rbac: '' @ err_text e) e
        | None \<Rightarrow> step_or_fail n t (\<lambda>e. ''Failed to update unprojected roles status: '' @ err_text e)
            (UpdateUnprojectedRolesStatus n u) (\<lambda>n'. reconcile_tail p rc n' t)) H))"
      unfolding any_end_def
    proof (intro allI impI, goal_cases)
      case (1 H3 oc)
      have "underway i H3 n t" using underway_mono [OF that 1(1)] .
      then show ?case
        using 1 tail outcome_failed by (cases oc) (auto split: option.split)
    qed
  qed
  show ?thesis
    unfolding reconcile_members_def
  proof (rule outcome_instance_step [OF assms(3) hwp_UpdateStatus, of inst])
    fix inst' H'
    assume "underway i H' inst' t"
    then have "underway i H' (setDefaults inst') t" by simp
    from push [OF this] show "outcome_hwp i (let inst = setDefaults inst' in
        bind (PushRbacToNamespace inst) (\<lambda>(unprojected, er). case er of
          Some e \<Rightarrow> failed inst t (''Failed to generate rbac: '' @ err_text e) e
        | None \<Rightarrow> step_or_fail inst t (\<lambda>e. ''Failed to update unprojected roles status: '' @ err_text e)
            (UpdateUnprojectedRolesStatus inst unprojected) (\<lambda>inst2. reconcile_tail p rc inst2 t))) H'"
      unfolding Let_def .
  qed (auto simp: status_result_def finishes_def)
qed

lemma outcome_reconcile_nss:
  assumes "pkg_ok p" "daemonSetPermissionChecker rc = None"
  shows "outcome_hwp inst (reconcile_nss p rc inst) {}"
proof -
  let ?ok = "\<lambda>H (oc :: (err + nss) outcome). (\<exists>x. oc = Done x) \<and>
      (\<forall>n. oc = Done (Inr n) \<longrightarrow> n = inst \<or> (\<exists>w. (w, RObj (ONss n)) \<in> H))"
  have finalizer: "hwp (\<lambda>_ _. True) (\<lambda>_ _. False) ?ok (if \<not> Contains (omFinalizers (nssMeta inst)) NamespaceScopeFinalizer
      then addFinalizer p inst else Ret (Inr inst)) H" for H
    by (auto simp: addFinalizer_def Let_def put_nss_def hwp_call elim!: as_obj_InrE)
  have start: "underway inst (insert (Now, r) H) inst (as_time r)" for r H
    by (auto simp: underway_def known_key_def)
  have members: "outcome_hwp inst (step_or_fail inst t msg
      (if \<not> Contains (omFinalizers (nssMeta inst)) NamespaceScopeFinalizer
       then addFinalizer p inst else Ret (Inr inst)) (\<lambda>n. reconcile_members p rc n t)) H"
    if "underway inst H inst t" for t msg H
    by (rule outcome_instance_step [OF that finalizer, of inst])
       (auto simp: outcome_reconcile_members [OF assms])
  show ?thesis
    unfolding reconcile_nss_def bind_call hwp.simps
    by (intro conjI allI TrueI outcome_step [OF start] returns_call members) (rule underway_mono [OF start])
qed

section \<open>Properties\<close>

text \<open>
  C8: the finalizer goes last. When an instance is deleted, \<open>Reconcile\<close> writes what
  \<open>UpdateConfigMap\<close> and \<open>DeleteAllRbac\<close> may write, and it removes the finalizer, and nothing else of
  the instance, only after both of them reported success: the ConfigMap lists the members of the
  remaining instances, and in each member that no remaining instance uses (the operator's own
  namespace apart) the projected bindings and Roles were removed, or the API server forbade their
  removal. What it forbids to remove is left behind, and does not keep the finalizer.
\<close>

theorem finalizer_removed_last:
  assumes "pkg_ok p" "daemonSetPermissionChecker rc = None"
  shows "ensures (finalize_nss p rc inst) (finalize_request p inst) (\<lambda>_ oc. oc \<noteq> Blocked)"
  by (rule ensuresI) (rule hwp_finalize_nss [OF assms])

text \<open>
  For an instance that has the finalizer and is being deleted, with the run of \<open>Sample_Deletion\<close>, which
  ends with the instance without it and the projected objects gone.
\<close>

theorem finalizer_removed_last_witness:
  "NamespaceScopeFinalizer \<in> set (omFinalizers (nssMeta sample_deleted)) \<and>
   omFinalizers (nssMeta sample_released) = [] \<and>
   ensures (finalize_nss std_pkg sample_reconciler sample_deleted) (finalize_request std_pkg sample_deleted) (\<lambda>_ oc. oc \<noteq> Blocked) \<and>
   (\<exists>tr. runs cluster_env (finalize_nss std_pkg sample_reconciler sample_deleted) (sample_world sample_deleted @ sample_made) tr
      (Done (Inr 0)) (sample_world sample_released @ [OConfigMap sample_emptied, sample_runtime_role]))"
proof (intro conjI)
  show "ensures (finalize_nss std_pkg sample_reconciler sample_deleted) (finalize_request std_pkg sample_deleted) (\<lambda>_ oc. oc \<noteq> Blocked)"
    by (rule finalizer_removed_last) (simp_all add: std_pkg_ok sample_reconciler_def)
qed (use sample_run_of_finalize in \<open>simp_all add: sample_deleted_sel sample_released_def sample_cleaned_def\<close>)



text \<open>
  The ConfigMap the operator makes is one its own cache shows it. For a watched namespace
  the object \<open>new_config_map\<close> passes the label selector of \<open>NewNSSCache\<close>, so that the next cached read
  finds it; a ConfigMap without the operator's label is never found.
\<close>

theorem config_map_cached:
  "cached (moCache (NewNSSCache namespaces opts)) KConfigMap (nss_namespace inst) (omLabels (cmMeta (new_config_map inst xs))) \<longleftrightarrow>
     namespaces = [[]] \<or> nss_namespace inst \<in> set namespaces"
proof -
  have "length namespaces = 1 \<and> namespaces ! 0 = [] \<longleftrightarrow> namespaces = [[]]"
    by (cases namespaces) auto
  then show ?thesis
    by (simp add: cached_def NewNSSCache_def Let_def new_config_map_def new_meta_def NamespaceScopeLabel_def)
qed

text \<open>
  The test for the operator's own roles misses the runtime Role. No name that starts with the
  prefix of the runtime Roles passes \<open>managed_or_runtime_name\<close>, although the regular expression
  is written to recognise both kinds of names.
\<close>

theorem runtime_role_not_recognised:
  "\<not> managed_or_runtime_name (omName (roleMeta (runtime_role rules fromNs toNs))) \<and>
   managed_or_runtime_name (NamespaceScopeManagedPrefix @ fromNs)"
  by (simp add: managed_or_runtime_name_def runtime_role_def new_meta_def NamespaceScopeRuntimePrefix_def
      NamespaceScopeManagedPrefix_def)

text \<open>
  The names of projected Roles can collide. The name is made from the part of the Role name
  before the first dot and the hash of the three names without a separator: two different Roles
  bound to two different service accounts get the same name in every target namespace.
\<close>

theorem projected_name_collision:
  "projected_name (''view.a'' @ r) (''b'' @ sa) ns = projected_name (''view.'') (''a'' @ r @ ''b'' @ sa) ns"
  by (simp add: projected_name_def)

end
