(* ===== verification/Reconcile_Confined.thy ===== *)
theory Reconcile_Confined
  imports Reconcile_Properties
begin

text \<open>
  What the whole handler may write. Each component's theory says which writes of the component are
  justified; here they are put together for \<open>Reconcile\<close>: every write belongs to one of its steps,
  is made for an instance that the API server answered, and has the grounds that step needs. The
  runtime Roles, whose loop belongs to the handler itself, are treated first.
\<close>

section \<open>Runtime Roles\<close>

definition runtime_rules :: "nss \<Rightarrow> history \<Rightarrow> string \<Rightarrow> policy_rule list \<Rightarrow> bool" where
  "runtime_rules inst H toNs rules \<longleftrightarrow>
     (\<exists>r roles. (ListOf Live KRole toNs [], r) \<in> H \<and> as_list the_role r = Inr roles \<and>
        filter (labelled_for inst) roles \<noteq> [] \<and>
        rules = summarize_rules (filter (labelled_for inst) roles) [])"

definition runtime_request :: "nss \<Rightarrow> string list \<Rightarrow> history \<Rightarrow> request \<Rightarrow> bool" where
  "runtime_request inst members H q \<longleftrightarrow>
     (is_write q \<longrightarrow>
        (\<exists>toNs rules. (q = Create (ORole (runtime_role rules (nss_namespace inst) toNs)) \<or>
            q = Update (ORole (runtime_role rules (nss_namespace inst) toNs))) \<and>
           toNs \<in> set members \<and> outside_operator H toNs \<and> runtime_rules inst H toNs rules))"

lemma runtime_rules_mono: "runtime_rules inst H t rules \<Longrightarrow> H \<subseteq> H' \<Longrightarrow> runtime_rules inst H' t rules"
  unfolding runtime_rules_def by blast

lemma runtime_read [simp]: "\<not> is_write q \<Longrightarrow> runtime_request inst ms H q"
  by (simp add: runtime_request_def)

lemma hwp_generateRuntimeRole:
  assumes "toNs \<in> set ms" "outside_operator H toNs" "runtime_rules inst H toNs rules" "any_end H Q"
  shows "hwp (runtime_request inst ms) S Q (generateRuntimeRoleForNSS inst rules (nss_namespace inst) toNs) H"
proof -
  let ?role = "ORole (runtime_role rules (nss_namespace inst) toNs)"
  have writes: "runtime_request inst ms H' (Create ?role)" "runtime_request inst ms H' (Update ?role)"
    if "H \<subseteq> H'" for H'
    unfolding runtime_request_def
    using assms(1) outside_operator_mono [OF assms(2) that] runtime_rules_mono [OF assms(3) that] by blast+
  have ends: "Q H' (Done x)" if "H \<subseteq> H'" for H' x
    using any_endD(1) [OF assms(4) that] .
  show ?thesis
    by (auto simp: generateRuntimeRoleForNSS_def createRuntimeRoleForNSS_def updateRuntimeRoleForNSS_def
        warn_forbidden_def bind_call hwp_call split: sum.split intro!: writes ends)
qed

lemma hwp_CreateRuntimeRoleToNamespace:
  assumes "toNs \<in> set ms" "runtime_rules inst H toNs rules" "any_end H Q"
  shows "hwp (runtime_request inst ms) S Q (CreateRuntimeRoleToNamespace inst toNs rules) H"
  unfolding CreateRuntimeRoleToNamespace_def hwp_go_try
proof (rule hwp_GetOperatorNamespace)
  fix H' ops
  assume H': "H \<subseteq> H'" and ops: "operator_namespace_read H' ops"
  have "hwp (runtime_request inst ms) S Q (generateRuntimeRoleForNSS inst rules (nss_namespace inst) toNs) H'"
    if "toNs \<noteq> ops"
    using that ops runtime_rules_mono [OF assms(2) H'] any_end_grow [OF assms(3) H']
    by (intro hwp_generateRuntimeRole [OF assms(1)]) (auto simp: outside_operator_def)
  then show "and_then (Q H') (\<lambda>x. case x of Inl e \<Rightarrow> Q H' (Done (Inl e))
      | Inr ops \<Rightarrow> hwp (runtime_request inst ms) S Q (if toNs = ops then Ret (Inr ())
          else generateRuntimeRoleForNSS inst rules (nss_namespace inst) toNs) H') (Done (Inr ops))"
    using any_endD(1) [OF assms(3) H'] by simp
qed (auto intro: any_endD(1) [OF assms(3)])

lemma hwp_runtime_loop:
  "set ns \<subseteq> set ms \<Longrightarrow> any_end H Q \<Longrightarrow> hwp (runtime_request inst ms) S Q (runtime_loop inst ns) H"
proof (induction ns arbitrary: H)
  case Nil
  then show ?case by (simp add: any_endD)
next
  case (Cons n ns)
  let ?q = "ListOf Live KRole n []"
  have rest: "hwp (runtime_request inst ms) S Q (runtime_loop inst ns) H'" if "H \<subseteq> H'" for H'
    using Cons.prems any_end_grow [OF Cons.prems(2) that] by (intro Cons.IH) auto
  have create: "hwp (runtime_request inst ms) S Q
      (bind (CreateRuntimeRoleToNamespace inst n (summarize_rules (filter (labelled_for inst) roles) []))
        (\<lambda>y. case y of Inl e \<Rightarrow> Ret (Some e) | Inr _ \<Rightarrow> runtime_loop inst ns)) (insert (?q, r) H)"
    if "as_list the_role r = Inr roles" "filter (labelled_for inst) roles \<noteq> []" for r roles
    unfolding hwp_bind
  proof (rule hwp_CreateRuntimeRoleToNamespace)
    show "runtime_rules inst (insert (?q, r) H) n (summarize_rules (filter (labelled_for inst) roles) [])"
      unfolding runtime_rules_def using that by blast
    show "any_end (insert (?q, r) H) (\<lambda>H. and_then (Q H) (\<lambda>y. hwp (runtime_request inst ms) S Q
        (case y of Inl e \<Rightarrow> Ret (Some e) | Inr _ \<Rightarrow> runtime_loop inst ns) H))"
      unfolding any_end_def
    proof (intro allI impI, goal_cases)
      case (1 H' oc)
      then have "H \<subseteq> H'" by blast
      with 1 show ?case
        using rest any_endD [OF Cons.prems(2)] by (cases oc) (auto split: sum.split)
    qed
  qed (use Cons.prems in simp)
  have "hwp (runtime_request inst ms) S Q (bind (case as_list the_role r of
        Inl e \<Rightarrow> if is_not_found e then Ret (Inr []) else Ret (Inl e)
      | Inr roles \<Rightarrow> Ret (Inr (filter (labelled_for inst) roles)))
      (\<lambda>x. let rolesList = (case x of Inl e \<Rightarrow> [] | Inr rs \<Rightarrow> rs) in
       if length rolesList \<noteq> 0 then
         bind (CreateRuntimeRoleToNamespace inst n (summarize_rules rolesList []))
           (\<lambda>y. case y of Inl e \<Rightarrow> Ret (Some e) | Inr _ \<Rightarrow> runtime_loop inst ns)
       else runtime_loop inst ns)) (insert (?q, r) H)" for r
  proof (cases "as_list the_role r")
    case (Inr roles)
    then show ?thesis using create [OF Inr] rest by (auto simp: Let_def)
  qed (use rest in \<open>simp add: subset_insertI\<close>)
  then show ?case
    by (simp add: GetRolesFromNamespace_def bind_call)
qed

section \<open>The steps of the handler\<close>

text \<open>An instance that the API server answered, with or without its defaults.\<close>

definition known_inst :: "history \<Rightarrow> nss \<Rightarrow> bool" where
  "known_inst H n \<longleftrightarrow> (\<exists>w m. (w, RObj (ONss m)) \<in> H \<and> (n = m \<or> n = setDefaults m))"

definition with_finalizer :: "pkg \<Rightarrow> nss \<Rightarrow> nss" where
  "with_finalizer p n = n\<lparr>nssMeta := (nssMeta n)\<lparr>omFinalizers :=
     pkgAddFinalizer p (omFinalizers (nssMeta n)) NamespaceScopeFinalizer\<rparr>\<rparr>"

definition live_request :: "pkg \<Rightarrow> nss \<Rightarrow> history \<Rightarrow> request \<Rightarrow> bool" where
  "live_request p n H q \<longleftrightarrow>
     q = Update (ONss (with_finalizer p n)) \<and> NamespaceScopeFinalizer \<notin> set (omFinalizers (nssMeta n)) \<or>
     status_request n H q \<or> push_request n H q \<or> (\<exists>roles. unprojected_request n roles H q) \<or>
     cleanup_request n (listed_candidate n) H q \<or> config_request n H q \<or>
     runtime_request n (namespaceMembers (spec n)) H q \<or>
     (\<exists>startT ph er. record_request (nss_key n) startT ph er H q)"

text \<open>
  The writes of a reconciliation of \<open>req\<close>: those of the deletion branch for an instance that was
  read with a deletion timestamp, and those of the normal branch for one without.
\<close>

definition reconcile_request :: "pkg \<Rightarrow> key \<Rightarrow> history \<Rightarrow> request \<Rightarrow> bool" where
  "reconcile_request p req H q \<longleftrightarrow>
     (is_write q \<longrightarrow>
        (\<exists>n0. (Get Cached KNss req, RObj (ONss n0)) \<in> H \<and>
           (if time_is_zero (omDeletionTimestamp (nssMeta n0))
            then \<exists>n. known_inst H n \<and> live_request p n H q
            else finalize_request p n0 H q)))"

text \<open>A live instance was read for the request.\<close>

definition started :: "key \<Rightarrow> history \<Rightarrow> bool" where
  "started req H \<longleftrightarrow> (\<exists>n0. (Get Cached KNss req, RObj (ONss n0)) \<in> H \<and>
     time_is_zero (omDeletionTimestamp (nssMeta n0)))"

lemma started_mono: "started req H \<Longrightarrow> H \<subseteq> H' \<Longrightarrow> started req H'"
  unfolding started_def by blast

lemma known_inst_mono: "known_inst H n \<Longrightarrow> H \<subseteq> H' \<Longrightarrow> known_inst H' n"
  unfolding known_inst_def by blast

lemma known_inst_defaults: "known_inst H n \<Longrightarrow> known_inst H (setDefaults n)"
  unfolding known_inst_def by (metis setDefaults_idem)

lemma known_inst_answer: "(w, RObj (ONss n)) \<in> H \<Longrightarrow> known_inst H n"
  unfolding known_inst_def by blast

lemma reconcile_read [simp]: "\<not> is_write q \<Longrightarrow> reconcile_request p req H q"
  by (simp add: reconcile_request_def)

lemma live_requestI:
  "NamespaceScopeFinalizer \<notin> set (omFinalizers (nssMeta n)) \<Longrightarrow> live_request p n H (Update (ONss (with_finalizer p n)))"
  "status_request n H q \<Longrightarrow> live_request p n H q" "push_request n H q \<Longrightarrow> live_request p n H q"
  "unprojected_request n roles H q \<Longrightarrow> live_request p n H q"
  "cleanup_request n (listed_candidate n) H q \<Longrightarrow> live_request p n H q"
  "config_request n H q \<Longrightarrow> live_request p n H q"
  "runtime_request n (namespaceMembers (spec n)) H q \<Longrightarrow> live_request p n H q"
  "record_request (nss_key n) t ph er H q \<Longrightarrow> live_request p n H q"
  unfolding live_request_def by blast+

lemma reconcile_live:
  "started req H \<Longrightarrow> known_inst H n \<Longrightarrow> live_request p n H q \<Longrightarrow> reconcile_request p req H q"
  unfolding reconcile_request_def started_def by auto

text \<open>The handler from some point on keeps to its requests and does not wait forever.\<close>

abbreviation keeps :: "pkg \<Rightarrow> key \<Rightarrow> 'a proc \<Rightarrow> history \<Rightarrow> bool" where
  "keeps p req \<equiv> hwp (reconcile_request p req) (\<lambda>_ _. False) (\<lambda>_ oc. oc \<noteq> Blocked)"

lemma keeps_bind:
  assumes "hwp P (\<lambda>_ _. False) Q q H" "\<And>H'. \<not> Q H' Blocked"
    and "\<And>H' w. H \<subseteq> H' \<Longrightarrow> P H' w \<Longrightarrow> reconcile_request p req H' w"
    and "\<And>H' a. H \<subseteq> H' \<Longrightarrow> Q H' (Done a) \<Longrightarrow> keeps p req (f a) H'"
  shows "keeps p req (bind q f) H"
  unfolding hwp_bind
proof (rule hwp_conseq [OF assms(1)])
  fix H' oc
  assume "H \<subseteq> H'" "Q H' oc"
  then show "and_then (\<lambda>oc. oc \<noteq> Blocked) (\<lambda>a. keeps p req (f a) H') oc"
    using assms(2,4) by (cases oc) auto
qed (use assms(3) in auto)

text \<open>A step for an instance that was answered: the grounds of its requests are there.\<close>

definition ready :: "key \<Rightarrow> history \<Rightarrow> nss \<Rightarrow> bool" where
  "ready req H n \<longleftrightarrow> started req H \<and> known_inst H n"

lemma ready_mono: "ready req H n \<Longrightarrow> H \<subseteq> H' \<Longrightarrow> ready req H' n"
  unfolding ready_def using started_mono known_inst_mono by blast

lemma ready_defaults: "ready req H n \<Longrightarrow> ready req H (setDefaults n)"
  by (simp add: ready_def known_inst_defaults)

lemma ready_answer: "ready req H n \<Longrightarrow> H \<subseteq> H' \<Longrightarrow> (w, RObj (ONss n')) \<in> H' \<Longrightarrow> ready req H' n'"
  unfolding ready_def using started_mono known_inst_answer by blast

lemma ready_request:
  "ready req H n \<Longrightarrow> H \<subseteq> H' \<Longrightarrow> live_request p n H' q \<Longrightarrow> reconcile_request p req H' q"
  unfolding ready_def using reconcile_live started_mono known_inst_mono by blast

lemma keeps_record:
  assumes "ready req H n"
  shows "keeps p req (bind (recordOperationTimingAndStatus n t ph msg er) (\<lambda>_. Ret x)) H"
proof -
  have "hwp (record_request (nss_key n) t ph er) (\<lambda>_ _. False) (\<lambda>_ oc. oc \<noteq> Blocked)
      (recordOperationTimingAndStatus n t ph msg er) H"
    by (rule hwp_record) auto
  then show ?thesis
    by (rule keeps_bind) (auto intro: ready_request [OF assms] live_requestI(8))
qed

lemma keeps_step:
  assumes "ready req H n" "hwp P (\<lambda>_ _. False) Q q H" "\<And>H'. \<not> Q H' Blocked"
    and "\<And>H' w. H \<subseteq> H' \<Longrightarrow> P H' w \<Longrightarrow> reconcile_request p req H' w"
    and "\<And>H' a. H \<subseteq> H' \<Longrightarrow> Q H' (Done (Inr a)) \<Longrightarrow> keeps p req (f a) H'"
  shows "keeps p req (step_or_fail n t msg q f) H"
  unfolding step_or_fail_def
proof (rule keeps_bind [OF assms(2-4)])
  fix H' x
  assume H': "H \<subseteq> H'" and x: "Q H' (Done x)"
  have "keeps p req (failed n t (msg e) e) H'" for e
    unfolding failed_def by (rule keeps_record [OF ready_mono [OF assms(1) H']])
  with x show "keeps p req (case x of Inl e \<Rightarrow> failed n t (msg e) e | Inr a \<Rightarrow> f a) H'"
    using assms(5) [OF H'] by (cases x) auto
qed

lemma hwp_push_any: "hwp (push_request inst) (\<lambda>_ _. False) (\<lambda>_. finishes) (PushRbacToNamespace inst) H"
proof (rule hwp_grow)
  show "hwp (push_request inst) (\<lambda>_ _. False) (\<lambda>_. finishes) (PushRbacToNamespace inst) {}"
    by (rule hwp_conseq [OF hwp_outcome [OF hwp_PushRbacToNamespace wp_PushRbacToNamespace_finishes]]) auto
qed (auto simp: push.monoP)

section \<open>The handler\<close>

lemma keeps_tail:
  assumes "pkg_ok p" "daemonSetPermissionChecker rc = None" "ready req H n"
  shows "keeps p req (reconcile_tail p rc n t) H"
proof -
  have runtime: "keeps p req (bind (runtime_loop n (namespaceMembers (spec n))) (\<lambda>er. case er of
        Some e \<Rightarrow> bind (recordOperationTimingAndStatus n t ''Failed''
                  (''Failed to create runtime role: '' @ err_text e) (Some e)) (\<lambda>_. Ret (Inr 60))
      | None \<Rightarrow> bind (recordOperationTimingAndStatus n t ''Completed''
                  ''Reconcile operation completed successfully'' None) (\<lambda>_. Ret (Inr 60)))) H2"
    if "ready req H2 n" for H2
  proof (rule keeps_bind)
    show "hwp (runtime_request n (namespaceMembers (spec n))) (\<lambda>_ _. False) (\<lambda>_ oc. oc \<noteq> Blocked)
        (runtime_loop n (namespaceMembers (spec n))) H2"
      by (rule hwp_runtime_loop) (auto simp: any_end_def)
    show "reconcile_request p req H' w"
      if "H2 \<subseteq> H'" "runtime_request n (namespaceMembers (spec n)) H' w" for H' w
      using ready_request [OF \<open>ready req H2 n\<close> that(1)] live_requestI(7) [OF that(2)] by blast
  qed (auto split: option.split intro!: keeps_record intro: ready_mono [OF that])
  have config: "keeps p req (step_or_fail n t msg (UpdateConfigMap p rc n)
      (\<lambda>_. bind (runtime_loop n (namespaceMembers (spec n))) (\<lambda>er. case er of
        Some e \<Rightarrow> bind (recordOperationTimingAndStatus n t ''Failed''
                  (''Failed to create runtime role: '' @ err_text e) (Some e)) (\<lambda>_. Ret (Inr 60))
      | None \<Rightarrow> bind (recordOperationTimingAndStatus n t ''Completed''
                  ''Reconcile operation completed successfully'' None) (\<lambda>_. Ret (Inr 60))))) H2"
    if "ready req H2 n" for H2 msg
    by (rule keeps_step [OF that hwp_UpdateConfigMap [OF assms(1,2)]])
       (auto simp: config_result_def [of _ _ Blocked]
         intro: ready_request [OF that] live_requestI(6) runtime ready_mono [OF that])
  show ?thesis
    unfolding reconcile_tail_def
  proof (rule keeps_step [OF assms(3) hwp_DeleteRbacFromUnmanagedNamespace], goal_cases)
    case (3 H' a)
    then show ?case by (intro config ready_mono [OF assms(3)])
  qed (auto simp: delete_unmanaged_result_def [of _ _ Blocked]
      intro: ready_request [OF assms(3)] live_requestI(5))
qed

lemma keeps_members:
  assumes "pkg_ok p" "daemonSetPermissionChecker rc = None" "ready req H n"
  shows "keeps p req (reconcile_members p rc n t) H"
proof -
  have unprojected: "keeps p req (step_or_fail n t msg (UpdateUnprojectedRolesStatus n u)
      (\<lambda>n'. reconcile_tail p rc n' t)) H2" if n: "ready req H2 n" for n u msg H2
  proof (rule keeps_step [OF n hwp_UpdateUnprojectedRolesStatus])
    fix H' n'
    assume "H2 \<subseteq> H'" "unprojected_result n u H' (Done (Inr n'))"
    then have "ready req H' n'"
      unfolding unprojected_result_def using ready_mono [OF n] ready_answer [OF n] by blast
    then show "keeps p req (reconcile_tail p rc n' t) H'" by (rule keeps_tail [OF assms(1,2)])
  qed (auto simp: unprojected_result_def [of _ _ _ Blocked] intro: ready_request [OF n] live_requestI(4))
  have push: "keeps p req (bind (PushRbacToNamespace n) (\<lambda>(u, er). case er of
        Some e \<Rightarrow> failed n t (''Failed to generate rbac: '' @ err_text e) e
      | None \<Rightarrow> step_or_fail n t (\<lambda>e. ''Failed to update unprojected roles status: '' @ err_text e)
          (UpdateUnprojectedRolesStatus n u) (\<lambda>n'. reconcile_tail p rc n' t))) H2"
    if n: "ready req H2 n" for n H2
  proof (rule keeps_bind [OF hwp_push_any])
    fix H' and a :: "string list \<times> err option"
    assume "H2 \<subseteq> H'"
    then show "keeps p req (case a of (u, er) \<Rightarrow> (case er of
        Some e \<Rightarrow> failed n t (''Failed to generate rbac: '' @ err_text e) e
      | None \<Rightarrow> step_or_fail n t (\<lambda>e. ''Failed to update unprojected roles status: '' @ err_text e)
          (UpdateUnprojectedRolesStatus n u) (\<lambda>n'. reconcile_tail p rc n' t))) H'"
      unfolding failed_def using ready_mono [OF n]
      by (auto split: prod.split option.split intro!: keeps_record unprojected)
  qed (auto intro: ready_request [OF n] live_requestI(3))
  show ?thesis
    unfolding reconcile_members_def Let_def
  proof (rule keeps_step [OF assms(3) hwp_UpdateStatus])
    fix H' n'
    assume "H \<subseteq> H'" "status_result n H' (Done (Inr n'))"
    then have "ready req H' n'"
      unfolding status_result_def using ready_mono [OF assms(3)] ready_answer [OF assms(3)] by blast
    from push [OF ready_defaults [OF this]]
    show "keeps p req (bind (PushRbacToNamespace (setDefaults n')) (\<lambda>(u, er). case er of
        Some e \<Rightarrow> failed (setDefaults n') t (''Failed to generate rbac: '' @ err_text e) e
      | None \<Rightarrow> step_or_fail (setDefaults n') t (\<lambda>e. ''Failed to update unprojected roles status: '' @ err_text e)
          (UpdateUnprojectedRolesStatus (setDefaults n') u) (\<lambda>n'. reconcile_tail p rc n' t))) H'" .
  qed (auto simp: status_result_def [of _ _ Blocked] intro: ready_request [OF assms(3)] live_requestI(2))
qed

lemma keeps_nss:
  assumes "pkg_ok p" "daemonSetPermissionChecker rc = None" "ready req H n"
  shows "keeps p req (reconcile_nss p rc n) H"
proof -
  have finalizer: "keeps p req (step_or_fail n t msg
      (if \<not> Contains (omFinalizers (nssMeta n)) NamespaceScopeFinalizer then addFinalizer p n else Ret (Inr n))
      (\<lambda>n'. reconcile_members p rc n' t)) H2" if r: "ready req H2 n" for t msg H2
  proof (rule keeps_step [OF r])
    let ?Q = "\<lambda>H' oc. finishes oc \<and> (\<forall>n'. oc = Done (Inr n') \<longrightarrow> n' = n \<or> (\<exists>w. (w, RObj (ONss n')) \<in> H'))"
    have "live_request p n H2 (Update (ONss (with_finalizer p n)))"
      if "\<not> Contains (omFinalizers (nssMeta n)) NamespaceScopeFinalizer"
      using that by (intro live_requestI(1)) simp
    then show "hwp (live_request p n) (\<lambda>_ _. False) ?Q
       (if \<not> Contains (omFinalizers (nssMeta n)) NamespaceScopeFinalizer then addFinalizer p n
        else Ret (Inr n)) H2"
      by (auto simp: addFinalizer_def Let_def put_nss_def hwp_call with_finalizer_def elim!: as_obj_InrE)
    show "keeps p req (reconcile_members p rc n' t) H'" if "H2 \<subseteq> H'" "?Q H' (Done (Inr n'))" for H' n'
    proof (rule keeps_members [OF assms(1,2)])
      show "ready req H' n'"
        using that ready_mono [OF r that(1)] ready_answer [OF r that(1)] by blast
    qed
  qed (auto intro: ready_request [OF r])
  have listing: "keeps p req (step_or_fail n t msg (call (ListOf Cached KNss [] []) (as_list the_nss))
      (\<lambda>_. step_or_fail n t msg2
        (if \<not> Contains (omFinalizers (nssMeta n)) NamespaceScopeFinalizer then addFinalizer p n else Ret (Inr n))
        (\<lambda>n'. reconcile_members p rc n' t))) H2" if r: "ready req H2 n" for t msg msg2 H2
  proof (rule keeps_step [OF r _ _ _ finalizer [OF ready_mono [OF r]]])
    show "hwp (\<lambda>_ q. \<not> is_write q) (\<lambda>_ _. False) (\<lambda>_. finishes) (call (ListOf Cached KNss [] []) (as_list the_nss)) H2"
      by (simp add: hwp_call)
  qed simp_all
  show ?thesis
    unfolding reconcile_nss_def bind_call hwp.simps
    by (intro conjI allI listing ready_mono [OF assms(3)] subset_insertI) simp
qed

lemma keeps_Reconcile:
  assumes "pkg_ok p" "daemonSetPermissionChecker rc = None"
  shows "keeps p req (Reconcile p rc req) H"
proof -
  let ?get = "Get Cached KNss req"
  have live: "keeps p req (reconcile_nss p rc n) (insert (?get, RObj (ONss n)) H)"
    if "time_is_zero (omDeletionTimestamp (nssMeta n))" for n
    using that by (intro keeps_nss [OF assms]) (auto simp: ready_def started_def known_inst_def)
  have dead: "keeps p req (finalize_nss p rc n) (insert (?get, RObj (ONss n)) H)"
    if "\<not> time_is_zero (omDeletionTimestamp (nssMeta n))" for n
  proof (rule hwp_conseq [OF hwp_finalize_nss [OF assms]])
    fix H' q
    assume "insert (?get, RObj (ONss n)) H \<subseteq> H'" "finalize_request p n H' q"
    then show "reconcile_request p req H' q"
      unfolding reconcile_request_def using that by auto
  qed auto
  have "keeps p req (case as_obj the_nss r of
        Inl e \<Rightarrow> if is_not_found e then Ret (Inr 0) else Ret (Inl e)
      | Inr n \<Rightarrow> if \<not> time_is_zero (omDeletionTimestamp (nssMeta n)) then finalize_nss p rc n
          else reconcile_nss p rc n) (insert (?get, r) H)" for r
    using live dead by (cases "as_obj the_nss r") (auto elim!: as_obj_InrE)
  then show ?thesis
    by (simp add: Reconcile_def bind_call)
qed

section \<open>The property\<close>

text \<open>
  C4: the whole handler keeps to its steps. Whatever the API server answers, every write of
  \<open>Reconcile\<close> is one of these, for an instance that the API server answered: the finalizer
  added, the status (validated members, unprojected roles, the record of the outcome), a projected
  Role or RoleBinding, the removal of RBAC from a namespace no longer in use, the ConfigMap and
  the restarts that follow it, a runtime Role in a member other than the operator's namespace; and
  for an instance that is being deleted, what the deletion branch may write. The handler never
  waits forever.
\<close>

theorem Reconcile_confined:
  assumes "pkg_ok p" "daemonSetPermissionChecker rc = None"
  shows "ensures (Reconcile p rc req) (reconcile_request p req) (\<lambda>_ oc. oc \<noteq> Blocked)"
  by (rule ensuresI) (rule keeps_Reconcile [OF assms])

theorem Reconcile_confined_witness:
  "ensures (Reconcile std_pkg sample_reconciler (''ns'', ''nss''))
     (reconcile_request std_pkg (''ns'', ''nss'')) (\<lambda>_ oc. oc \<noteq> Blocked)"
  by (rule Reconcile_confined [OF std_pkg_ok]) (simp add: sample_reconciler_def)

end
