(* ===== verification/Reconcile_Complete.thy ===== *)
theory Reconcile_Complete
  imports Reconcile_Confined Push_Complete Sample_Run
begin

text \<open>
  What the success of \<open>Reconcile\<close> means. \<open>Reconcile_Confined\<close> says which requests the handler may
  make; here is the other direction, that a run which reports success has gone through all of its
  steps, each with what its own component promises, and each for the instance the step before it
  answered.
\<close>

section \<open>What was done stays done\<close>

lemma status_result_mono:
  "status_result n H (Done (Inr n')) \<Longrightarrow> H \<subseteq> H' \<Longrightarrow> status_result n H' (Done (Inr n'))"
  unfolding status_result_def by (meson members_validated_mono outcome.inject subsetD sum.inject(2))

lemma unprojected_result_mono:
  "unprojected_result n u H (Done (Inr n')) \<Longrightarrow> H \<subseteq> H' \<Longrightarrow> unprojected_result n u H' (Done (Inr n'))"
  unfolding unprojected_result_def by (meson subsetD)

lemma cleanup_done_mono: "cleanup_done n H ts \<Longrightarrow> H \<subseteq> H' \<Longrightarrow> cleanup_done n H' ts"
  unfolding cleanup_done_def using operator_namespace_read_mono members_read_mono removed_or_forbidden_mono by meson

lemma delete_unmanaged_result_mono:
  "delete_unmanaged_result n H (Done (Inr ())) \<Longrightarrow> H \<subseteq> H' \<Longrightarrow> delete_unmanaged_result n H' (Done (Inr ()))"
  unfolding delete_unmanaged_result_def using cleanup_done_mono config_map_read_mono by blast

lemma push_complete_result_mono:
  "push_complete_result n H (Done (u, None)) \<Longrightarrow> H \<subseteq> H' \<Longrightarrow> push_complete_result n H' (Done (u, None))"
  unfolding push_complete_result_def
  using operator_namespace_read_mono accounts_read_mono growsD [OF sa_served_grows] by meson

section \<open>The steps in sequence\<close>

text \<open>The outcome is a success only with \<open>G\<close>.\<close>

definition succeeds :: "(history \<Rightarrow> nat \<Rightarrow> bool) \<Rightarrow> history \<Rightarrow> (err + nat) outcome \<Rightarrow> bool" where
  "succeeds G H oc \<longleftrightarrow> (\<forall>d. oc = Done (Inr d) \<longrightarrow> G H d)"

lemma succeeds_simps [simp]:
  "succeeds G H (Done (Inl e))" "succeeds G H (Done (Inr d)) \<longleftrightarrow> G H d" "succeeds G H Panicked" "succeeds G H Blocked"
  by (simp_all add: succeeds_def)

lemma succeeds_failed: "runs_to (succeeds G) (failed n t m e) H"
  unfolding failed_def hwp_bind by (rule hwp_record) simp_all

lemma succeeds_bind:
  assumes "hwp P (\<lambda>_ _. False) Q q H"
    and "\<And>H' a. H \<subseteq> H' \<Longrightarrow> Q H' (Done a) \<Longrightarrow> runs_to (succeeds G) (f a) H'"
  shows "runs_to (succeeds G) (bind q f) H"
  unfolding hwp_bind
proof (rule hwp_conseq [OF assms(1)])
  show "and_then (succeeds G H') (\<lambda>a. runs_to (succeeds G) (f a) H') oc" if "H \<subseteq> H'" "Q H' oc" for H' oc
    using that assms(2) by (cases oc) auto
qed simp_all

lemma succeeds_step:
  assumes "hwp P (\<lambda>_ _. False) Q q H"
    and "\<And>H' a. H \<subseteq> H' \<Longrightarrow> Q H' (Done (Inr a)) \<Longrightarrow> runs_to (succeeds G) (f a) H'"
  shows "runs_to (succeeds G) (step_or_fail n t msg q f) H"
  unfolding step_or_fail_def
  by (rule succeeds_bind [OF assms(1)]) (auto split: sum.split intro: succeeds_failed assms(2))

lemma succeeds_go_try:
  assumes "hwp P (\<lambda>_ _. False) Q q H"
    and "\<And>H' a. H \<subseteq> H' \<Longrightarrow> Q H' (Done (Inr a)) \<Longrightarrow> runs_to (succeeds G) (f a) H'"
  shows "runs_to (succeeds G) (go_try q f) H"
  unfolding go_try_def
  by (rule succeeds_bind [OF assms(1)]) (auto split: sum.split intro: assms(2))

text \<open>What is known of the requests of a step, with what is known of its end.\<close>

lemma hwp_with_requests:
  "hwp P S Q p H \<Longrightarrow> hwp (\<lambda>_ _. True) S' Q' p H \<Longrightarrow> hwp P S (\<lambda>H' oc. Q H' oc \<and> Q' H' oc) p H"
  by (induction p arbitrary: H) auto

text \<open>A step can hand over its own run, beside what it promises of the history.\<close>

lemma possible_simps [simp]:
  "possible (Ret a) [] (Done a)" "possible Panic [] Panicked" "possible Block [] Blocked"
  "possible (k r) tr oc \<Longrightarrow> possible (Call q k) ((q, r) # tr) oc"
  unfolding possible_def by (auto intro: runs.intros)

lemma hwp_own_run:
  "hwp P (\<lambda>_ _. False) Q p H \<Longrightarrow>
     hwp P (\<lambda>_ _. False) (\<lambda>H' oc. Q H' oc \<and> (\<exists>tr. H' = H \<union> set tr \<and> possible p tr oc)) p H"
proof (induction p arbitrary: H)
  case (Call q k)
  show ?case
    unfolding hwp.simps
  proof (intro conjI allI)
    fix r
    let ?H = "insert (q, r) H"
    have "hwp P (\<lambda>_ _. False) (\<lambda>H' oc. Q H' oc \<and> (\<exists>tr. H' = ?H \<union> set tr \<and> possible (k r) tr oc)) (k r) ?H"
      using Call.prems by (intro Call.IH [OF rangeI]) simp
    then show "hwp P (\<lambda>_ _. False) (\<lambda>H' oc. Q H' oc \<and> (\<exists>tr. H' = H \<union> set tr \<and> possible (Call q k) tr oc)) (k r) ?H"
    proof (rule hwp_conseq)
      fix H' oc
      assume "Q H' oc \<and> (\<exists>tr. H' = ?H \<union> set tr \<and> possible (k r) tr oc)"
      then obtain tr where "Q H' oc" "H' = H \<union> set ((q, r) # tr)" "possible (k r) tr oc" by auto
      then show "Q H' oc \<and> (\<exists>tr. H' = H \<union> set tr \<and> possible (Call q k) tr oc)"
        using possible_simps(4) by blast
    qed
  qed (use Call.prems in simp)
qed (auto intro: exI [of _ "[]"])

section \<open>What a successful run has done\<close>

text \<open>
  The steps of the normal branch, \<open>inst\<close> the instance that was read: the finalizer is there, or the
  update with it was accepted, or the instance has the Helm label and goes without; the members were
  validated and are in the status; the push ran to an end without an error, and \<open>u\<close> are the Roles
  that this run of it reported as not projected (without the subset mode, the RBAC is in all the
  members); these very Roles are in the status;
  the RBAC was removed from the namespaces that are no longer in use; and the ConfigMap lists the
  members of the instances that share it.
\<close>

definition finalizer_set :: "pkg \<Rightarrow> nss \<Rightarrow> history \<Rightarrow> nss \<Rightarrow> bool" where
  "finalizer_set p inst H n \<longleftrightarrow>
     (if NamespaceScopeFinalizer \<in> set (omFinalizers (nssMeta inst)) \<or>
         map_get (omLabels (nssMeta inst)) ''cpfs.helm/install'' = ''true'' then n = inst
      else (Update (ONss (with_finalizer p inst)), RObj (ONss n)) \<in> H)"

definition members_projected :: "nss \<Rightarrow> string list \<Rightarrow> history \<Rightarrow> bool" where
  "members_projected n u H \<longleftrightarrow>
     (\<exists>tr. set tr \<subseteq> H \<and> possible (PushRbacToNamespace n) tr (Done (u, None))) \<and>
     (\<not> allowSubsetProjection (spec n) \<longrightarrow> push_complete_result n H (Done (u, None)))"

definition all_steps_done :: "pkg \<Rightarrow> nss \<Rightarrow> history \<Rightarrow> bool" where
  "all_steps_done p inst H \<longleftrightarrow>
     (\<exists>n1 n2 u n3.
        finalizer_set p inst H n1 \<and>
        status_result n1 H (Done (Inr n2)) \<and>
        members_projected (setDefaults n2) u H \<and>
        unprojected_result (setDefaults n2) u H (Done (Inr n3)) \<and>
        delete_unmanaged_result n3 H (Done (Inr ())) \<and>
        config_result n3 H (Done (Inr ())))"

text \<open>
  The deletion branch: without the finalizer there is nothing to do; with it, the ConfigMap and the
  RBAC were dealt with and the API server accepted the instance without the finalizer.
\<close>

definition all_steps_undone :: "pkg \<Rightarrow> nss \<Rightarrow> history \<Rightarrow> bool" where
  "all_steps_undone p inst H \<longleftrightarrow>
     (NamespaceScopeFinalizer \<in> set (omFinalizers (nssMeta inst)) \<longrightarrow>
        config_result (setDefaults inst) H (Done (Inr ())) \<and>
        cleanup_done (setDefaults inst) H (namespaceMembers (spec inst)) \<and>
        (\<exists>n. (Update (ONss (remove_finalizer p (setDefaults inst))), RObj (ONss n)) \<in> H))"

text \<open>
  The delay that \<open>Reconcile\<close> returns says which of the cases it was: 60 seconds for a live instance,
  none for one that is gone or being deleted.
\<close>

definition reconcile_success :: "pkg \<Rightarrow> key \<Rightarrow> history \<Rightarrow> nat \<Rightarrow> bool" where
  "reconcile_success p req H delay \<longleftrightarrow>
     (\<exists>r. (Get Cached KNss req, r) \<in> H \<and>
        (case as_obj the_nss r of
           Inl e \<Rightarrow> is_not_found e \<and> delay = 0
         | Inr inst \<Rightarrow>
             if time_is_zero (omDeletionTimestamp (nssMeta inst)) then delay = 60 \<and> all_steps_done p inst H
             else delay = 0 \<and> all_steps_undone p inst H))"

section \<open>The normal branch\<close>

text \<open>Nothing after the ConfigMap changes what is claimed.\<close>

lemma succeeds_later:
  assumes "returns_or_panics q" "\<And>H'. H \<subseteq> H' \<Longrightarrow> G H' 60"
    and "\<And>a. \<exists>t ph m er. f a = bind (recordOperationTimingAndStatus n t ph m er) (\<lambda>_. Ret (Inr 60))"
  shows "runs_to (succeeds G) (bind q f) H"
  unfolding hwp_bind
proof (rule hwp_any [OF assms(1)])
  have written: "runs_to (succeeds G) (bind (recordOperationTimingAndStatus n t ph m er) (\<lambda>_. Ret (Inr 60))) H'"
    if "H \<subseteq> H'" for H' t ph m er
    unfolding hwp_bind by (rule hwp_record) (use that assms(2) in auto)
  show "any_end H (\<lambda>H'. and_then (succeeds G H') (\<lambda>a. runs_to (succeeds G) (f a) H'))"
    unfolding any_end_def
  proof (intro allI impI, goal_cases)
    case (1 H' oc)
    have "runs_to (succeeds G) (f a) H'" for a
      using assms(3) [of a] written [OF 1(1)] by (elim exE) simp
    then show ?case by (cases oc) simp_all
  qed
qed

lemma succeeds_tail:
  assumes "pkg_ok p" "daemonSetPermissionChecker rc = None"
    and "\<And>H'. H \<subseteq> H' \<Longrightarrow> delete_unmanaged_result n H' (Done (Inr ())) \<Longrightarrow>
           config_result n H' (Done (Inr ())) \<Longrightarrow> G H' 60"
  shows "runs_to (succeeds G) (reconcile_tail p rc n t) H"
  unfolding reconcile_tail_def
proof (rule succeeds_step [OF hwp_DeleteRbacFromUnmanagedNamespace], goal_cases)
  case (1 H2 a)
  then have H2: "H \<subseteq> H2" "delete_unmanaged_result n H2 (Done (Inr ()))" by simp_all
  show ?case
  proof (rule succeeds_step [OF hwp_UpdateConfigMap [OF assms(1,2)]], goal_cases)
    case (1 H3 b)
    then have H3: "H2 \<subseteq> H3" "config_result n H3 (Done (Inr ()))" by simp_all
    show ?case
    proof (rule succeeds_later [OF returns_runtime_loop])
      show "G H' 60" if H': "H3 \<subseteq> H'" for H'
      proof (rule assms(3))
        show "H \<subseteq> H'" by (rule order_trans [OF H2(1) order_trans [OF H3(1) H']])
        show "delete_unmanaged_result n H' (Done (Inr ()))"
          by (rule delete_unmanaged_result_mono [OF H2(2) order_trans [OF H3(1) H']])
        show "config_result n H' (Done (Inr ()))" by (rule config_result_mono [OF H3(2) H'])
      qed
    qed (auto split: option.split)
  qed
qed

text \<open>The push, in both modes.\<close>

lemma hwp_push_members:
  "runs_to (\<lambda>H' oc. \<forall>u. oc = Done (u, None) \<longrightarrow> members_projected n u H') (PushRbacToNamespace n) H"
proof -
  have "runs_to (\<lambda>H' oc. \<not> allowSubsetProjection (spec n) \<longrightarrow> push_complete_result n H' oc) (PushRbacToNamespace n) H"
  proof (cases "allowSubsetProjection (spec n)")
    case True
    then show ?thesis by (intro hwp_conseq [OF hwp_push_any]) simp_all
  next
    case False
    show ?thesis by (rule hwp_conseq [OF runs_to_PushRbac [OF False]]) simp_all
  qed
  then show ?thesis
  proof (rule hwp_conseq [OF hwp_own_run], goal_cases)
    case (3 H' oc)
    then obtain tr where "H' = H \<union> set tr" "possible (PushRbacToNamespace n) tr oc" by blast
    with 3 show ?case unfolding members_projected_def by blast
  qed
qed

lemma members_projected_mono: "members_projected n u H \<Longrightarrow> H \<subseteq> H' \<Longrightarrow> members_projected n u H'"
  unfolding members_projected_def using push_complete_result_mono by (blast intro: subset_trans)

lemma succeeds_members:
  assumes "pkg_ok p" "daemonSetPermissionChecker rc = None" "finalizer_set p inst H n"
    and "\<And>H'. H \<subseteq> H' \<Longrightarrow> all_steps_done p inst H' \<Longrightarrow> G H' 60"
  shows "runs_to (succeeds G) (reconcile_members p rc n t) H"
  unfolding reconcile_members_def Let_def
proof (rule succeeds_step [OF hwp_UpdateStatus], goal_cases)
  case (1 H2 n2)
  let ?n = "setDefaults n2"
  have fin: "finalizer_set p inst H' n" if "H \<subseteq> H'" for H'
    using assms(3) that unfolding finalizer_set_def by (auto split: if_splits)
  have tail: "runs_to (succeeds G) (step_or_fail ?n t msg (UpdateUnprojectedRolesStatus ?n u)
      (\<lambda>n3. reconcile_tail p rc n3 t)) H3" if H3: "H2 \<subseteq> H3" "members_projected ?n u H3" for msg u H3
  proof (rule succeeds_step [OF hwp_UpdateUnprojectedRolesStatus], rule succeeds_tail [OF assms(1,2)], goal_cases)
    case (1 H4 n3 H5)
    have "H3 \<subseteq> H5" by (rule order_trans [OF 1(1,3)])
    then have "H2 \<subseteq> H5" by (rule order_trans [OF H3(1)])
    then have "H \<subseteq> H5" by (rule order_trans [OF \<open>H \<subseteq> H2\<close>])
    moreover have "status_result n H5 (Done (Inr n2))"
      using \<open>status_result n H2 (Done (Inr n2))\<close> \<open>H2 \<subseteq> H5\<close> by (rule status_result_mono)
    moreover have "members_projected ?n u H5"
      using H3(2) \<open>H3 \<subseteq> H5\<close> by (rule members_projected_mono)
    moreover have "unprojected_result ?n u H5 (Done (Inr n3))"
      using 1(2,3) by (rule unprojected_result_mono)
    ultimately have "all_steps_done p inst H5"
      unfolding all_steps_done_def using 1(4,5) fin by blast
    with \<open>H \<subseteq> H5\<close> show ?case by (rule assms(4))
  qed
  show ?case
  proof (rule succeeds_bind [OF hwp_push_members], goal_cases)
    case (1 H3 a)
    then show ?case
      by (cases a) (auto split: option.split intro: succeeds_failed tail)
  qed
qed

lemma succeeds_nss:
  assumes "pkg_ok p" "daemonSetPermissionChecker rc = None"
    and "\<And>H'. H \<subseteq> H' \<Longrightarrow> all_steps_done p inst H' \<Longrightarrow> G H' 60"
  shows "runs_to (succeeds G) (reconcile_nss p rc inst) H"
proof -
  have finalizer: "runs_to (\<lambda>H' oc. \<forall>n. oc = Done (Inr n) \<longrightarrow> finalizer_set p inst H' n)
      (if \<not> Contains (omFinalizers (nssMeta inst)) NamespaceScopeFinalizer then addFinalizer p inst
       else Ret (Inr inst)) H2" for H2
    by (auto simp: addFinalizer_def Let_def put_nss_def hwp_call finalizer_set_def with_finalizer_def
        elim!: as_obj_InrE)
  have list: "hwp (\<lambda>_ _. True) (\<lambda>_ _. False) (\<lambda>_ _. True) (call (ListOf Cached KNss [] []) (as_list the_nss)) H2" for H2
    by (simp add: hwp_call)
  show ?thesis
    unfolding reconcile_nss_def bind_call hwp.simps
  proof (intro conjI allI TrueI, rule succeeds_step [OF list], rule succeeds_step [OF finalizer],
      rule succeeds_members [OF assms(1,2), where inst = inst], goal_cases)
    case (2 r H2 a H3 n H4)
    then have "H \<subseteq> H4" by blast
    then show ?case using 2 by (intro assms(3))
  qed blast
qed

section \<open>The deletion branch\<close>

lemma succeeds_finalize:
  assumes "pkg_ok p" "daemonSetPermissionChecker rc = None"
    and "\<And>H'. H \<subseteq> H' \<Longrightarrow> all_steps_undone p inst H' \<Longrightarrow> G H' 0"
  shows "runs_to (succeeds G) (finalize_nss p rc inst) H"
proof (cases "NamespaceScopeFinalizer \<in> set (omFinalizers (nssMeta inst))")
  case False
  then show ?thesis using assms(3) [OF order_refl] by (simp add: finalize_nss_def all_steps_undone_def)
next
  case True
  let ?i = "setDefaults inst"
  have "runs_to (succeeds G) (go_try (UpdateConfigMap p rc ?i) (\<lambda>_. go_try (DeleteAllRbac ?i) (\<lambda>_.
      go_try (put_nss (remove_finalizer p ?i)) (\<lambda>_. Ret (Inr 0))))) H"
  proof (rule succeeds_go_try [OF hwp_UpdateConfigMap [OF assms(1,2)]],
      rule succeeds_go_try [OF hwp_DeleteAllRbac], goal_cases)
    case (1 H2 a H3 b)
    let ?put = "Update (ONss (remove_finalizer p ?i))"
    from 1 have good: "config_result ?i H2 (Done (Inr ()))" "cleanup_done ?i H3 (namespaceMembers (spec inst))"
      by (simp_all add: delete_all_result_def)
    have "G (insert (?put, RObj (ONss n)) H3) 0" for n
    proof (rule assms(3))
      let ?H = "insert (?put, RObj (ONss n)) H3"
      show "H \<subseteq> ?H" using 1(1,3) by (blast intro: order_trans)
      have "H2 \<subseteq> ?H" using 1(3) by (rule subset_insertI2)
      then have "config_result ?i ?H (Done (Inr ()))" by (rule config_result_mono [OF good(1)])
      moreover have "cleanup_done ?i ?H (namespaceMembers (spec inst))"
        by (rule cleanup_done_mono [OF good(2) subset_insertI])
      ultimately show "all_steps_undone p inst ?H" unfolding all_steps_undone_def by blast
    qed
    then have "runs_to (succeeds G) (case as_obj the_nss r of Inl e \<Rightarrow> Ret (Inl e) | Inr _ \<Rightarrow> Ret (Inr 0))
        (insert (?put, r) H3)" for r
      by (cases "as_obj the_nss r") (auto elim!: as_obj_InrE)
    then show ?case
      by (simp add: go_try_def put_nss_def bind_call)
  qed
  then show ?thesis using True by (simp add: finalize_nss_def Let_def)
qed

lemma succeeds_Reconcile:
  assumes "pkg_ok p" "daemonSetPermissionChecker rc = None"
  shows "runs_to (succeeds (reconcile_success p req)) (Reconcile p rc req) H"
proof -
  let ?get = "Get Cached KNss req"
  have live: "runs_to (succeeds (reconcile_success p req)) (reconcile_nss p rc n) (insert (?get, RObj (ONss n)) H)"
    if "time_is_zero (omDeletionTimestamp (nssMeta n))" for n
    by (rule succeeds_nss [OF assms])
       (use that in \<open>auto simp: reconcile_success_def response_simps intro!: exI [of _ "RObj (ONss n)"]\<close>)
  have dead: "runs_to (succeeds (reconcile_success p req)) (finalize_nss p rc n) (insert (?get, RObj (ONss n)) H)"
    if "\<not> time_is_zero (omDeletionTimestamp (nssMeta n))" for n
    by (rule succeeds_finalize [OF assms])
       (use that in \<open>auto simp: reconcile_success_def response_simps intro!: exI [of _ "RObj (ONss n)"]\<close>)
  have gone: "reconcile_success p req (insert (?get, r) H) 0" if "as_obj the_nss r = Inl e" "is_not_found e" for r e
    unfolding reconcile_success_def using that by (intro exI [of _ r]) simp
  have "runs_to (succeeds (reconcile_success p req)) (case as_obj the_nss r of
        Inl e \<Rightarrow> if is_not_found e then Ret (Inr 0) else Ret (Inl e)
      | Inr n \<Rightarrow> if \<not> time_is_zero (omDeletionTimestamp (nssMeta n)) then finalize_nss p rc n
          else reconcile_nss p rc n) (insert (?get, r) H)" for r
    using live dead gone by (cases "as_obj the_nss r") (auto elim!: as_obj_InrE)
  then show ?thesis
    by (simp add: Reconcile_def bind_call)
qed

section \<open>The property\<close>

text \<open>
  C5: what the success of \<open>Reconcile\<close> means. A run that returns no error read the instance first.
  When it is gone, nothing is left to do. When it lives, the delay is 60 seconds and every step was
  done, each on the instance that the step before it answered: the finalizer is set (but for the
  Helm label), the validated members are in the status, the push came to its end without an error
  (and, without the subset mode, the RBAC is in all the members), the Roles that this push reported
  as not projected are the ones in the status, the namespaces no longer in use were cleaned up, and the ConfigMap is owned and lists the members of
  all instances that share it. When it is being deleted, the clean-up is complete and the API
  server accepted the instance without the finalizer.
\<close>

theorem Reconcile_complete:
  assumes "pkg_ok p" "daemonSetPermissionChecker rc = None"
  shows "ensures (Reconcile p rc req) (\<lambda>_ _. True) (succeeds (reconcile_success p req))"
  by (rule ensuresI) (rule succeeds_Reconcile [OF assms])

theorem Reconcile_complete_witness:
  "\<exists>tr. runs cluster_env (Reconcile std_pkg sample_reconciler (nss_key sample_nss)) (sample_world sample_nss) tr
       (Done (Inr 60)) (sample_world sample_done @ sample_made) \<and>
     reconcile_success std_pkg (nss_key sample_nss) (set tr) 60"
proof -
  obtain tr where run: "runs cluster_env (Reconcile std_pkg sample_reconciler (nss_key sample_nss)) (sample_world sample_nss) tr
      (Done (Inr 60)) (sample_world sample_done @ sample_made)"
    using sample_run_of_Reconcile by blast
  have "daemonSetPermissionChecker sample_reconciler = None" by (simp add: sample_reconciler_def)
  from ensures_outcome [OF Reconcile_complete [OF std_pkg_ok this] runs_possible [OF run]]
  show ?thesis using run by (auto simp: succeeds_def)
qed

end
