(* ===== verification/Sample_Unnamed.thy ===== *)
theory Sample_Unnamed
  imports Sample_Run
begin

text \<open>
  A reconciliation of an instance without a name for its ConfigMap, in the subset mode, in a cluster
  where a service account is bound to a Role that does not exist: the Role is reported as unprojected,
  the report is written to the status, and from then on the handler goes by the name that is stored,
  the empty one. It is carried out in the logic against the API server of \<open>Cluster\<close>, which accepts an
  object with an empty name, as a real server would not.
\<close>

section \<open>The cluster\<close>

definition unnamed_nss :: nss where
  "unnamed_nss = sample_nss\<lparr>spec := (spec sample_nss)\<lparr>configmapName := [], allowSubsetProjection := True\<rparr>\<rparr>"

definition unnamed_world :: "nss \<Rightarrow> cluster" where
  "unnamed_world n =
     [ONss n,
      OPod \<lparr>podMeta = new_meta ''odlm-0'' ''ibm-common-services'' [(''intent'', ''projected'')],
        podServiceAccountName = ''odlm'', podVolumes = [], podContainers = []\<rparr>,
      ONamespace \<lparr>nsName = ''app'', nsTerminating = False\<rparr>,
      ORoleBinding \<lparr>rbMeta = new_meta ''odlm'' ''ibm-common-services'' [],
        rbSubjects = [\<lparr>sbKind = ''ServiceAccount'', sbName = ''odlm'', sbNamespace = ''ibm-common-services''\<rparr>],
        rbRoleRef = \<lparr>rrKind = ''Role'', rrName = ''reader'', rrAPIGroup = ''rbac.authorization.k8s.io''\<rparr>\<rparr>]"

lemma unnamed_sel:
  "nssMeta unnamed_nss = new_meta ''common-service'' ''ibm-common-services'' []"
  "restartLabels (spec unnamed_nss) = [(''intent'', ''projected'')]"
  "serviceAccountMembers (spec unnamed_nss) = []" "namespaceMembers (spec unnamed_nss) = [''ibm-common-services'', ''app'']"
  "allowSubsetProjection (spec unnamed_nss)" "configmapName (spec unnamed_nss) = []"
  "unprojectedRoles (nssStatus unnamed_nss) = []"
  "validatedMembers (nssStatus unnamed_nss) = [''ibm-common-services'', ''app'']"
  by (simp_all add: unnamed_nss_def sample_nss_def)

text \<open>The instance with its defaults, and as it is stored with the report.\<close>

definition unnamed_report :: "string list" where
  "unnamed_report = [''ibm-common-services/reader: role not found'']"

definition reported :: "nss \<Rightarrow> nss" where
  "reported n = n\<lparr>nssStatus := (nssStatus n)\<lparr>unprojectedRoles := unnamed_report\<rparr>\<rparr>"

lemma unnamed_defaults:
  "setDefaults unnamed_nss = unnamed_nss\<lparr>spec := (spec unnamed_nss)\<lparr>configmapName := NamespaceScopeConfigmapName\<rparr>\<rparr>"
  by (simp add: setDefaults_def default_spec_def unnamed_sel Let_def)

abbreviation defaulted :: nss where
  "defaulted \<equiv> unnamed_nss\<lparr>spec := (spec unnamed_nss)\<lparr>configmapName := NamespaceScopeConfigmapName\<rparr>\<rparr>"

definition unnamed_bindings :: cluster where
  "unnamed_bindings = [ORoleBinding (projected_binding ''reader'' (projected_labels defaulted) ''odlm'' ''ibm-common-services'' ''app'')]"

section \<open>The steps\<close>

lemma unnamed_status: "ending (UpdateStatus unnamed_nss) (unnamed_world unnamed_nss) = (Done (Inr unnamed_nss), unnamed_world unnamed_nss)"
  by (simp add: run_simps UpdateStatus_def getValidatedNamespaces_def unnamed_sel unnamed_world_def
      checkGetNSAuth_def StringSliceContentEqual_def cong: lazy_cong)

lemma unnamed_push:
  "ending (PushRbacToNamespace defaulted) (unnamed_world unnamed_nss) =
     (Done (unnamed_report, None), unnamed_world unnamed_nss @ unnamed_bindings)"
  by (simp add: run_simps PushRbacToNamespace_def GetServiceAccountFromNamespace_def unnamed_sel
      unnamed_world_def unnamed_bindings_def unnamed_report_def ToStringSlice_def MakeSet_def gset_add_def as_order_def
      push_goroutine_def generateRBACToNamespace_def fork_join_def as_schedule_def rbac_goroutine_def slash_def
      CreateRole_def GetRolesFromServiceAccount_def get_role_def first_error_def
      has_room_def channel_count_def projected_binding_def NamespaceScopeManagedPrefix_def cong: lazy_cong)

lemma unnamed_unprojected:
  "ending (UpdateUnprojectedRolesStatus defaulted unnamed_report) (unnamed_world unnamed_nss @ unnamed_bindings) =
     (Done (Inr (reported unnamed_nss)), unnamed_world (reported unnamed_nss) @ unnamed_bindings)"
  by (simp add: run_simps UpdateUnprojectedRolesStatus_def put_status_def unnamed_sel unnamed_world_def
      unnamed_report_def reported_def ToStringSlice_def MakeSet_def gset_add_def as_order_def
      StringSliceContentEqual_def unnamed_bindings_def projected_binding_def cong: lazy_cong)

text \<open>The ConfigMap with the empty name is not there, and is made, without any member.\<close>

abbreviation stored_report :: nss where
  "stored_report \<equiv> reported unnamed_nss"

lemma reported_sel:
  "nssMeta (reported n) = nssMeta n" "spec (reported n) = spec n"
  by (simp_all add: reported_def)

lemma unnamed_unmanaged:
  "ending (DeleteRbacFromUnmanagedNamespace stored_report) (unnamed_world stored_report @ unnamed_bindings) =
     (Done (Inr ()), unnamed_world stored_report @ unnamed_bindings)"
  by (simp add: run_simps DeleteRbacFromUnmanagedNamespace_def get_config_map_def unnamed_sel reported_sel unnamed_world_def
      unnamed_bindings_def projected_binding_def cong: lazy_cong)

definition unnamed_config :: config_map where
  "unnamed_config =
     \<lparr>cmMeta = (new_meta [] ''ibm-common-services'' [(NamespaceScopeLabel, ''true'')])
        \<lparr>omOwnerReferences := [\<lparr>orKind = ''NamespaceScope'', orName = ''common-service'', orUID = [], orController = None\<rparr>]\<rparr>,
      cmData = Some [(namespaces_key, [])]\<rparr>"

lemma unnamed_unshared: "\<not> shares_config_map stored_report stored_report"
  by (simp add: shares_config_map_def setDefaults_def default_spec_def unnamed_sel reported_sel Let_def
      NamespaceScopeConfigmapName_def)

lemma unnamed_config_map:
  "ending (UpdateConfigMap std_pkg sample_reconciler stored_report) (unnamed_world stored_report @ unnamed_bindings) =
     (Done (Inr ()), unnamed_world stored_report @ unnamed_bindings @ [OConfigMap unnamed_config])"
  by (simp add: run_simps UpdateConfigMap_def getAllValidatedNamespaceMembers_def ToStringSlice_def
      get_config_map_def create_config_map_def RestartPods_def manage_daemon_sets_def members_loop_eq MakeSet_def
      std_pkg_def std_set_owner_def new_config_map_def as_order_def unnamed_sel reported_sel unnamed_world_def
      unnamed_bindings_def projected_binding_def unnamed_unshared unnamed_config_def gset_add_def cong: lazy_cong)

lemma unnamed_runtime:
  "ending (runtime_loop stored_report [''ibm-common-services'', ''app'']) (unnamed_world stored_report @ unnamed_bindings @ [OConfigMap unnamed_config]) =
     (Done None, unnamed_world stored_report @ unnamed_bindings @ [OConfigMap unnamed_config])"
  by (simp add: run_simps GetRolesFromNamespace_def projected_binding_def unnamed_config_def unnamed_world_def
      unnamed_bindings_def cong: lazy_cong)

text \<open>The instance with the record of the run.\<close>

definition unnamed_done :: nss where
  "unnamed_done = stored_report\<lparr>nssStatus := record_status 0 0 ''Completed'' None (nssStatus stored_report)\<rparr>"

lemma unnamed_record:
  "ending (recordOperationTimingAndStatus stored_report 0 ''Completed'' m None)
      (unnamed_world stored_report @ unnamed_bindings @ [OConfigMap unnamed_config]) =
     (Done (), unnamed_world unnamed_done @ unnamed_bindings @ [OConfigMap unnamed_config])"
  by (simp add: run_simps recordOperationTimingAndStatus_def put_status_def unnamed_sel reported_sel unnamed_world_def unnamed_done_def
      unnamed_bindings_def unnamed_config_def projected_binding_def cong: lazy_cong)

section \<open>The run\<close>

lemma unnamed_tail:
  "ending (reconcile_tail std_pkg sample_reconciler stored_report 0) (unnamed_world stored_report @ unnamed_bindings) =
     (Done (Inr 60), unnamed_world unnamed_done @ unnamed_bindings @ [OConfigMap unnamed_config])"
  by (simp add: reconcile_tail_def step_or_fail_def ending_bind ending_simps unnamed_unmanaged unnamed_config_map
      unnamed_runtime unnamed_sel reported_sel unnamed_record del: runtime_loop.simps cong: lazy_cong)

lemma unnamed_run:
  "ending (reconcile_members std_pkg sample_reconciler unnamed_nss 0) (unnamed_world unnamed_nss) =
     (Done (Inr 60), unnamed_world unnamed_done @ unnamed_bindings @ [OConfigMap unnamed_config])"
  by (simp add: reconcile_members_def step_or_fail_def ending_bind ending_simps unnamed_status unnamed_push
      unnamed_defaults unnamed_unprojected unnamed_tail Let_def cong: lazy_cong)

end
