(* ===== verification/Stored_Name.thy ===== *)
theory Stored_Name
  imports Reconcile_Complete Sample_Unnamed
begin

text \<open>
  Under which name the handler works after the unprojected Roles were written. \<open>Reconcile\<close> puts the
  defaults into the instance after the first write of the status, because the API server's answer
  replaces the instance in memory; the second write of the status replaces it again, and no defaults
  follow. So the rest of the handler goes by the name of the ConfigMap as it is stored, the empty
  name when the user gave none.
\<close>

section \<open>The instance after the unprojected Roles\<close>

text \<open>
  \<open>n3\<close> is the instance that the second write of the status leaves: the members were validated, the
  defaults put in, the push reported the Roles \<open>u\<close>, and \<open>n3\<close> is the API server's answer to the status
  with these Roles (or the instance with the defaults, when its status lists them already).
\<close>

definition after_unprojected :: "nss \<Rightarrow> history \<Rightarrow> nss \<Rightarrow> bool" where
  "after_unprojected inst H n3 \<longleftrightarrow>
     (\<exists>n2 u. status_result inst H (Done (Inr n2)) \<and> members_projected (setDefaults n2) u H \<and>
        unprojected_result (setDefaults n2) u H (Done (Inr n3)))"

text \<open>
  The removal of RBAC goes by the labels of that instance, as it is, and by the ConfigMap read under
  its name, as it is; and so does every write of a ConfigMap.
\<close>

definition by_stored_name :: "nss \<Rightarrow> history \<Rightarrow> request \<Rightarrow> bool" where
  "by_stored_name inst H q \<longleftrightarrow>
     (\<forall>k toNs lbls. q = DeleteAllOf k toNs lbls \<longrightarrow>
        (\<exists>n3. after_unprojected inst H n3 \<and> lbls = cleanup_labels n3 \<and> listed_candidate n3 H toNs)) \<and>
     (\<forall>cm. q = Create (OConfigMap cm) \<longrightarrow>
        (\<exists>n3. after_unprojected inst H n3 \<and> meta_key (cmMeta cm) = config_map_key n3)) \<and>
     (\<forall>cm. q = Update (OConfigMap cm) \<longrightarrow>
        (\<exists>n3 cm0. after_unprojected inst H n3 \<and> config_map_read n3 H cm0 \<and> meta_key (cmMeta cm) = meta_key (cmMeta cm0)))"

lemma after_unprojected_mono:
  assumes "after_unprojected inst H n" "H \<subseteq> H'"
  shows "after_unprojected inst H' n"
proof -
  obtain n2 u where "status_result inst H (Done (Inr n2))" "members_projected (setDefaults n2) u H"
    "unprojected_result (setDefaults n2) u H (Done (Inr n))"
    using assms(1) unfolding after_unprojected_def by blast
  then have "status_result inst H' (Done (Inr n2)) \<and> members_projected (setDefaults n2) u H' \<and>
      unprojected_result (setDefaults n2) u H' (Done (Inr n))"
    using status_result_mono members_projected_mono unprojected_result_mono assms(2) by simp
  then show ?thesis unfolding after_unprojected_def by blast
qed

lemma stored_read [simp]: "\<not> is_write q \<Longrightarrow> by_stored_name inst H q"
  by (auto simp: by_stored_name_def)

text \<open>The other steps write none of these objects.\<close>

lemma stored_elsewhere:
  "status_request n H q \<Longrightarrow> by_stored_name inst H q" "unprojected_request n u H q \<Longrightarrow> by_stored_name inst H q"
  "record_request k t ph er H q \<Longrightarrow> by_stored_name inst H q"
  by (cases "is_write q", auto simp: status_request_def unprojected_request_def record_request_def by_stored_name_def)+

lemma stored_push: "push_request n H q \<Longrightarrow> by_stored_name inst H q"
proof (cases "is_write q")
  case True
  moreover assume "push_request n H q"
  ultimately obtain ob where q: "q = Create ob \<or> q = Update ob" "projected_object n H ob"
    unfolding push_request_def by blast
  have "\<nexists>cm. ob = OConfigMap cm" using q(2) unfolding projected_object_def by auto
  with q(1) show ?thesis by (auto simp: by_stored_name_def)
qed simp

lemma stored_runtime: "runtime_request n ms H q \<Longrightarrow> by_stored_name inst H q"
  by (cases "is_write q") (auto simp: runtime_request_def by_stored_name_def)

lemma stored_cleanup:
  "after_unprojected inst H n \<Longrightarrow> cleanup_request n (listed_candidate n) H q \<Longrightarrow> by_stored_name inst H q"
  by (cases "is_write q") (auto simp: cleanup_request_def by_stored_name_def)

lemma stored_config:
  assumes "after_unprojected inst H n" "config_request n H q"
  shows "by_stored_name inst H q"
proof (cases "is_write q")
  case True
  with assms(2) consider cm where "q = Create (OConfigMap cm)" "meta_key (cmMeta cm) = config_map_key n"
    | cm cm0 where "q = Update (OConfigMap cm)" "config_map_read n H cm0" "meta_key (cmMeta cm) = meta_key (cmMeta cm0)"
    | l cm ns where "restart_request l cm ns H q"
    unfolding config_request_def by blast
  then show ?thesis
  proof cases
    case 3
    then show ?thesis using True by (auto simp: restart_request_def Let_def by_stored_name_def)
  qed (use assms(1) in \<open>auto simp: by_stored_name_def\<close>)
qed simp

section \<open>The steps\<close>

abbreviation stored :: "nss \<Rightarrow> 'a proc \<Rightarrow> history \<Rightarrow> bool" where
  "stored inst \<equiv> hwp (by_stored_name inst) (\<lambda>_ _. False) (\<lambda>_ _. True)"

lemma stored_bind:
  assumes "hwp P (\<lambda>_ _. False) Q q H" "\<And>H' w. H \<subseteq> H' \<Longrightarrow> P H' w \<Longrightarrow> by_stored_name inst H' w"
    and "\<And>H' a. H \<subseteq> H' \<Longrightarrow> Q H' (Done a) \<Longrightarrow> stored inst (f a) H'"
  shows "stored inst (bind q f) H"
  unfolding hwp_bind
proof (rule hwp_conseq [OF assms(1)])
  show "and_then (\<lambda>_. True) (\<lambda>a. stored inst (f a) H') oc" if "H \<subseteq> H'" "Q H' oc" for H' oc
    using that assms(3) by (cases oc) auto
qed (use assms(2) in auto)

lemma stored_record: "stored inst (bind (recordOperationTimingAndStatus n t ph msg er) (\<lambda>_. Ret x)) H"
proof -
  have "hwp (record_request (nss_key n) t ph er) (\<lambda>_ _. False) (\<lambda>_ _. True)
      (recordOperationTimingAndStatus n t ph msg er) H"
    by (rule hwp_record) auto
  then show ?thesis by (rule stored_bind) (auto intro: stored_elsewhere(3))
qed

lemma stored_step:
  assumes "hwp P (\<lambda>_ _. False) Q q H" "\<And>H' w. H \<subseteq> H' \<Longrightarrow> P H' w \<Longrightarrow> by_stored_name inst H' w"
    and "\<And>H' a. H \<subseteq> H' \<Longrightarrow> Q H' (Done (Inr a)) \<Longrightarrow> stored inst (f a) H'"
  shows "stored inst (step_or_fail n t msg q f) H"
  unfolding step_or_fail_def
  by (rule stored_bind [OF assms(1,2)]) (auto simp: failed_def split: sum.split intro: stored_record assms(3))

lemma stored_tail:
  assumes "pkg_ok p" "daemonSetPermissionChecker rc = None" "after_unprojected inst H n"
  shows "stored inst (reconcile_tail p rc n t) H"
  unfolding reconcile_tail_def
proof (rule stored_step [OF hwp_DeleteRbacFromUnmanagedNamespace], goal_cases)
  case (1 H' w)
  then show ?case by (intro stored_cleanup [OF after_unprojected_mono [OF assms(3)]])
next
  case (2 H2 a)
  show ?case
  proof (rule stored_step [OF hwp_UpdateConfigMap [OF assms(1,2)]], goal_cases)
    case (1 H' w)
    then show ?case using 2 by (intro stored_config [OF after_unprojected_mono [OF assms(3)]]) auto
  next
    case (2 H3 b)
    have "hwp (runtime_request n (namespaceMembers (spec n))) (\<lambda>_ _. False) (\<lambda>_ _. True)
        (runtime_loop n (namespaceMembers (spec n))) H3"
      by (rule hwp_runtime_loop) (auto simp: any_end_def)
    then show ?case
      by (rule stored_bind) (auto split: option.split intro: stored_runtime stored_record)
  qed
qed

lemma stored_members:
  assumes "pkg_ok p" "daemonSetPermissionChecker rc = None"
  shows "stored inst (reconcile_members p rc inst t) H"
  unfolding reconcile_members_def Let_def
proof (rule stored_step [OF hwp_UpdateStatus], goal_cases)
  case (2 H2 n2)
  let ?n = "setDefaults n2"
  have push: "hwp (push_request ?n) (\<lambda>_ _. False)
      (\<lambda>H' oc. \<forall>u. oc = Done (u, None) \<longrightarrow> members_projected ?n u H') (PushRbacToNamespace ?n) H2"
    by (rule hwp_conseq [OF hwp_with_requests [OF hwp_push_any hwp_push_members]]) auto
  have tail: "stored inst (step_or_fail ?n t msg (UpdateUnprojectedRolesStatus ?n u) (\<lambda>n3. reconcile_tail p rc n3 t)) H3"
    if H3: "H2 \<subseteq> H3" "members_projected ?n u H3" for msg u H3
  proof (rule stored_step [OF hwp_UpdateUnprojectedRolesStatus], goal_cases)
    case (2 H4 n3)
    have "status_result inst H4 (Done (Inr n2))"
      using \<open>status_result inst H2 (Done (Inr n2))\<close> order_trans [OF H3(1) 2(1)] by (rule status_result_mono)
    moreover have "members_projected ?n u H4" using H3(2) 2(1) by (rule members_projected_mono)
    ultimately have "after_unprojected inst H4 n3" using 2(2) unfolding after_unprojected_def by blast
    then show ?case by (rule stored_tail [OF assms])
  qed (rule stored_elsewhere(2))
  show ?case
  proof (rule stored_bind [OF push], goal_cases)
    case (2 H3 a)
    then show ?case
      by (cases a) (auto simp: failed_def split: option.split intro: stored_record tail)
  qed (rule stored_push)
qed (rule stored_elsewhere(1))

section \<open>The property\<close>

text \<open>
  C37: the defaults are lost again after the unprojected Roles were written. In every run of
  \<open>reconcile_members\<close>, whatever the API server answers, the ConfigMap is created, updated and read, and
  RBAC is removed from other namespaces, by the name and the labels of the very instance that the
  write of the unprojected Roles left: the API server's answer, if there was something to write, with
  no defaults put in, although they were put in for the push just before.
\<close>

theorem unprojected_update_drops_defaults:
  assumes "pkg_ok p" "daemonSetPermissionChecker rc = None"
  shows "ensures (reconcile_members p rc inst t) (by_stored_name inst) (\<lambda>_ _. True)"
  by (rule ensuresI) (rule stored_members [OF assms])

text \<open>
  The run of \<open>Sample_Unnamed\<close>: it reports success, with the RBAC projected under the default name, and a
  ConfigMap under the empty name that lists no members.
\<close>

theorem unprojected_update_drops_defaults_witness:
  "ensures (reconcile_members std_pkg sample_reconciler unnamed_nss 0) (by_stored_name unnamed_nss) (\<lambda>_ _. True) \<and>
   (\<exists>tr. runs cluster_env (reconcile_members std_pkg sample_reconciler unnamed_nss 0) (unnamed_world unnamed_nss) tr
      (Done (Inr 60)) (unnamed_world unnamed_done @ unnamed_bindings @ [OConfigMap unnamed_config])) \<and>
   omName (cmMeta unnamed_config) = [] \<and> cm_namespaces unnamed_config = []"
proof (intro conjI)
  show "ensures (reconcile_members std_pkg sample_reconciler unnamed_nss 0) (by_stored_name unnamed_nss) (\<lambda>_ _. True)"
    by (rule unprojected_update_drops_defaults) (simp_all add: std_pkg_ok sample_reconciler_def)
  show "\<exists>tr. runs cluster_env (reconcile_members std_pkg sample_reconciler unnamed_nss 0) (unnamed_world unnamed_nss) tr
      (Done (Inr 60)) (unnamed_world unnamed_done @ unnamed_bindings @ [OConfigMap unnamed_config])"
    by (rule ending_runs) (rule unnamed_run)
qed (simp_all add: unnamed_config_def new_meta_def cm_namespaces_def map_get_def)

end
