(* ===== verification/Env_Logic.thy ===== *)
theory Env_Logic
  imports History
begin

text \<open>
  Weakest preconditions under one environment, over its states. \<open>wp\<close> and \<open>hwp\<close> quantify over every
  answer; here the environment is an API server whose state decides the answers, so that a handler
  can be shown to bring about a state and not only to make justified requests.
\<close>

primrec ewp :: "'s env \<Rightarrow> (request \<Rightarrow> bool) \<Rightarrow> ('s \<Rightarrow> 'a outcome \<Rightarrow> bool) \<Rightarrow> 'a proc \<Rightarrow> 's \<Rightarrow> bool" where
  "ewp E P Q (Ret a) = (\<lambda>s. Q s (Done a))"
| "ewp E P Q Panic = (\<lambda>s. Q s Panicked)"
| "ewp E P Q Block = (\<lambda>s. Q s Blocked)"
| "ewp E P Q (Send m p) = (\<lambda>s. Q s Blocked)"
| "ewp E P Q (Call q k) = (\<lambda>s. P q \<and> (\<forall>s1 r. E s q s1 r \<longrightarrow> ewp E P Q (k r) s1))"

lemma ewp_runs:
  "runs E p s tr oc t \<Longrightarrow> ewp E P Q p s \<Longrightarrow> (\<forall>(q, r) \<in> set tr. P q) \<and> Q t oc"
  by (induction rule: runs.induct) auto

lemma ewp_bind:
  "ewp E P Q (bind p f) s = ewp E P (\<lambda>s. and_then (Q s) (\<lambda>a. ewp E P Q (f a) s)) p s"
  by (induction p arbitrary: s) auto

lemma ewp_call:
  "ewp E P Q (call q dec) s \<longleftrightarrow> P q \<and> (\<forall>s1 r. E s q s1 r \<longrightarrow> Q s1 (Done (dec r)))"
  by (simp add: call_def)

lemma ewp_go_try:
  "ewp E P Q (go_try p f) s =
     ewp E P (\<lambda>s. and_then (Q s)
       (\<lambda>x. case x of Inl e \<Rightarrow> Q s (Done (Inl e)) | Inr a \<Rightarrow> ewp E P Q (f a) s)) p s"
proof -
  have "ewp E P Q (case x of Inl e \<Rightarrow> Ret (Inl e) | Inr a \<Rightarrow> f a) s =
        (case x of Inl e \<Rightarrow> Q s (Done (Inl e)) | Inr a \<Rightarrow> ewp E P Q (f a) s)" for x s
    by (simp split: sum.split)
  then show ?thesis
    by (simp add: go_try_def ewp_bind)
qed

lemma ewp_mono:
  "ewp E P Q p s \<Longrightarrow> (\<And>q. P q \<Longrightarrow> P' q) \<Longrightarrow> (\<And>t oc. Q t oc \<Longrightarrow> Q' t oc) \<Longrightarrow> ewp E P' Q' p s"
  by (induction p arbitrary: s) auto

text \<open>
  The frame rule: a handler whose requests all satisfy \<open>P\<close> keeps every invariant of the state that
  those requests keep.
\<close>

lemma ewp_frame:
  assumes "\<And>s q s1 r. I s \<Longrightarrow> P q \<Longrightarrow> E s q s1 r \<Longrightarrow> I s1"
  shows "wp P (\<lambda>_. False) Q p \<Longrightarrow> I s \<Longrightarrow> ewp E P (\<lambda>t oc. I t \<and> Q oc) p s"
  by (induction p arbitrary: s) (auto intro: assms)

text \<open>What holds of every request whatever the history is a plain precondition.\<close>

lemma wp_of_hwp:
  "hwp P S Q p H \<Longrightarrow> (\<And>H q. P H q \<Longrightarrow> P' q) \<Longrightarrow> (\<And>H m. S H m \<Longrightarrow> S' m) \<Longrightarrow>
     (\<And>H oc. Q H oc \<Longrightarrow> Q' oc) \<Longrightarrow> wp P' S' Q' p"
  unfolding wp_iff_hwp [of _ _ _ _ H] by (erule hwp_conseq) auto

end
