(* ===== verification/Convergence.thy ===== *)
theory Convergence
  imports Config_Properties Env_Logic Cluster
begin

text \<open>
  The ConfigMap under an API server that keeps its objects: a successful \<open>UpdateConfigMap\<close> leaves
  the ConfigMap of the instance in the state that is asked for, and a further one, with nothing
  changed in between, writes nothing.
\<close>

section \<open>The API server\<close>

text \<open>
  The requests that may change an instance or a ConfigMap; all others leave both alone.
\<close>

fun tracked :: "obj \<Rightarrow> bool" where
  "tracked (ONss n) = True"
| "tracked (OConfigMap cm) = True"
| "tracked _ = False"

fun changes_tracked :: "request \<Rightarrow> bool" where
  "changes_tracked (Create ob) = tracked ob"
| "changes_tracked (Update ob) = tracked ob"
| "changes_tracked (StatusUpdate ob) = tracked ob"
| "changes_tracked (Patch a b) = tracked a"
| "changes_tracked (StatusPatch a b) = tracked a"
| "changes_tracked (Delete ob) = tracked ob"
| "changes_tracked (DeleteAllOf k ns l) = (k = KNss \<or> k = KConfigMap)"
| "changes_tracked _ = False"

text \<open>What of a ConfigMap is stored as it was sent; the server fills in the rest.\<close>

definition stored_as :: "config_map \<Rightarrow> config_map \<Rightarrow> bool" where
  "stored_as cm cm' \<longleftrightarrow> cmData cm' = cmData cm \<and> meta_key (cmMeta cm') = meta_key (cmMeta cm) \<and>
     omOwnerReferences (cmMeta cm') = omOwnerReferences (cmMeta cm)"

text \<open>
  The goal: the ConfigMap of the instance is there, belongs to it, and its value is a list without
  duplicates of the validated members of the live instances that share the ConfigMap.
\<close>

definition settled ::
  "('s \<Rightarrow> key \<Rightarrow> config_map option) \<Rightarrow> ('s \<Rightarrow> string \<Rightarrow> nss list) \<Rightarrow> nss \<Rightarrow> 's \<Rightarrow> bool" where
  "settled cms insts inst s \<longleftrightarrow>
     (\<exists>cm. cms s (config_map_key inst) = Some cm \<and> owned_by inst cm \<and>
        distinct (split_on CHR '','' (cm_namespaces cm)) \<and>
        set (split_on CHR '','' (cm_namespaces cm)) = members_of inst (insts s (nss_namespace inst)))"

text \<open>There are members, and their names can be told apart in the value.\<close>

definition listable :: "string set \<Rightarrow> bool" where
  "listable A \<longleftrightarrow> A \<noteq> {} \<and> (\<forall>x \<in> A. CHR '','' \<notin> set x)"

lemma settledI:
  "cms s (config_map_key inst) = Some cm \<Longrightarrow> owned_by inst cm \<Longrightarrow>
     distinct (split_on CHR '','' (cm_namespaces cm)) \<Longrightarrow>
     set (split_on CHR '','' (cm_namespaces cm)) = members_of inst (insts s (nss_namespace inst)) \<Longrightarrow>
     settled cms insts inst s"
  unfolding settled_def by blast

lemma settled_cong:
  "cms t = cms s \<Longrightarrow> insts t = insts s \<Longrightarrow> settled cms insts inst t = settled cms insts inst s"
  by (simp add: settled_def)

lemma not_tracked_read: "\<not> is_write q \<Longrightarrow> \<not> changes_tracked q"
  by (cases q) auto

lemma wp_RestartPods:
  "daemonSetPermissionChecker rc = None \<Longrightarrow>
     wp (\<lambda>q. \<not> changes_tracked q) (\<lambda>_. False) (\<lambda>_. True) (RestartPods rc lbls cm ns)"
proof (rule wp_of_hwp [OF hwp_RestartPods])
  fix H q
  assume "restart_request lbls cm ns H q"
  then show "\<not> changes_tracked q"
    by (cases "is_write q") (auto simp: restart_request_def Let_def not_tracked_read)
qed (auto simp: any_end_def)

lemma split_joined:
  assumes "distinct xs" "set xs = A" "listable A" "mset ys = mset xs"
  shows "distinct (split_on CHR '','' (join_with '','' ys)) \<and> set (split_on CHR '','' (join_with '','' ys)) = A"
proof -
  have "decodable ys"
    using assms unfolding decodable_def listable_def by (metis empty_set mset_eq_setD)
  moreover have "distinct ys" "set ys = A"
    using assms(1,2,4) by (metis mset_eq_imp_distinct_iff, metis mset_eq_setD)
  ultimately show ?thesis
    using commas.dec_enc [of ys] by simp
qed

lemma set_owner:
  assumes "pkg_ok p" "pkgSetOwnerReference p inst cm = Inr cm'"
  shows "cmData cm' = cmData cm" "meta_key (cmMeta cm') = meta_key (cmMeta cm)" "owned_by inst cm'"
  using assms unfolding pkg_ok_def controller_util_def set_owner_law_def owned_by_def by blast+

lemma sync_silent:
  assumes "distinct xs" "distinct (split_on CHR '','' (cm_namespaces cm))"
    and "set (split_on CHR '','' (cm_namespaces cm)) = set xs" "owned_by inst cm"
  shows "sync_config_map p rc inst xs cm = Ret (Inr ())"
proof -
  have "mset xs = mset (split_on CHR '','' (cm_namespaces cm))"
    using assms(1-3) set_eq_iff_mset_eq_distinct by blast
  then have "\<not> fst (CheckListDifference xs (split_on CHR '','' (cm_namespaces cm)))"
    by (simp add: CheckListDifference_iff)
  with assms(4) show ?thesis
    by (auto simp: sync_config_map_def Let_def owned_by_def GetOwnerReferenceUIDs_def split: prod.split)
qed

text \<open>
  The server, with its cache in step: \<open>cms\<close> are its ConfigMaps and \<open>insts\<close> the instances of a
  namespace. Every request may fail; a failed write tells nothing about the ConfigMaps.
\<close>

locale api_server =
  fixes E :: "'s env" and cms :: "'s \<Rightarrow> key \<Rightarrow> config_map option" and insts :: "'s \<Rightarrow> string \<Rightarrow> nss list"
  assumes other: "E s q t r \<Longrightarrow> \<not> changes_tracked q \<Longrightarrow> cms t = cms s \<and> insts t = insts s"
    and list_insts: "E s (ListOf Cached KNss ns []) t r \<Longrightarrow>
      r = RList (map ONss (insts s ns)) \<or> (\<exists>e. r = RErr e)"
    and get_config: "E s (Get Cached KConfigMap k) t r \<Longrightarrow>
      (case cms s k of
         Some cm \<Rightarrow> r = RObj (OConfigMap cm) \<and> meta_key (cmMeta cm) = k
       | None \<Rightarrow> \<exists>e. r = RErr e \<and> is_not_found e) \<or> (\<exists>e. r = RErr e \<and> \<not> is_not_found e)"
    and write_config: "E s q t r \<Longrightarrow> q = Create (OConfigMap cm) \<or> q = Update (OConfigMap cm) \<Longrightarrow>
      insts t = insts s \<and>
      ((\<exists>cm'. r = RObj (OConfigMap cm') \<and> stored_as cm cm' \<and>
          cms t = (cms s)(meta_key (cmMeta cm) \<mapsto> cm')) \<or> (\<exists>e. r = RErr e))"
begin

abbreviation same :: "'s \<Rightarrow> 's \<Rightarrow> bool" where
  "same s t \<equiv> cms t = cms s \<and> insts t = insts s"

lemma read_same: "E s q t r \<Longrightarrow> \<not> is_write q \<Longrightarrow> same s t"
  using other not_tracked_read by blast

lemma ewp_members:
  "ewp E (\<lambda>q. \<not> is_write q)
     (\<lambda>t oc. same s t \<and> finishes oc \<and> (\<forall>xs. oc = Done (Inr xs) \<longrightarrow> distinct xs \<and>
        set xs = members_of inst (insts s (nss_namespace inst))))
     (getAllValidatedNamespaceMembers inst) s"
proof -
  let ?q = "ListOf Cached KNss (nss_namespace inst) []"
  let ?Q = "\<lambda>t oc. same s t \<and> finishes oc \<and> (\<forall>xs. oc = Done (Inr xs) \<longrightarrow> distinct xs \<and>
        set xs = members_of inst (insts s (nss_namespace inst)))"
  have "ewp E (\<lambda>q. \<not> is_write q) ?Q (case as_list the_nss r of Inl e \<Rightarrow> Ret (Inl e)
      | Inr items \<Rightarrow> bind (ToStringSlice (MakeSet (members_loop inst items []))) (\<lambda>xs. Ret (Inr xs))) s1"
    if "E s ?q s1 r" for s1 r
    using list_insts [OF that] read_same [OF that]
    by (auto simp: response_simps ToStringSlice_def bind_call set_members_loop dest!: read_same)
  then show ?thesis
    by (simp add: getAllValidatedNamespaceMembers_def go_try_def bind_call)
qed

lemma ewp_members_then:
  assumes "\<And>t xs. same s t \<Longrightarrow> distinct xs \<Longrightarrow> set xs = members_of inst (insts s (nss_namespace inst)) \<Longrightarrow>
      ewp E P Q (f xs) t"
    and "\<And>t e. same s t \<Longrightarrow> Q t (Done (Inl e))" "\<And>q. \<not> is_write q \<Longrightarrow> P q"
  shows "ewp E P Q (go_try (getAllValidatedNamespaceMembers inst) f) s"
  unfolding ewp_go_try
proof (rule ewp_mono [OF ewp_members])
  fix t and oc :: "(err + string list) outcome"
  assume oc: "same s t \<and> finishes oc \<and> (\<forall>xs. oc = Done (Inr xs) \<longrightarrow> distinct xs \<and>
        set xs = members_of inst (insts s (nss_namespace inst)))"
  then obtain x where "oc = Done x" by (auto simp: finishes_def)
  then show "and_then (Q t) (\<lambda>x. case x of Inl e \<Rightarrow> Q t (Done (Inl e)) | Inr xs \<Rightarrow> ewp E P Q (f xs) t) oc"
    using oc assms(1,2) by (cases x) auto
qed (rule assms(3))

text \<open>Reading the ConfigMap: it is found, it is not there, or the request fails otherwise.\<close>

lemma ewp_get_then:
  assumes "\<And>cm t. same s t \<Longrightarrow> cms s k = Some cm \<Longrightarrow> meta_key (cmMeta cm) = k \<Longrightarrow> ewp E P Q (f (Inr cm)) t"
    and "\<And>e t. same s t \<Longrightarrow> cms s k = None \<Longrightarrow> is_not_found e \<Longrightarrow> ewp E P Q (f (Inl e)) t"
    and "\<And>e t. same s t \<Longrightarrow> \<not> is_not_found e \<Longrightarrow> ewp E P Q (f (Inl e)) t"
    and "\<And>q. \<not> is_write q \<Longrightarrow> P q"
  shows "ewp E P Q (bind (get_config_map k) f) s"
proof -
  have "ewp E P Q (f (as_obj the_config_map r)) t" if "E s (Get Cached KConfigMap k) t r" for t r
  proof -
    have t: "same s t" using read_same [OF that] by simp
    show ?thesis
      using get_config [OF that] assms(1-3) [OF t] by (auto simp: response_simps split: option.splits)
  qed
  then show ?thesis
    using assms(4) by (simp add: get_config_map_def bind_call)
qed

lemma ewp_settled:
  assumes "settled cms insts inst s"
  shows "ewp E (\<lambda>q. \<not> is_write q) (\<lambda>t oc. settled cms insts inst t \<and> finishes oc) (UpdateConfigMap p rc inst) s"
  unfolding UpdateConfigMap_def
proof (rule ewp_members_then)
  have kept: "settled cms insts inst u" if "same s t" "same t u" for t u
    using assms that by (simp add: settled_def)
  show "settled cms insts inst t \<and> finishes (Done (Inl e))" if "same s t" for t e
    using kept [OF that, of t] by simp
  fix t xs
  assume t: "same s t" and xs: "distinct xs" "set xs = members_of inst (insts s (nss_namespace inst))"
  let ?then = "\<lambda>x. case x of
      Inl e \<Rightarrow> if is_not_found e then create_config_map p rc inst xs else Ret (Inl e)
    | Inr cm \<Rightarrow> sync_config_map p rc inst xs cm"
  show "ewp E (\<lambda>q. \<not> is_write q) (\<lambda>t oc. settled cms insts inst t \<and> finishes oc)
     (bind (get_config_map (config_map_key inst)) ?then) t"
  proof (rule ewp_get_then)
    fix cm u
    assume u: "same t u" and cm: "cms t (config_map_key inst) = Some cm"
    with assms t have "owned_by inst cm" "distinct (split_on CHR '','' (cm_namespaces cm))"
      "set (split_on CHR '','' (cm_namespaces cm)) = set xs"
      by (auto simp: settled_def xs(2))
    then have "sync_config_map p rc inst xs cm = Ret (Inr ())"
      using xs(1) by (intro sync_silent) simp_all
    then show "ewp E (\<lambda>q. \<not> is_write q) (\<lambda>t oc. settled cms insts inst t \<and> finishes oc) (?then (Inr cm)) u"
      using kept [OF t u] by simp
  next
    fix e u
    assume "cms t (config_map_key inst) = None"
    then have False using assms t by (simp add: settled_def)
    then show "ewp E (\<lambda>q. \<not> is_write q) (\<lambda>t oc. settled cms insts inst t \<and> finishes oc) (?then (Inl e)) u" ..
  next
    fix e u
    assume "same t u" "\<not> is_not_found e"
    then show "ewp E (\<lambda>q. \<not> is_write q) (\<lambda>t oc. settled cms insts inst t \<and> finishes oc) (?then (Inl e)) u"
      using kept [OF t] by simp
  qed
qed

text \<open>A write of a ConfigMap that is as it should be, and the restarts after it.\<close>

lemma ewp_write:
  assumes "daemonSetPermissionChecker rc = None"
    and "q = Create (OConfigMap cm) \<or> q = Update (OConfigMap cm)"
    and "meta_key (cmMeta cm) = config_map_key inst" "owned_by inst cm"
    and "distinct (split_on CHR '','' (cm_namespaces cm))"
    and "set (split_on CHR '','' (cm_namespaces cm)) = members_of inst (insts s (nss_namespace inst))"
  shows "ewp E (\<lambda>_. True) (\<lambda>t oc. insts t = insts s \<and> (oc = Done (Inr ()) \<longrightarrow> settled cms insts inst t))
     (go_try (call q (as_obj the_config_map)) (\<lambda>cm'. if restart
        then RestartPods rc (restartLabels (spec inst)) cm' (nss_namespace inst) else Ret (Inr ()))) s"
proof -
  let ?Q = "\<lambda>t oc. insts t = insts s \<and> (oc = Done (Inr ()) \<longrightarrow> settled cms insts inst t)"
  have "ewp E (\<lambda>_. True) ?Q (case as_obj the_config_map r of Inl e \<Rightarrow> Ret (Inl e) | Inr cm' \<Rightarrow>
      if restart then RestartPods rc (restartLabels (spec inst)) cm' (nss_namespace inst) else Ret (Inr ())) t"
    if "E s q t r" for t r
  proof -
    from write_config [OF that assms(2)] have i: "insts t = insts s" by simp
    from write_config [OF that assms(2)] consider cm' where "r = RObj (OConfigMap cm')" "stored_as cm cm'"
        "cms t = (cms s)(meta_key (cmMeta cm) \<mapsto> cm')" | e where "r = RErr e"
      by blast
    then show ?thesis
    proof cases
      case 1
      have done_at: "settled cms insts inst t"
      proof (rule settledI)
        show "cms t (config_map_key inst) = Some cm'" using 1(3) assms(3) by simp
      qed (use 1(2) assms(4-6) i in \<open>auto simp: stored_as_def cm_namespaces_def owned_by_def\<close>)
      have kept: "same t u1" if "same t u" "\<not> changes_tracked w" "E u w u1 r'" for u w u1 r'
        using other [OF that(3,2)] that(1) by simp
      have "ewp E (\<lambda>q. \<not> changes_tracked q) (\<lambda>u oc. same t u \<and> True)
          (RestartPods rc (restartLabels (spec inst)) cm' (nss_namespace inst)) t"
        by (rule ewp_frame [where I = "same t", OF kept wp_RestartPods [OF assms(1)]]) simp_all
      then have "ewp E (\<lambda>_. True) ?Q (RestartPods rc (restartLabels (spec inst)) cm' (nss_namespace inst)) t"
        by (rule ewp_mono) (use i done_at in \<open>simp_all add: settled_def\<close>)
      then show ?thesis using 1(1) i done_at by (simp add: response_simps)
    next
      case 2
      then show ?thesis using i by (simp add: response_simps)
    qed
  qed
  then show ?thesis
    by (simp add: go_try_def bind_call)
qed

lemma ewp_create_config_map:
  assumes "pkg_ok p" "daemonSetPermissionChecker rc = None" "listable (set xs)" "distinct xs"
    and "set xs = members_of inst (insts s (nss_namespace inst))"
  shows "ewp E (\<lambda>_. True) (\<lambda>t oc. insts t = insts s \<and> (oc = Done (Inr ()) \<longrightarrow> settled cms insts inst t))
     (create_config_map p rc inst xs) s"
proof (cases "pkgSetOwnerReference p inst (new_config_map inst xs)")
  case (Inr cm)
  note owner = set_owner [OF assms(1) Inr]
  have "cm_namespaces cm = join_with '','' xs"
    using owner(1) by (simp add: cm_namespaces_def new_config_map_def map_get_def)
  then have "distinct (split_on CHR '','' (cm_namespaces cm)) \<and>
      set (split_on CHR '','' (cm_namespaces cm)) = members_of inst (insts s (nss_namespace inst))"
    using split_joined [OF assms(4) refl assms(3) refl] assms(5) by simp
  moreover have "meta_key (cmMeta cm) = config_map_key inst"
    using owner(2) by (simp add: new_config_map_def meta_key_def new_meta_def)
  ultimately show ?thesis
    using ewp_write [OF assms(2), of "Create (OConfigMap cm)" cm inst s True] owner(3)
    by (simp add: create_config_map_def Inr)
qed (simp add: create_config_map_def)

lemma ewp_sync_config_map:
  assumes "pkg_ok p" "daemonSetPermissionChecker rc = None" "listable (set xs)" "distinct xs"
    and "set xs = members_of inst (insts s (nss_namespace inst))"
    and "cms s (config_map_key inst) = Some cm" "meta_key (cmMeta cm) = config_map_key inst"
  shows "ewp E (\<lambda>_. True) (\<lambda>t oc. insts t = insts s \<and> (oc = Done (Inr ()) \<longrightarrow> settled cms insts inst t))
     (sync_config_map p rc inst xs cm) s"
proof -
  let ?current = "split_on CHR '','' (cm_namespaces cm)"
  let ?Q = "\<lambda>t oc. insts t = insts s \<and> (oc = Done (Inr ()) \<longrightarrow> settled cms insts inst t)"
  obtain differs m1 c1 where d1: "CheckListDifference xs ?current = (differs, m1, c1)"
    by (metis prod_cases3)
  obtain restart m2 c2 where d2: "CheckListDifference m1 ?current = (restart, m2, c2)"
    by (metis prod_cases3)
  have m: "mset m1 = mset xs" "mset m2 = mset xs"
    using CheckListDifference_mset [OF d1] CheckListDifference_mset [OF d2] by simp_all
  have iff: "differs \<longleftrightarrow> mset xs \<noteq> mset ?current" "restart \<longleftrightarrow> mset xs \<noteq> mset ?current"
    using CheckListDifference_iff [of xs ?current] CheckListDifference_iff [of m1 ?current] d1 d2 m by simp_all
  have same_list: "distinct ?current \<and> set ?current = members_of inst (insts s (nss_namespace inst))" if "\<not> restart"
    using that iff(2) assms(4,5) by (metis mset_eq_imp_distinct_iff mset_eq_setD)
  define cm1 where "cm1 = (if restart
    then cm\<lparr>cmData := map_option (\<lambda>d. map_put d namespaces_key (join_with '','' m2)) (cmData cm)\<rparr> else cm)"
  have written: "ewp E (\<lambda>_. True) ?Q (case pkgSetOwnerReference p inst cm1 of Inl e \<Rightarrow> Ret (Inl e)
      | Inr cm2 \<Rightarrow> go_try (call (Update (OConfigMap cm2)) (as_obj the_config_map)) (\<lambda>cm3. if restart
          then RestartPods rc (restartLabels (spec inst)) cm3 (nss_namespace inst) else Ret (Inr ()))) s"
    if "\<not> (restart \<and> cmData cm = None)"
  proof (cases "pkgSetOwnerReference p inst cm1")
    case (Inr cm2)
    note owner = set_owner [OF assms(1) Inr]
    have "cm_namespaces cm2 = join_with '','' m2" if restart
      using owner(1) that \<open>\<not> (restart \<and> cmData cm = None)\<close>
      by (auto simp: cm1_def cm_namespaces_def)
    moreover have "cm_namespaces cm2 = cm_namespaces cm" if "\<not> restart"
      using owner(1) that by (simp add: cm1_def cm_namespaces_def)
    ultimately have "distinct (split_on CHR '','' (cm_namespaces cm2)) \<and>
        set (split_on CHR '','' (cm_namespaces cm2)) = members_of inst (insts s (nss_namespace inst))"
      using same_list split_joined [OF assms(4) refl assms(3) m(2)] assms(5) by (cases restart) auto
    moreover have "meta_key (cmMeta cm2) = config_map_key inst"
      using owner(2) assms(7) by (simp add: cm1_def)
    ultimately show ?thesis
      using ewp_write [OF assms(2), of "Update (OConfigMap cm2)" cm2 inst s restart] owner(3) Inr by simp
  qed simp
  show ?thesis
  proof (cases "differs \<or> \<not> owned_by inst cm")
    case False
    then have "settled cms insts inst s"
      using same_list iff by (intro settledI [of cms s, OF assms(6)]) simp_all
    with False show ?thesis
      by (simp add: sync_config_map_def d1 Let_def owned_by_def GetOwnerReferenceUIDs_def)
  next
    case True
    with written show ?thesis
      by (auto simp: sync_config_map_def d1 d2 Let_def owned_by_def GetOwnerReferenceUIDs_def cm1_def [symmetric])
  qed
qed

lemma ewp_establishes:
  assumes "pkg_ok p" "daemonSetPermissionChecker rc = None"
    and "listable (members_of inst (insts s (nss_namespace inst)))"
  shows "ewp E (\<lambda>_. True) (\<lambda>t oc. insts t = insts s \<and> (oc = Done (Inr ()) \<longrightarrow> settled cms insts inst t))
     (UpdateConfigMap p rc inst) s"
  unfolding UpdateConfigMap_def
proof (rule ewp_members_then)
  fix t xs
  assume t: "same s t" and xs: "distinct xs" "set xs = members_of inst (insts s (nss_namespace inst))"
  let ?then = "\<lambda>x. case x of
      Inl e \<Rightarrow> if is_not_found e then create_config_map p rc inst xs else Ret (Inl e)
    | Inr cm \<Rightarrow> sync_config_map p rc inst xs cm"
  let ?Q = "\<lambda>t oc. insts t = insts s \<and> (oc = Done (Inr ()) \<longrightarrow> settled cms insts inst t)"
  have listed: "listable (set xs)" "set xs = members_of inst (insts u (nss_namespace inst))" if "same t u" for u
    using assms(3) xs(2) t that by simp_all
  show "ewp E (\<lambda>_. True) ?Q (bind (get_config_map (config_map_key inst)) ?then) t"
  proof (rule ewp_get_then)
    fix cm u
    assume u: "same t u" and cm: "cms t (config_map_key inst) = Some cm" "meta_key (cmMeta cm) = config_map_key inst"
    have "cms u (config_map_key inst) = Some cm" using u cm(1) by simp
    from ewp_sync_config_map [OF assms(1,2) listed(1) [OF u] xs(1) listed(2) [OF u] this cm(2)]
    show "ewp E (\<lambda>_. True) ?Q (?then (Inr cm)) u"
      using t u by simp
  next
    fix e u
    assume u: "same t u" and e: "is_not_found e"
    from ewp_create_config_map [OF assms(1,2) listed(1) [OF u] xs(1) listed(2) [OF u]]
    show "ewp E (\<lambda>_. True) ?Q (?then (Inl e)) u"
      using t u e by simp
  qed (use t in auto)
qed auto

end

section \<open>A server that keeps its objects\<close>

text \<open>The instances and the ConfigMaps of the concrete API server.\<close>

definition insts_in :: "cluster \<Rightarrow> string \<Rightarrow> nss list" where
  "insts_in c ns = List.map_filter the_nss (filter (selected KNss ns []) c)"

definition config_maps :: "cluster \<Rightarrow> key \<Rightarrow> config_map option" where
  "config_maps c k = Option.bind (find (stored_at KConfigMap k) c) the_config_map"

lemma map_insts_in: "map ONss (insts_in c ns) = filter (selected KNss ns []) c"
  by (induction c) (auto simp: insts_in_def map_filter_simps selected_def)

text \<open>Both depend on the tracked objects only.\<close>

lemma find_filter: "(\<And>x. P x \<Longrightarrow> Q x) \<Longrightarrow> find P (filter Q xs) = find P xs"
  by (induction xs) auto

lemma same_tracked:
  assumes "filter tracked c' = filter tracked c"
  shows "config_maps c' = config_maps c \<and> insts_in c' = insts_in c"
proof -
  have "find (stored_at KConfigMap k) (filter tracked x) = find (stored_at KConfigMap k) x" for k x
    by (rule find_filter) (auto simp: stored_at_def)
  moreover have "filter (selected KNss ns []) (filter tracked x) = filter (selected KNss ns []) x" for ns x
    by (auto simp: filter_filter selected_def intro!: filter_cong)
  ultimately show ?thesis
    using assms unfolding config_maps_def insts_in_def fun_eq_iff by metis
qed

lemma tracked_kind: "tracked ob \<longleftrightarrow> obj_kind ob = KNss \<or> obj_kind ob = KConfigMap"
  by (cases ob) auto

lemma store_untracked:
  assumes "store f ob c = (r, c')" "\<not> tracked ob" "\<And>old. obj_kind (f old ob) = obj_kind old \<or> f old ob = ob"
  shows "filter tracked c' = filter tracked c"
proof -
  have "filter tracked (map (\<lambda>o'. if same_place ob o' then f o' ob else o') c) = filter tracked c"
  proof (induction c)
    case (Cons o' c)
    have "\<not> tracked (f o' ob) \<and> \<not> tracked o'" if "same_place ob o'"
      using that assms(2) assms(3) [of o'] unfolding tracked_kind stored_at_def by metis
    with Cons show ?case by auto
  qed simp
  then show ?thesis using assms(1) by (auto simp: store_def split: option.splits)
qed

lemma untracked_step:
  assumes "cluster_step c q = (r, c')" "\<not> changes_tracked q"
  shows "filter tracked c' = filter tracked c"
proof -
  have spec: "obj_kind (spec_written old ob) = obj_kind old \<or> spec_written old ob = ob" for old ob
    by (cases "(old, ob)" rule: spec_written.cases) auto
  have patch: "obj_kind (if ob = orig then old else spec_written old ob) = obj_kind old \<or>
      (if ob = orig then old else spec_written old ob) = ob" for ob orig old
    using spec [of old ob] by simp
  have status: "obj_kind (status_written old ob) = obj_kind old \<or> status_written old ob = ob" for old ob
    by (cases "(old, ob)" rule: status_written.cases) auto
  have removed: "filter tracked (filter P c) = filter tracked c" if "\<And>x. tracked x \<Longrightarrow> P x" for P
    using that by (auto simp: filter_filter intro: filter_cong)
  show ?thesis
  proof (cases q)
    case (Update ob)
    with assms show ?thesis by (intro store_untracked [OF _ _ spec]) auto
  next
    case (Patch ob orig)
    with assms show ?thesis by (intro store_untracked [OF _ _ patch]) auto
  next
    case (StatusUpdate ob)
    with assms show ?thesis by (intro store_untracked [OF _ _ status]) auto
  next
    case (StatusPatch ob orig)
    with assms show ?thesis by (intro store_untracked [OF _ _ status]) auto
  next
    case (Delete ob)
    have "\<not> same_place ob x" if "tracked x" for x
      using assms(2) that Delete by (auto simp: tracked_kind stored_at_def simp del: obj_kind_iff)
    with assms Delete show ?thesis by (auto intro: removed)
  next
    case (DeleteAllOf k ns ls)
    have "\<not> selected k ns ls x" if "tracked x" for x
      using assms(2) that DeleteAllOf by (auto simp: tracked_kind selected_def simp del: obj_kind_iff)
    with assms DeleteAllOf show ?thesis by (auto intro: removed)
  qed (use assms in \<open>auto split: option.splits if_splits\<close>)
qed

text \<open>What a write of a ConfigMap does to both.\<close>

lemma find_append: "find P (xs @ ys) = (case find P xs of None \<Rightarrow> find P ys | Some x \<Rightarrow> Some x)"
  by (induction xs) auto

lemma config_create:
  assumes "find (same_place (OConfigMap cm)) c = None"
  shows "config_maps (c @ [OConfigMap cm]) = (config_maps c)(meta_key (cmMeta cm) \<mapsto> cm)"
proof
  fix k
  show "config_maps (c @ [OConfigMap cm]) k = ((config_maps c)(meta_key (cmMeta cm) \<mapsto> cm)) k"
    using assms by (cases "find (stored_at KConfigMap k) c")
      (auto simp: config_maps_def find_append stored_at_def fun_upd_apply)
qed

lemma find_map_same: "(\<And>x. P (g x) = P x) \<Longrightarrow> find P (map g xs) = map_option g (find P xs)"
  by (induction xs) auto

lemma spec_written_config [simp]: "spec_written old (OConfigMap cm) = OConfigMap cm"
  by (cases old) auto

lemma config_update:
  assumes "find (same_place (OConfigMap cm)) c \<noteq> None"
  shows "config_maps (map (\<lambda>o'. if same_place (OConfigMap cm) o' then spec_written o' (OConfigMap cm) else o') c) =
     (config_maps c)(meta_key (cmMeta cm) \<mapsto> cm)" (is "config_maps (map ?g c) = _")
proof
  fix k
  have place: "stored_at KConfigMap k (?g x) = stored_at KConfigMap k x" for x
    by (auto simp: stored_at_def)
  have found: "find (stored_at KConfigMap k) (map ?g c) = map_option ?g (find (stored_at KConfigMap k) c)"
    by (rule find_map_same) (rule place)
  show "config_maps (map ?g c) k = ((config_maps c)(meta_key (cmMeta cm) \<mapsto> cm)) k"
  proof (cases "find (stored_at KConfigMap k) c")
    case None
    then have "k \<noteq> meta_key (cmMeta cm)" using assms by auto
    then show ?thesis unfolding config_maps_def found by (simp add: None)
  next
    case (Some ob)
    then have "stored_at KConfigMap k ob" by (auto simp: find_Some_iff)
    then show ?thesis unfolding config_maps_def found by (auto simp: Some stored_at_def)
  qed
qed

lemma insts_append [simp]: "insts_in (c @ [OConfigMap cm]) = insts_in c"
  by (simp add: fun_eq_iff insts_in_def selected_def)

lemma insts_update: "insts_in (map (\<lambda>o'. if same_place (OConfigMap cm) o' then spec_written o' (OConfigMap cm) else o') c) = insts_in c"
  (is "insts_in (map ?g c) = _")
proof
  fix ns
  have "filter (selected KNss ns []) (map ?g c) = filter (selected KNss ns []) c"
    by (induction c) (auto simp: selected_def stored_at_def)
  then show "insts_in (map ?g c) ns = insts_in c ns"
    by (simp add: insts_in_def)
qed

interpretation cluster: api_server cluster_env config_maps insts_in
proof
  fix c q c' r
  assume "cluster_env c q c' r" "\<not> changes_tracked q"
  then show "config_maps c' = config_maps c \<and> insts_in c' = insts_in c"
    unfolding cluster_env_def by (intro same_tracked untracked_step)
next
  fix c c' r ns
  assume "cluster_env c (ListOf Cached KNss ns []) c' r"
  then show "r = RList (map ONss (insts_in c ns)) \<or> (\<exists>e. r = RErr e)"
    by (auto simp: cluster_env_def map_insts_in)
next
  fix c k c' r
  assume "cluster_env c (Get Cached KConfigMap k) c' r"
  then show "(case config_maps c k of
         Some cm \<Rightarrow> r = RObj (OConfigMap cm) \<and> meta_key (cmMeta cm) = k
       | None \<Rightarrow> \<exists>e. r = RErr e \<and> is_not_found e) \<or> (\<exists>e. r = RErr e \<and> \<not> is_not_found e)"
    by (cases "find (stored_at KConfigMap k) c")
       (auto simp: cluster_env_def config_maps_def not_found_def dest!: find_place)
next
  fix c q c' r cm
  assume "cluster_env c q c' r" "q = Create (OConfigMap cm) \<or> q = Update (OConfigMap cm)"
  then show "insts_in c' = insts_in c \<and> ((\<exists>cm'. r = RObj (OConfigMap cm') \<and> stored_as cm cm' \<and>
      config_maps c' = (config_maps c)(meta_key (cmMeta cm) \<mapsto> cm')) \<or> (\<exists>e. r = RErr e))"
    using config_create [of cm c] config_update [of cm c] insts_update [of cm c]
    by (auto simp: cluster_env_def store_def not_found_def stored_as_def split: if_splits option.splits)
qed

text \<open>The sample instance, alone in a cluster without ConfigMaps.\<close>

definition sample_cluster :: cluster where
  "sample_cluster = [ONss sample_nss]"

lemma sample_shares [simp]: "shares_config_map sample_nss sample_nss"
  by (simp add: shares_config_map_def sample_nss_def new_meta_def default_spec_def time_is_zero_def)

lemma sample_insts [simp]: "insts_in sample_cluster ''ibm-common-services'' = [sample_nss]"
  by (simp add: insts_in_def sample_cluster_def selected_def map_filter_simps sample_nss_def new_meta_def)

lemma sample_keys [simp]:
  "nss_namespace sample_nss = ''ibm-common-services''" "configmapName (spec sample_nss) = ''namespace-scope''"
  "validatedMembers (nssStatus sample_nss) = [''ibm-common-services'', ''app'']"
  by (simp_all add: sample_nss_def new_meta_def)

lemma sample_members: "members_of sample_nss [sample_nss] = {''ibm-common-services'', ''app''}"
  by (auto simp: members_of_def)

text \<open>A run of the ConfigMap step that reports success.\<close>

lemma sample_run:
  "\<exists>tr t. runs cluster_env (UpdateConfigMap std_pkg sample_reconciler sample_nss) sample_cluster tr (Done (Inr ())) t"
proof -
  note program = UpdateConfigMap_def getAllValidatedNamespaceMembers_def go_try_def bind_call ToStringSlice_def
    get_config_map_def create_config_map_def RestartPods_def manage_daemon_sets_def members_loop_eq MakeSet_def
    std_pkg_def std_set_owner_def new_config_map_def new_meta_def response_simps as_order_any
  note server = sample_cluster_def not_found_def store_def stored_at_def selected_def
  show ?thesis
    by (simp only: program bind.simps, (rule run_step, simp add: server, (simp add: program)?)+, rule run_ret)
qed

section \<open>Properties\<close>

text \<open>
  C11: \<open>UpdateConfigMap\<close> reaches its goal. Under an API server that stores what it acknowledges and
  with a cache in step, a run that reports success ends in a state where the ConfigMap of the
  instance is there, belongs to the instance and lists, without duplicates, exactly the validated
  members of the live instances that share it; whatever it restarted did not disturb that.
\<close>

theorem UpdateConfigMap_settles:
  assumes "api_server E cms insts" "pkg_ok p" "daemonSetPermissionChecker rc = None"
    and "listable (members_of inst (insts s (nss_namespace inst)))"
    and "runs E (UpdateConfigMap p rc inst) s tr (Done (Inr ())) t"
  shows "settled cms insts inst t"
  using ewp_runs [OF assms(5) api_server.ewp_establishes [OF assms(1-4)]] by blast

theorem UpdateConfigMap_settles_witness:
  "\<exists>tr t. runs cluster_env (UpdateConfigMap std_pkg sample_reconciler sample_nss) sample_cluster tr (Done (Inr ())) t \<and>
     settled config_maps insts_in sample_nss t"
proof -
  obtain tr t where run: "runs cluster_env (UpdateConfigMap std_pkg sample_reconciler sample_nss) sample_cluster
      tr (Done (Inr ())) t"
    using sample_run by blast
  have "listable (members_of sample_nss (insts_in sample_cluster (nss_namespace sample_nss)))"
    by (simp add: sample_members listable_def)
  from UpdateConfigMap_settles [OF cluster.api_server_axioms std_pkg_ok _ this run] run
  show ?thesis by (auto simp: sample_reconciler_def)
qed

text \<open>
  C12: the goal is stable. From such a state a further \<open>UpdateConfigMap\<close>, whatever requests fail in
  it, makes no write at all, returns, and leaves the state as it is: the reconciliation converges.
\<close>

theorem UpdateConfigMap_stable:
  assumes "api_server E cms insts" "settled cms insts inst s"
    and "runs E (UpdateConfigMap p rc inst) s tr oc t"
  shows "(\<forall>(q, r) \<in> set tr. \<not> is_write q) \<and> finishes oc \<and> settled cms insts inst t"
  using ewp_runs [OF assms(3) api_server.ewp_settled [OF assms(1,2)]] by blast

text \<open>The sample cluster with the ConfigMap in place.\<close>

definition sample_map :: config_map where
  "sample_map =
     \<lparr>cmMeta = (new_meta ''namespace-scope'' ''ibm-common-services'' [(NamespaceScopeLabel, ''true'')])
        \<lparr>omOwnerReferences := [\<lparr>orKind = ''NamespaceScope'', orName = ''common-service'', orUID = [], orController = None\<rparr>]\<rparr>,
      cmData = Some [(namespaces_key, ''app,ibm-common-services'')]\<rparr>"

definition settled_cluster :: cluster where
  "settled_cluster = sample_cluster @ [OConfigMap sample_map]"

lemma settled_sample: "settled config_maps insts_in sample_nss settled_cluster"
proof (rule settledI)
  show "config_maps settled_cluster (config_map_key sample_nss) = Some sample_map"
    by (simp add: settled_cluster_def config_maps_def sample_cluster_def stored_at_def sample_map_def
        meta_key_def new_meta_def)
  show "set (split_on CHR '','' (cm_namespaces sample_map)) =
    members_of sample_nss (insts_in settled_cluster (nss_namespace sample_nss))"
    by (auto simp: settled_cluster_def sample_members cm_namespaces_def map_get_def sample_map_def)
qed (simp_all add: owned_by_def sample_nss_def new_meta_def cm_namespaces_def map_get_def sample_map_def)

theorem UpdateConfigMap_stable_witness:
  "\<exists>tr oc t. runs cluster_env (UpdateConfigMap std_pkg sample_reconciler sample_nss) settled_cluster tr oc t \<and>
     finishes oc \<and> settled config_maps insts_in sample_nss t \<and> filter (\<lambda>(q, r). is_write q) tr = []"
proof -
  obtain tr oc t where run: "runs cluster_env (UpdateConfigMap std_pkg sample_reconciler sample_nss) settled_cluster tr oc t"
    using cluster_runs by blast
  from UpdateConfigMap_stable [OF cluster.api_server_axioms settled_sample run] run
  show ?thesis by (auto simp: filter_empty_conv intro!: exI)
qed

end
