(* ===== verification/Operator_Runs.thy ===== *)
theory Operator_Runs
  imports Reconcile_Confined Convergence
begin

text \<open>
  The operator as a state machine: the two handlers run again and again, for any instance, against
  an API server that others write to as well. What every write of the handlers is like (the
  confinement theorems) becomes an invariant of all reachable states.
\<close>

section \<open>From justified requests to invariants\<close>

text \<open>
  A handler whose requests satisfy \<open>R\<close> as long as the answers it got satisfy \<open>G\<close>, against a server
  that keeps \<open>I\<close> and gives answers in \<open>G\<close> as long as the requests satisfy \<open>R\<close>.
\<close>

definition good_history :: "(request \<Rightarrow> response \<Rightarrow> bool) \<Rightarrow> history \<Rightarrow> bool" where
  "good_history G H \<longleftrightarrow> (\<forall>(q, r) \<in> H. G q r)"

lemma runs_invariant:
  assumes "\<And>s q s1 r. I s \<Longrightarrow> R q \<Longrightarrow> E s q s1 r \<Longrightarrow> I s1 \<and> G q r"
    and "\<And>H q. good_history G H \<Longrightarrow> P H q \<Longrightarrow> R q"
  shows "runs E p s tr oc t \<Longrightarrow> hwp P S Q p H \<Longrightarrow> good_history G H \<Longrightarrow> I s \<Longrightarrow> I t"
proof (induction arbitrary: H rule: runs.induct)
  case (runs_Call s q s1 r k tr oc t)
  have "R q" using assms(2) runs_Call.prems by simp
  with assms(1) runs_Call.hyps(1) runs_Call.prems(3) have "I s1" "G q r" by blast+
  with runs_Call.prems show ?case
    by (intro runs_Call.IH [of "insert (q, r) H"]) (simp_all add: good_history_def)
qed auto

section \<open>The server and the operator\<close>

text \<open>
  What is followed is a part of the objects, given by \<open>parts\<close>: the status of an instance, say, or the
  rules of a Role. \<open>answered\<close> and \<open>written\<close> are the parts that an answer tells and a request writes.
\<close>

fun answered :: "(obj \<Rightarrow> 'x set) \<Rightarrow> response \<Rightarrow> 'x set" where
  "answered parts (RObj ob) = parts ob"
| "answered parts (RList obs) = (\<Union>ob \<in> set obs. parts ob)"
| "answered parts _ = {}"

fun written :: "(obj \<Rightarrow> 'x set) \<Rightarrow> request \<Rightarrow> 'x set" where
  "written parts (Create ob) = parts ob"
| "written parts (Update ob) = parts ob"
| "written parts (StatusUpdate ob) = parts ob"
| "written parts (Patch ob ob0) = parts ob"
| "written parts (StatusPatch ob ob0) = parts ob"
| "written parts _ = {}"

abbreviation answers_in :: "(obj \<Rightarrow> 'x set) \<Rightarrow> 'x set \<Rightarrow> history \<Rightarrow> bool" where
  "answers_in parts ok \<equiv> good_history (\<lambda>q r. answered parts r \<subseteq> ok)"

lemma reads_write_nothing: "\<not> is_write q \<Longrightarrow> written parts q = {}"
  by (cases q) auto

lemma answers_inD: "answers_in parts ok H \<Longrightarrow> (q, r) \<in> H \<Longrightarrow> answered parts r \<subseteq> ok"
  unfolding good_history_def by blast

lemma good_history_conj:
  "good_history (\<lambda>q r. G q r \<and> G' q r) H \<longleftrightarrow> good_history G H \<and> good_history G' H"
  unfolding good_history_def by blast

text \<open>Every answer of the server follows a law, whatever its state is.\<close>

definition lawful :: "'s env \<Rightarrow> (request \<Rightarrow> response \<Rightarrow> bool) \<Rightarrow> bool" where
  "lawful E law \<longleftrightarrow> (\<forall>s q t r. E s q t r \<longrightarrow> law q r)"

lemma lawfulD: "lawful E law \<Longrightarrow> E s q t r \<Longrightarrow> law q r"
  unfolding lawful_def by blast

lemma lawful_any: "lawful E (\<lambda>_ _. True)"
  by (simp add: lawful_def)

text \<open>
  \<open>ok\<close> is closed under the handlers: told nothing but parts in \<open>ok\<close>, by answers that follow the law,
  they write such parts only.
\<close>

definition handlers_keep ::
  "(request \<Rightarrow> response \<Rightarrow> bool) \<Rightarrow> (obj \<Rightarrow> 'x set) \<Rightarrow> 'x set \<Rightarrow> pkg \<Rightarrow> reconciler \<Rightarrow> bool" where
  "handlers_keep law parts ok p rc \<longleftrightarrow>
     (\<forall>req H q. good_history law H \<longrightarrow> answers_in parts ok H \<longrightarrow>
        reconcile_request p req H q \<or> csv_request p rc req H q \<longrightarrow> written parts q \<subseteq> ok)"

lemma handlers_keepD:
  assumes "handlers_keep law parts ok p rc" "good_history law H" "answers_in parts ok H"
  shows "reconcile_request p req H q \<Longrightarrow> written parts q \<subseteq> ok" "csv_request p rc req H q \<Longrightarrow> written parts q \<subseteq> ok"
  using assms unfolding handlers_keep_def by blast+

text \<open>One step of the operator: a run of either handler, for any key and with any outcome.\<close>

inductive operator_step :: "pkg \<Rightarrow> reconciler \<Rightarrow> 's env \<Rightarrow> 's \<Rightarrow> 's \<Rightarrow> bool" for p rc E where
  reconcile: "runs E (Reconcile p rc req) s tr oc t \<Longrightarrow> operator_step p rc E s t"
| csv_reconcile: "runs E (CSVReconcile p rc req) s tr oc t \<Longrightarrow> operator_step p rc E s t"

inductive reachable :: "pkg \<Rightarrow> reconciler \<Rightarrow> 's env \<Rightarrow> 's \<Rightarrow> 's \<Rightarrow> bool" for p rc E s0 where
  start: "reachable p rc E s0 s0"
| step: "reachable p rc E s0 s \<Longrightarrow> operator_step p rc E s t \<Longrightarrow> reachable p rc E s0 t"

text \<open>
  \<open>versions s\<close> are the parts that there have been so far, as far as anybody can be told of them (a
  cache may be behind). \<open>others\<close> are the parts that other clients write in between.
\<close>

locale object_server =
  fixes E :: "'s env" and parts :: "obj \<Rightarrow> 'x set" and versions :: "'s \<Rightarrow> 'x set" and others :: "'x set"
  assumes answers: "E s q t r \<Longrightarrow> answered parts r \<subseteq> versions t"
    and writes: "E s q t r \<Longrightarrow> versions t \<subseteq> versions s \<union> written parts q \<union> others"
begin

lemma handler_keeps:
  assumes "lawful E law" "others \<subseteq> ok" "runs E p s tr oc t" "hwp P S Q p {}" "versions s \<subseteq> ok"
    and "\<And>H q. good_history law H \<Longrightarrow> answers_in parts ok H \<Longrightarrow> P H q \<Longrightarrow> written parts q \<subseteq> ok"
  shows "versions t \<subseteq> ok"
proof (rule runs_invariant [where R = "\<lambda>q. written parts q \<subseteq> ok"
        and G = "\<lambda>q r. law q r \<and> answered parts r \<subseteq> ok" and I = "\<lambda>s. versions s \<subseteq> ok"])
  show "versions s1 \<subseteq> ok \<and> law q r \<and> answered parts r \<subseteq> ok"
    if "versions s \<subseteq> ok" "written parts q \<subseteq> ok" "E s q s1 r" for s q s1 r
    using that(1,2) assms(2) lawfulD [OF assms(1) that(3)] answers [OF that(3)] writes [OF that(3)] by blast
  show "written parts q \<subseteq> ok" if "good_history (\<lambda>q r. law q r \<and> answered parts r \<subseteq> ok) H" "P H q" for H q
    by (rule assms(6) [OF _ _ that(2)]) (use that(1) in \<open>simp_all only: good_history_conj\<close>)
  show "good_history (\<lambda>q r. law q r \<and> answered parts r \<subseteq> ok) {}" by (simp add: good_history_def)
qed (fact assms)+

lemma step_keeps:
  assumes "lawful E law" "others \<subseteq> ok" "pkg_ok p" "daemonSetPermissionChecker rc = None"
    and "handlers_keep law parts ok p rc"
    and "operator_step p rc E s t" "versions s \<subseteq> ok"
  shows "versions t \<subseteq> ok"
  using assms(6,7)
proof (induction rule: operator_step.induct)
  case (reconcile req s tr oc t)
  show ?case
    by (rule handler_keeps [OF assms(1,2) reconcile(1) keeps_Reconcile [OF assms(3,4)] reconcile(2) handlers_keepD(1) [OF assms(5)]])
next
  case (csv_reconcile req s tr oc t)
  show ?case
    by (rule handler_keeps [OF assms(1,2) csv_reconcile(1) hwp_CSVReconcile csv_reconcile(2) handlers_keepD(2) [OF assms(5)]])
qed

lemma reachable_keeps:
  assumes "lawful E law" "others \<subseteq> ok" "pkg_ok p" "daemonSetPermissionChecker rc = None"
    and "handlers_keep law parts ok p rc"
    and "reachable p rc E s0 s" "versions s0 \<subseteq> ok"
  shows "versions s \<subseteq> ok"
  using assms(6,7)
proof (induction rule: reachable.induct)
  case start
  show ?case by (fact start)
next
  case (step s t)
  show ?case by (rule step_keeps [OF assms(1-5) step.hyps(2) step.IH [OF step.prems]])
qed

end

text \<open>
  A server that reads as asked: a \<open>Get\<close> is answered with the object of that kind and name, a \<open>List\<close>
  with objects of that kind, in that namespace, with those labels.
\<close>

fun placed_answer :: "request \<Rightarrow> response \<Rightarrow> bool" where
  "placed_answer (Get src k nm) (RObj ob) = stored_at k nm ob"
| "placed_answer (ListOf src k ns ls) (RList obs) = list_all (selected k ns ls) obs"
| "placed_answer _ _ = True"

locale placed_server = object_server +
  assumes placed: "E s q t r \<Longrightarrow> placed_answer q r"
begin

lemma placed_lawful: "lawful E placed_answer"
  unfolding lawful_def using placed by blast

lemmas placed_keeps = reachable_keeps [OF placed_lawful]

end

section \<open>The concrete server keeps the contract\<close>

text \<open>For every part that a write of a status or of the rest of an object takes from either side.\<close>

definition merged_by :: "(obj \<Rightarrow> 'x set) \<Rightarrow> (obj \<Rightarrow> obj \<Rightarrow> obj) \<Rightarrow> bool" where
  "merged_by parts f \<longleftrightarrow> (\<forall>old ob. same_place ob old \<longrightarrow> parts (f old ob) \<subseteq> parts old \<union> parts ob)"

lemma merged [intro]:
  assumes "mergeable parts"
  shows "merged_by parts spec_written" "merged_by parts status_written"
    "merged_by parts (\<lambda>old ob. if ob = orig then old else spec_written old ob)"
  using assms unfolding mergeable_def merged_by_def by auto

lemma store_keeps:
  assumes "merged_by parts f" "store f ob c = (r, c')" "x \<in> parts_of parts c'"
  shows "x \<in> parts_of parts c \<or> x \<in> parts ob"
proof -
  obtain ob' where ob': "ob' \<in> set c'" "x \<in> parts ob'"
    using assms(3) unfolding parts_of_def by blast
  from in_store [OF assms(2) this(1)] show ?thesis
  proof (elim disjE bexE)
    fix old assume old: "old \<in> set c" "same_place ob old \<and> ob' = f old ob"
    have "parts ob' \<subseteq> parts old \<union> parts ob"
      using assms(1) old(2) unfolding merged_by_def by blast
    then show ?thesis using ob'(2) old(1) unfolding parts_of_def by blast
  qed (use ob'(2) in \<open>auto simp: parts_of_def\<close>)
qed

lemma store_tells:
  assumes "store f ob c = (r, c')"
  shows "answered parts r \<subseteq> parts_of parts c'"
  using store_answer [OF assms] by (auto simp: parts_of_def not_found_def)

lemma cluster_stores:
  assumes "mergeable parts"
  shows "object_server cluster_env parts (parts_of parts) {}"
proof
  fix c q c' r
  assume step: "cluster_env c q c' r"
  then show "answered parts r \<subseteq> parts_of parts c'"
    by (cases "(c, q)" rule: cluster_step.cases)
       (auto simp: cluster_env_def not_found_def parts_of_def dest!: find_place store_tells [THEN subsetD]
         split: option.splits if_splits)
  have "x \<in> parts_of parts c \<or> x \<in> written parts q" if x: "x \<in> parts_of parts c'" for x
  proof -
    note merges = store_keeps [OF merged(1) [OF assms] _ x] store_keeps [OF merged(2) [OF assms] _ x]
      store_keeps [OF merged(3) [OF assms] _ x]
    show ?thesis
    proof (cases "\<exists>ob orig. q = Update ob \<or> q = Patch ob orig \<or> q = StatusUpdate ob \<or> q = StatusPatch ob orig")
      case True
      then show ?thesis using step by (auto simp: cluster_env_def dest!: merges)
    next
      case False
      then show ?thesis
        using step x
        by (cases q) (auto simp: cluster_env_def parts_of_def split: option.splits if_splits)
    qed
  qed
  then show "parts_of parts c' \<subseteq> parts_of parts c \<union> written parts q \<union> {}"
    by blast
qed

lemma cluster_places:
  assumes "cluster_env c q c' r"
  shows "placed_answer q r"
  using assms
  by (cases "(c, q)" rule: cluster_step.cases)
     (auto simp: cluster_env_def not_found_def stored_at_def list_all_iff dest!: find_place split: option.splits)

lemma cluster_placed:
  assumes "mergeable parts"
  shows "placed_server cluster_env parts (parts_of parts) {}"
  by (intro placed_server.intro cluster_stores assms placed_server_axioms.intro cluster_places)

section \<open>Steps that leave a part alone\<close>

text \<open>Objects of the kinds \<open>ks\<close> have no such part, so that a step that writes those kinds only leaves it alone.\<close>

definition absent_in :: "(obj \<Rightarrow> 'x set) \<Rightarrow> kind set \<Rightarrow> bool" where
  "absent_in parts ks \<longleftrightarrow> (\<forall>ob. obj_kind ob \<in> ks \<longrightarrow> parts ob = {})"

lemma absent_inD: "absent_in parts ks \<Longrightarrow> obj_kind ob \<in> ks \<Longrightarrow> parts ob = {}"
  unfolding absent_in_def by blast

abbreviation config_kinds :: "kind set" where
  "config_kinds \<equiv> {KConfigMap, KDeployment, KDaemonSet, KStatefulSet}"

lemma cleanup_leaves: "cleanup_request n C H q \<Longrightarrow> written parts q = {}"
  by (cases "is_write q") (auto simp: cleanup_request_def reads_write_nothing)

lemma restart_leaves: "absent_in parts config_kinds \<Longrightarrow> restart_request l cm ns H q \<Longrightarrow> written parts q = {}"
  by (cases "is_write q") (auto simp: restart_request_def Let_def absent_inD reads_write_nothing)

lemma config_leaves:
  assumes "absent_in parts config_kinds" "config_request n H q"
  shows "written parts q = {}"
proof (cases "is_write q")
  case True
  with assms(2) consider cm where "q = Create (OConfigMap cm) \<or> q = Update (OConfigMap cm)"
    | l cm where "restart_request l cm (nss_namespace n) H q"
    unfolding config_request_def by blast
  then show ?thesis
    using absent_inD [OF assms(1)] restart_leaves [OF assms(1)] by cases auto
qed (simp add: reads_write_nothing)

lemma push_leaves:
  assumes "absent_in parts {KRole, KRoleBinding}" "push_request n H q"
  shows "written parts q = {}"
proof (cases "is_write q")
  case True
  with assms(2) obtain ob where q: "q = Create ob \<or> q = Update ob" and "projected_object n H ob"
    unfolding push_request_def by blast
  then have "parts ob = {}"
    using absent_inD [OF assms(1), of ob] by (cases ob) (auto simp: projected_object_def)
  with q show ?thesis by auto
qed (simp add: reads_write_nothing)

lemma runtime_leaves: "absent_in parts {KRole, KRoleBinding} \<Longrightarrow> runtime_request n ms H q \<Longrightarrow> written parts q = {}"
  by (cases "is_write q") (auto simp: runtime_request_def absent_inD reads_write_nothing)

lemma status_leaves:
  "absent_in parts {KNss} \<Longrightarrow> status_request n H q \<Longrightarrow> written parts q = {}"
  "absent_in parts {KNss} \<Longrightarrow> unprojected_request n roles H q \<Longrightarrow> written parts q = {}"
  "absent_in parts {KNss} \<Longrightarrow> record_request k t ph er H q \<Longrightarrow> written parts q = {}"
  by (cases "is_write q", auto simp: status_request_def unprojected_request_def record_request_def absent_inD
      reads_write_nothing)+

section \<open>Statuses\<close>

text \<open>
  What every status of an instance should satisfy: history and timing are windows of three and five
  entries, and the unprojected roles are listed once each.
\<close>

definition status_ok :: "nss_status \<Rightarrow> bool" where
  "status_ok st \<longleftrightarrow> length (reconcileHistory st) \<le> 3 \<and> length (operationTiming st) \<le> 5 \<and>
     distinct (unprojectedRoles st)"

fun obj_statuses :: "obj \<Rightarrow> nss_status set" where
  "obj_statuses (ONss n) = {nssStatus n}"
| "obj_statuses _ = {}"

abbreviation ok_statuses :: "nss_status set" where
  "ok_statuses \<equiv> Collect status_ok"

abbreviation good_write :: "request \<Rightarrow> bool" where
  "good_write q \<equiv> written obj_statuses q \<subseteq> ok_statuses"

lemma answered_ok: "answers_in obj_statuses ok_statuses H \<Longrightarrow> (q, RObj (ONss n)) \<in> H \<Longrightarrow> status_ok (nssStatus n)"
  using answers_inD [of obj_statuses ok_statuses H q "RObj (ONss n)"] by simp

lemma known_ok: "answers_in obj_statuses ok_statuses H \<Longrightarrow> known_inst H n \<Longrightarrow> status_ok (nssStatus n)"
  unfolding known_inst_def using answered_ok by fastforce

lemma record_ok: "status_ok st \<Longrightarrow> status_ok (record_status s e ph er st)"
  by (auto simp: status_ok_def record_status_def Let_def length_new_history split: option.split)

lemma merge_ok: "status_ok st \<Longrightarrow> status_ok (merge_lists st x)"
  by (simp add: status_ok_def merge_lists_def)

lemma status_request_ok: "status_request n H q \<Longrightarrow> status_ok (nssStatus n) \<Longrightarrow> good_write q"
  by (cases "is_write q") (auto simp: status_request_def with_validated_def status_ok_def reads_write_nothing)

lemma unprojected_request_ok: "unprojected_request n roles H q \<Longrightarrow> status_ok (nssStatus n) \<Longrightarrow> good_write q"
  by (cases "is_write q")
     (auto simp: unprojected_request_def with_unprojected_def status_ok_def reads_write_nothing)

lemma statuses_absent: "absent_in obj_statuses config_kinds" "absent_in obj_statuses {KRole, KRoleBinding}"
  unfolding absent_in_def by (intro allI impI, rename_tac ob, case_tac ob; simp)+

lemma other_request_ok:
  "push_request n H q \<Longrightarrow> good_write q" "cleanup_request n C H q \<Longrightarrow> good_write q"
  "config_request n H q \<Longrightarrow> good_write q" "runtime_request n ms H q \<Longrightarrow> good_write q"
  using statuses_absent by (simp_all add: push_leaves cleanup_leaves config_leaves runtime_leaves)

lemma record_request_ok: "answers_in obj_statuses ok_statuses H \<Longrightarrow> record_request k t ph er H q \<Longrightarrow> good_write q"
  by (cases "is_write q") (auto simp: record_request_def reads_write_nothing intro!: record_ok dest: answered_ok)

lemma live_request_ok:
  assumes "answers_in obj_statuses ok_statuses H" "known_inst H n" "live_request p n H q"
  shows "good_write q"
proof -
  have ok: "status_ok (nssStatus n)" using known_ok assms(1,2) .
  from assms(3) show ?thesis
    unfolding live_request_def
  proof (elim disjE exE conjE)
    assume "q = Update (ONss (with_finalizer p n))"
    with ok show ?thesis by (simp add: with_finalizer_def)
  qed (erule status_request_ok [OF _ ok] unprojected_request_ok [OF _ ok] record_request_ok [OF assms(1)]
      other_request_ok)+
qed

lemma finalize_request_ok:
  assumes "status_ok (nssStatus n)" "finalize_request p n H q"
  shows "good_write q"
proof -
  have "good_write (Update (ONss (remove_finalizer p (setDefaults n))))"
    using assms(1) by (simp add: remove_finalizer_def Let_def)
  then show ?thesis
    using assms(2) unfolding finalize_request_def using other_request_ok(2,3) by blast
qed

text \<open>The two handlers write acceptable statuses only, when the ones they are told are acceptable.\<close>

lemma reconcile_request_ok:
  assumes "answers_in obj_statuses ok_statuses H" "reconcile_request p req H q"
  shows "good_write q"
proof (cases "is_write q")
  case True
  with assms(2) obtain n0 where n0: "(Get Cached KNss req, RObj (ONss n0)) \<in> H"
    and q: "if time_is_zero (omDeletionTimestamp (nssMeta n0)) then \<exists>n. known_inst H n \<and> live_request p n H q
      else finalize_request p n0 H q"
    unfolding reconcile_request_def by blast
  have ok: "status_ok (nssStatus n0)" using answered_ok [OF assms(1) n0] .
  show ?thesis
    using q live_request_ok [OF assms(1)] finalize_request_ok [OF ok] by (auto split: if_splits)
qed (simp add: reads_write_nothing)

lemma csv_request_ok:
  assumes "answers_in obj_statuses ok_statuses H" "csv_request p rc req H q"
  shows "good_write q"
proof (cases "is_write q")
  case True
  with assms(2) obtain n where n: "injector_on rc req H n" and q:
    "(\<exists>k mk wc'. q = Update (mk wc') \<and>
       (k, mk) \<in> {(KMutatingWebhook, OMutatingWebhook), (KValidatingWebhook, OValidatingWebhook)}) \<or>
     (\<exists>c ds. q = Patch (OCsv (c\<lparr>csvDeployments := ds\<rparr>)) (OCsv c)) \<or>
     (\<exists>st. q = StatusPatch (ONss ((setDefaults n)\<lparr>nssStatus := merge_lists (nssStatus n) st\<rparr>)) (ONss n))"
    unfolding csv_request_def owned_config_def by blast
  have "status_ok (nssStatus n)"
    using n answered_ok [OF assms(1)] unfolding injector_on_def by blast
  with q show ?thesis by (auto intro: merge_ok)
qed (simp add: reads_write_nothing)

lemma statuses_kept: "handlers_keep (\<lambda>_ _. True) obj_statuses ok_statuses p rc"
  unfolding handlers_keep_def using reconcile_request_ok csv_request_ok by blast

interpretation statuses: object_server cluster_env obj_statuses "parts_of obj_statuses" "{}"
proof (rule cluster_stores)
  have "obj_statuses (spec_written old ob) \<union> obj_statuses (status_written old ob) \<subseteq> obj_statuses old \<union> obj_statuses ob"
    for old ob
    by (cases "(old, ob)" rule: spec_written.cases) auto
  then show "mergeable obj_statuses" by (simp add: mergeable_def)
qed

section \<open>The property\<close>

text \<open>
  C13: the statuses stay within bounds for ever. In every state the operator can reach by any number
  of runs of its two handlers, completed or cut off by a panic, against any API server that tells
  statuses it was given (stale ones included) and with other clients writing in between, every
  status has at most three lines of history, at most five entries of timing, and lists no
  unprojected role twice, if that held at the start and the others keep to it.
\<close>

theorem statuses_bounded:
  assumes "object_server E obj_statuses versions others" "\<forall>st \<in> others. status_ok st"
    and "pkg_ok p" "daemonSetPermissionChecker rc = None"
    and "reachable p rc E s0 s" "\<forall>st \<in> versions s0. status_ok st"
  shows "\<forall>st \<in> versions s. status_ok st"
  using object_server.reachable_keeps [OF assms(1) lawful_any _ assms(3,4) statuses_kept assms(5)] assms(2,6) by blast

theorem statuses_bounded_witness:
  "\<exists>tr oc t. runs cluster_env (Reconcile std_pkg sample_reconciler (nss_key sample_nss)) sample_cluster tr oc t \<and>
     list_all (\<lambda>n. status_ok (nssStatus n)) (List.map_filter the_nss t)"
proof -
  obtain tr oc t where run: "runs cluster_env (Reconcile std_pkg sample_reconciler (nss_key sample_nss)) sample_cluster tr oc t"
    using cluster_runs by blast
  then have "reachable std_pkg sample_reconciler cluster_env sample_cluster t"
    by (intro step [OF start] reconcile)
  from statuses_bounded [OF statuses.object_server_axioms _ std_pkg_ok _ this]
  have "\<forall>st \<in> parts_of obj_statuses t. status_ok st"
    by (simp add: sample_reconciler_def sample_cluster_def parts_of_def sample_nss_def status_ok_def)
  then have "status_ok (nssStatus n)" if "ONss n \<in> set t" for n
    using that unfolding parts_of_def by fastforce
  moreover have "ONss n \<in> set t" if "n \<in> set (List.map_filter the_nss t)" for n
    using that by (induction t) (auto simp: map_filter_simps elim!: the_nss.elims split: option.splits)
  ultimately have "list_all (\<lambda>n. status_ok (nssStatus n)) (List.map_filter the_nss t)"
    by (simp add: list_all_iff)
  with run show ?thesis by blast
qed

end
