(* ===== verification/Role_Authority.thy ===== *)
theory Role_Authority
  imports Operator_Runs Sample_Run
begin

text \<open>
  The authority that Roles and RoleBindings give out, over the whole life of the operator. A Role
  allows requests in its namespace, under its name; a RoleBinding ties a subject to the Role or
  ClusterRole it refers to, in its namespace; and an instance is what lets authority pass from its
  own namespace to a member. The closure of a collection of authority under the three ways in which
  the operator passes it on is an inductive definition; the property is that nothing beyond this
  closure ever comes to be.
\<close>

section \<open>Authority\<close>

text \<open>
  In a namespace, a Role of some name allows a request; in a namespace, a subject is bound by a
  reference, kind and API group included; an instance of one namespace has another as a member,
  listed or validated.
\<close>

datatype authority = Allows string string attributes | Binds string subject role_ref | Scopes string string

fun authority_of :: "obj \<Rightarrow> authority set" where
  "authority_of (ORole r) =
     (if omNamespace (roleMeta r) = [] then {}
      else Allows (omNamespace (roleMeta r)) (omName (roleMeta r)) ` {a. rules_allow (roleRules r) a})"
| "authority_of (ORoleBinding b) =
     (if omNamespace (rbMeta b) = [] then {}
      else (\<lambda>s. Binds (omNamespace (rbMeta b)) s (rbRoleRef b)) ` set (rbSubjects b))"
| "authority_of (ONss n) =
     Scopes (nss_namespace n) ` (set (namespaceMembers (spec n)) \<union> set (validatedMembers (nssStatus n)))"
| "authority_of _ = {}"

abbreviation account :: "string \<Rightarrow> string \<Rightarrow> subject" where
  "account sa ns \<equiv> \<lparr>sbKind = ''ServiceAccount'', sbName = sa, sbNamespace = ns\<rparr>"

abbreviation role_called :: "string \<Rightarrow> role_ref" where
  "role_called nm \<equiv> \<lparr>rrKind = ''Role'', rrName = nm, rrAPIGroup = ''rbac.authorization.k8s.io''\<rparr>"

text \<open>
  How authority may spread from what there is. \<open>copied\<close>: a Role of a namespace is copied to a member,
  under the projected name, with some of the requests it allows, when a service account of that
  namespace is bound to a role of this name. \<open>bound\<close>: the same service account is bound, in the member, to
  the Role of the projected name. \<open>runtime\<close>: what any Role of a member allows may be in the member's
  runtime Role, which nobody is bound to.
\<close>

inductive spread :: "authority set \<Rightarrow> authority \<Rightarrow> bool" for G where
  given: "x \<in> G \<Longrightarrow> spread G x"
| copied: "spread G (Scopes f t) \<Longrightarrow> spread G (Binds f (account sa f) ref) \<Longrightarrow> spread G (Allows f (rrName ref) a) \<Longrightarrow>
     spread G (Allows t (projected_name (rrName ref) sa f) a)"
| bound: "spread G (Scopes f t) \<Longrightarrow> spread G (Binds f (account sa f) ref) \<Longrightarrow>
     spread G (Binds t (account sa f) (role_called (projected_name (rrName ref) sa f)))"
| runtime: "spread G (Scopes f t) \<Longrightarrow> spread G (Allows t rn a) \<Longrightarrow> spread G (Allows t (NamespaceScopeRuntimePrefix @ f) a)"

inductive_cases spread_ScopesE: "spread G (Scopes f t)"

abbreviation reach :: "authority set \<Rightarrow> authority set" where
  "reach G \<equiv> Collect (spread G)"

text \<open>Instances live in a namespace, and no step of the closure makes an instance.\<close>

definition scopes_placed :: "authority set \<Rightarrow> bool" where
  "scopes_placed G \<longleftrightarrow> (\<forall>t. Scopes [] t \<notin> G)"

lemma scopes_placedD: "scopes_placed G \<Longrightarrow> spread G (Scopes f t) \<Longrightarrow> f \<noteq> []"
  unfolding scopes_placed_def by (blast elim: spread_ScopesE)

abbreviation within :: "authority set \<Rightarrow> request \<Rightarrow> bool" where
  "within G q \<equiv> written authority_of q \<subseteq> reach G"

text \<open>What the handlers were told: authority within the closure, by a server that reads as asked.\<close>

definition told :: "authority set \<Rightarrow> history \<Rightarrow> bool" where
  "told G H \<longleftrightarrow> scopes_placed G \<and> good_history placed_answer H \<and> answers_in authority_of (reach G) H"

lemma told_answer: "told G H \<Longrightarrow> (q, r) \<in> H \<Longrightarrow> answered authority_of r \<subseteq> reach G"
  unfolding told_def by (blast dest: answers_inD)

lemma told_placed: "told G H \<Longrightarrow> (q, r) \<in> H \<Longrightarrow> placed_answer q r"
  unfolding told_def good_history_def by blast

section \<open>What was read\<close>

lemma read_allows:
  assumes "told G H" "role_read H (f, rn) r" "f \<noteq> []" "rules_allow (roleRules r) a"
  shows "spread G (Allows f rn a)"
proof -
  have read: "(Get Live KRole (f, rn), RObj (ORole r)) \<in> H" using assms(2) by (simp add: role_read_def)
  have "stored_at KRole (f, rn) (ORole r)" using told_placed [OF assms(1) read] by simp
  then have "omNamespace (roleMeta r) = f" "omName (roleMeta r) = rn" by (simp_all add: stored_at_def meta_key_def)
  then show ?thesis using told_answer [OF assms(1) read] assms(3,4) by auto
qed

lemma read_binds:
  assumes "told G H" "bound_in H sa f rn" "f \<noteq> []"
  obtains ref where "rrName ref = rn" "spread G (Binds f (account sa f) ref)"
proof -
  obtain obs rb s where listed: "(ListOf Live KRoleBinding f [], RList obs) \<in> H" "ORoleBinding rb \<in> set obs"
    and rb: "rrName (rbRoleRef rb) = rn"
    and s: "s \<in> set (rbSubjects rb)" "sbName s = sa" "sbKind s = ''ServiceAccount''" "sbNamespace s = f"
    using assms(2) unfolding bound_in_def binds_def by blast
  have "selected KRoleBinding f [] (ORoleBinding rb)"
    using told_placed [OF assms(1) listed(1)] listed(2) by (simp add: list_all_iff)
  then have ns: "omNamespace (rbMeta rb) = f" using assms(3) by (simp add: selected_def)
  have "s = account sa f" using s by simp
  then have "Binds f (account sa f) (rbRoleRef rb) \<in> authority_of (ORoleBinding rb)" using s(1) ns assms(3) by auto
  then have "spread G (Binds f (account sa f) (rbRoleRef rb))"
    using told_answer [OF assms(1) listed(1)] listed(2) by force
  with rb show ?thesis by (rule that)
qed

text \<open>An instance that was answered, defaults or not, gives its members.\<close>

lemma authority_defaults [simp]: "authority_of (ONss (setDefaults n)) = authority_of (ONss n)"
  by (simp add: setDefaults_def default_spec_def Let_def)

lemma answered_within: "told G H \<Longrightarrow> (q, RObj ob) \<in> H \<Longrightarrow> authority_of ob \<subseteq> reach G"
  using told_answer by fastforce

lemma known_within:
  assumes "told G H" "known_inst H n"
  shows "authority_of (ONss n) \<subseteq> reach G"
proof -
  obtain w m where m: "(w, RObj (ONss m)) \<in> H" "n = m \<or> n = setDefaults m"
    using assms(2) unfolding known_inst_def by blast
  have "authority_of (ONss n) = authority_of (ONss m)" using m(2) authority_defaults by blast
  then show ?thesis using answered_within [OF assms(1) m(1)] by (simp only:)
qed

section \<open>What is written\<close>

text \<open>A projection is made for an instance with members within the closure.\<close>

lemma projected_object_within:
  assumes "told G H" "authority_of (ONss n) \<subseteq> reach G" "projected_object n H ob"
  shows "authority_of ob \<subseteq> reach G"
proof -
  let ?f = "nss_namespace n"
  obtain t sa rn where t: "projection_target n H t" and bound_in: "bound_in H sa ?f rn"
    and ob: "case ob of ORole r \<Rightarrow> role_grounds H (projected_labels n) sa ?f t rn r
      | ORoleBinding b \<Rightarrow> b = projected_binding rn (projected_labels n) sa ?f t | _ \<Rightarrow> False"
    using assms(3) unfolding projected_object_def by blast
  have scopes: "spread G (Scopes ?f t)"
    using assms(2) t unfolding projection_target_def by auto
  have placed: "?f \<noteq> []"
    using assms(1) scopes_placedD [OF _ scopes] unfolding told_def by blast
  obtain ref where ref: "rrName ref = rn" "spread G (Binds ?f (account sa ?f) ref)"
    using read_binds [OF assms(1) bound_in placed] .
  show ?thesis
  proof (cases ob)
    case (ORole r)
    with ob obtain src ms where src: "role_read H (?f, rn) src"
      and r: "r = projected_role rn (projected_labels n) sa ?f t (fst (rulesFilter rn ?f t (roleRules src) ms))"
      unfolding role_grounds_def by auto
    have "spread G (Allows t (projected_name rn sa ?f) a)" if "rules_allow (roleRules r) a" for a
    proof -
      have "rules_allow (roleRules src) a"
        using that rulesFilter_sound [of rn ?f t "roleRules src" ms a] by (simp add: r projected_role_def)
      from copied [OF scopes ref(2)] read_allows [OF assms(1) src placed this] show ?thesis by (simp only: ref(1))
    qed
    then show ?thesis by (auto simp: ORole r projected_role_def new_meta_def)
  next
    case (ORoleBinding b)
    from bound [OF scopes ref(2)] ob show ?thesis
      by (auto simp: ORoleBinding ref(1) projected_binding_def new_meta_def Let_def)
  qed (use ob in simp_all)
qed

text \<open>The rules of a runtime Role are those of the Roles it summarizes.\<close>

lemma set_summarize_rules: "set (summarize_rules rs acc) \<subseteq> set acc \<union> (\<Union>r \<in> set rs. set (roleRules r))"
  by (induction rs acc rule: summarize_rules.induct) auto

lemma runtime_role_within:
  assumes "told G H" "runtime_rules n H t rules" "spread G (Scopes f t)"
  shows "authority_of (ORole (runtime_role rules f t)) \<subseteq> reach G"
proof (cases "t = []")
  case False
  obtain r roles where listed: "(ListOf Live KRole t [], r) \<in> H" "as_list the_role r = Inr roles"
    and rules: "rules = summarize_rules (filter (labelled_for n) roles) []"
    using assms(2) unfolding runtime_rules_def by blast
  obtain obs where obs: "r = RList obs" "\<And>x. x \<in> set roles \<Longrightarrow> \<exists>ob \<in> set obs. the_role ob = Some x"
    using as_list_InrE [OF listed(2)] by blast
  have "spread G (Allows t (NamespaceScopeRuntimePrefix @ f) a)"
    if allows: "rule_allows rule a" and rule: "rule \<in> set rules" for rule a
  proof -
    obtain x where x: "x \<in> set roles" "rule \<in> set (roleRules x)"
      using rule set_summarize_rules [of "filter (labelled_for n) roles" "[]"] unfolding rules by auto
    obtain ob where ob: "ob \<in> set obs" "the_role ob = Some x" using obs(2) [OF x(1)] by blast
    have role: "ob = ORole x" using ob(2) by (cases ob) simp_all
    have "selected KRole t [] ob"
      using told_placed [OF assms(1) listed(1)] ob(1) by (simp add: obs(1) list_all_iff)
    then have ns: "omNamespace (roleMeta x) = t" using False by (simp add: selected_def role)
    have "rules_allow (roleRules x) a" using allows x(2) unfolding rules_allow_def by blast
    then have "Allows t (omName (roleMeta x)) a \<in> authority_of ob" using False by (simp add: role ns)
    then have "spread G (Allows t (omName (roleMeta x)) a)"
      using told_answer [OF assms(1) listed(1)] ob(1) unfolding obs(1) by auto
    with assms(3) show ?thesis by (rule runtime)
  qed
  then show ?thesis by (auto simp: runtime_role_def new_meta_def rules_allow_def)
qed (simp add: runtime_role_def new_meta_def)

section \<open>The steps\<close>

lemma push_request_within:
  assumes "told G H" "authority_of (ONss n) \<subseteq> reach G" "push_request n H q"
  shows "within G q"
proof (cases "is_write q")
  case True
  with assms(3) obtain ob where q: "q = Create ob \<or> q = Update ob" "projected_object n H ob"
    unfolding push_request_def by blast
  from projected_object_within [OF assms(1,2) q(2)] q(1) show ?thesis by auto
qed (simp add: reads_write_nothing)

lemma runtime_request_within:
  assumes "told G H" "authority_of (ONss n) \<subseteq> reach G" "runtime_request n (namespaceMembers (spec n)) H q"
  shows "within G q"
proof (cases "is_write q")
  case True
  with assms(3) obtain t rules where q: "q = Create (ORole (runtime_role rules (nss_namespace n) t)) \<or>
      q = Update (ORole (runtime_role rules (nss_namespace n) t))" "runtime_rules n H t rules"
    and t: "t \<in> set (namespaceMembers (spec n))"
    unfolding runtime_request_def by blast
  have "spread G (Scopes (nss_namespace n) t)" using assms(2) t by auto
  from runtime_role_within [OF assms(1) q(2) this] q(1) show ?thesis by auto
qed (simp add: reads_write_nothing)

text \<open>A status lists validated members only, and the other writes of an instance keep its members.\<close>

lemma status_request_within:
  assumes "authority_of (ONss n) \<subseteq> reach G" "status_request n H q"
  shows "within G q"
proof (cases "is_write q")
  case True
  with assms(2) obtain xs where q: "q = StatusUpdate (ONss (with_validated n xs))" "members_validated n H xs"
    unfolding status_request_def by blast
  have "set xs \<subseteq> set (namespaceMembers (spec n))"
    using q(2) validated_subset unfolding members_validated_def by blast
  with assms(1) show ?thesis by (auto simp: q(1) with_validated_def)
qed (simp add: reads_write_nothing)

lemma unprojected_request_within:
  assumes "authority_of (ONss n) \<subseteq> reach G" "unprojected_request n roles H q"
  shows "within G q"
proof (cases "is_write q")
  case True
  with assms(2) obtain xs where "q = StatusUpdate (ONss (with_unprojected n xs))"
    unfolding unprojected_request_def by blast
  with assms(1) show ?thesis by (simp add: with_unprojected_def)
qed (simp add: reads_write_nothing)

lemma record_status_members [simp]: "validatedMembers (record_status s e ph er st) = validatedMembers st"
  by (auto simp: record_status_def Let_def split: option.split)

lemma record_request_within:
  assumes "told G H" "record_request k s ph er H q"
  shows "within G q"
proof (cases "is_write q")
  case True
  with assms(2) obtain latest endT where
    q: "q = StatusUpdate (ONss (latest\<lparr>nssStatus := record_status s endT ph er (nssStatus latest)\<rparr>))"
    and latest: "(Get Cached KNss k, RObj (ONss latest)) \<in> H"
    unfolding record_request_def by blast
  from answered_within [OF assms(1) latest] show ?thesis by (simp add: q)
qed (simp add: reads_write_nothing)

text \<open>The other steps write neither Roles nor RoleBindings nor instances.\<close>

lemma authority_absent: "absent_in authority_of config_kinds"
  unfolding absent_in_def by (intro allI impI, rename_tac ob, case_tac ob; simp)+

lemma other_request_within:
  "cleanup_request n C H q \<Longrightarrow> within G q" "config_request n H q \<Longrightarrow> within G q"
  using authority_absent by (simp_all add: cleanup_leaves config_leaves)

lemma finalizer_keeps_members [simp]:
  "authority_of (ONss (with_finalizer p n)) = authority_of (ONss n)"
  "authority_of (ONss (remove_finalizer p n)) = authority_of (ONss n)"
  by (simp_all add: with_finalizer_def remove_finalizer_def Let_def)

lemma live_request_within:
  assumes "told G H" "known_inst H n" "live_request p n H q"
  shows "within G q"
proof -
  note known = known_within [OF assms(1,2)]
  from assms(3) show ?thesis
    unfolding live_request_def
  proof (elim disjE exE conjE)
    assume "q = Update (ONss (with_finalizer p n))"
    then have "written authority_of q = authority_of (ONss n)"
      by (simp only: written.simps finalizer_keeps_members)
    with known show ?thesis by (simp only:)
  qed (erule status_request_within [OF known] push_request_within [OF assms(1) known]
      unprojected_request_within [OF known] other_request_within
      runtime_request_within [OF assms(1) known] record_request_within [OF assms(1)])+
qed

lemma finalize_request_within:
  assumes "authority_of (ONss n) \<subseteq> reach G" "finalize_request p n H q"
  shows "within G q"
  using assms(2) unfolding finalize_request_def
proof (elim disjE conjE)
  assume "q = Update (ONss (remove_finalizer p (setDefaults n)))"
  then have "written authority_of q = authority_of (ONss n)"
    by (simp only: written.simps finalizer_keeps_members authority_defaults)
  with assms(1) show ?thesis by (simp only:)
qed (erule other_request_within)+

lemma reconcile_request_within:
  assumes "told G H" "reconcile_request p req H q"
  shows "within G q"
proof (cases "is_write q")
  case True
  with assms(2) obtain n0 where n0: "(Get Cached KNss req, RObj (ONss n0)) \<in> H"
    and q: "if time_is_zero (omDeletionTimestamp (nssMeta n0))
      then \<exists>n. known_inst H n \<and> live_request p n H q else finalize_request p n0 H q"
    unfolding reconcile_request_def by blast
  show ?thesis
    using q live_request_within [OF assms(1)] finalize_request_within [OF answered_within [OF assms(1) n0]]
    by (cases "time_is_zero (omDeletionTimestamp (nssMeta n0))") (simp_all only: if_True if_False, blast+)
qed (simp add: reads_write_nothing)

lemma csv_request_within:
  assumes "told G H" "csv_request p rc req H q"
  shows "within G q"
proof (cases "is_write q")
  case True
  with assms(2) obtain n where n: "injector_on rc req H n" and q:
    "(\<exists>k mk wc'. q = Update (mk wc') \<and>
       (k, mk) \<in> {(KMutatingWebhook, OMutatingWebhook), (KValidatingWebhook, OValidatingWebhook)}) \<or>
     (\<exists>c ds. q = Patch (OCsv (c\<lparr>csvDeployments := ds\<rparr>)) (OCsv c)) \<or>
     (\<exists>st. q = StatusPatch (ONss ((setDefaults n)\<lparr>nssStatus := merge_lists (nssStatus n) st\<rparr>)) (ONss n))"
    unfolding csv_request_def owned_config_def by blast
  have read: "authority_of (ONss n) \<subseteq> reach G"
    using n answered_within [OF assms(1)] unfolding injector_on_def by blast
  have "authority_of (ONss ((setDefaults n)\<lparr>nssStatus := merge_lists (nssStatus n) st\<rparr>)) = authority_of (ONss n)" for st
    by (simp add: setDefaults_def default_spec_def merge_lists_def Let_def)
  with q read show ?thesis
    by (elim disjE exE conjE) (auto simp only: written.simps authority_of.simps insert_iff empty_iff prod.inject)
qed (simp add: reads_write_nothing)

text \<open>The closure is closed under the handlers.\<close>

lemma authority_kept:
  assumes "scopes_placed G"
  shows "handlers_keep placed_answer authority_of (reach G) p rc"
  unfolding handlers_keep_def
proof (intro allI impI, goal_cases)
  case (1 req H q)
  with assms have "told G H" by (simp add: told_def)
  with 1(3) show ?case using reconcile_request_within csv_request_within by blast
qed

interpretation authority: placed_server cluster_env authority_of "parts_of authority_of" "{}"
proof (rule cluster_placed)
  have "authority_of (spec_written old ob) \<union> authority_of (status_written old ob) \<subseteq> authority_of old \<union> authority_of ob"
    if "same_place ob old" for old ob
    using that by (cases "(old, ob)" rule: spec_written.cases) (auto simp: stored_at_def meta_key_def)
  then show "mergeable authority_of" by (simp add: mergeable_def)
qed

section \<open>The property\<close>

text \<open>
  C6: authority follows the scopes. In every state that the operator can reach by any number of runs
  of its two handlers, for any instances, with any schedule, stale answers included, and with other
  clients writing in between, what the Roles allow, whom the RoleBindings bind to what, and which
  members the instances have lies in the closure of what there was at the start and what the others
  wrote: a request that a Role allows in a namespace was allowed there under that name, or the Role is
  the projection, from a namespace that an instance scopes to this one, of a Role a service account
  was bound to there, which allowed the request, or it is the runtime Role, and a Role of the same
  namespace allowed the request; a subject bound in a namespace was bound there by that very
  reference, or it is a service account bound in the namespace it is projected from, and the
  reference is to the Role with the projected name, never to a ClusterRole.
\<close>

theorem authority_follows_scopes:
  assumes "placed_server E authority_of versions others"
    and "scopes_placed (versions s0 \<union> others)"
    and "pkg_ok p" "daemonSetPermissionChecker rc = None" "reachable p rc E s0 s"
  shows "versions s \<subseteq> {x. spread (versions s0 \<union> others) x}"
proof -
  have "others \<subseteq> reach (versions s0 \<union> others)" "versions s0 \<subseteq> reach (versions s0 \<union> others)"
    by (auto intro: given)
  with placed_server.placed_keeps [OF assms(1) _ assms(3,4) authority_kept [OF assms(2)] assms(5)]
  show ?thesis by blast
qed

text \<open>
  On the concrete server: the run of \<open>Sample_Run\<close>, which starts with a Role and a binding in the
  namespace of the instance, and ends with their projections and with a runtime Role in the member.
\<close>

lemma sample_scopes_placed: "scopes_placed (parts_of authority_of (sample_world sample_nss))"
  by (simp add: scopes_placed_def parts_of_def sample_world_def sample_nss_def new_meta_def image_iff)

theorem authority_follows_scopes_witness:
  "\<exists>tr. runs cluster_env (Reconcile std_pkg sample_reconciler (nss_key sample_nss)) (sample_world sample_nss) tr
       (Done (Inr 60)) (sample_world sample_done @ sample_made) \<and>
     parts_of authority_of (sample_world sample_done @ sample_made)
       \<subseteq> {x. spread (parts_of authority_of (sample_world sample_nss)) x}"
proof -
  obtain tr where run: "runs cluster_env (Reconcile std_pkg sample_reconciler (nss_key sample_nss)) (sample_world sample_nss) tr
      (Done (Inr 60)) (sample_world sample_done @ sample_made)"
    using sample_run_of_Reconcile by blast
  then have "reachable std_pkg sample_reconciler cluster_env (sample_world sample_nss) (sample_world sample_done @ sample_made)"
    by (intro step [OF start] reconcile)
  moreover have "daemonSetPermissionChecker sample_reconciler = None" by (simp add: sample_reconciler_def)
  ultimately have "parts_of authority_of (sample_world sample_done @ sample_made)
      \<subseteq> {x. spread (parts_of authority_of (sample_world sample_nss) \<union> {}) x}"
    using authority_follows_scopes [OF authority.placed_server_axioms _ std_pkg_ok] sample_scopes_placed by simp
  with run show ?thesis by auto
qed

end
