(* ===== verification/Setup_Properties.thy ===== *)
theory Setup_Properties
  imports Rbac_Properties Rbac_Cleanup Operator_Setup
begin

text \<open>
  The start of the operator: what \<open>main\<close> asks for and in which order, and how the cache it sets up
  and the labels the operator writes fit together.
\<close>

section \<open>The order of the start\<close>

definition acknowledged :: "history \<Rightarrow> request \<Rightarrow> bool" where
  "acknowledged H q \<longleftrightarrow> (\<exists>r. (q, r) \<in> H \<and> as_unit r = Inr ())"

text \<open>
  The options of a manager for one namespace: the flags, and a cache that sees no object of a
  namespaced kind outside it.
\<close>

definition options_for :: "flags \<Rightarrow> string \<Rightarrow> manager_options \<Rightarrow> bool" where
  "options_for fl ns opts \<longleftrightarrow>
     moHealthProbeBindAddress opts = probeAddr fl \<and> moLeaderElection opts = enableLeaderElection fl \<and>
     (\<forall>k n lbls. namespaced k \<longrightarrow> cached (moCache opts) k n lbls \<longrightarrow> n = ns)"

definition scoped_manager :: "flags \<Rightarrow> history \<Rightarrow> manager_options \<Rightarrow> bool" where
  "scoped_manager fl H opts \<longleftrightarrow> (\<exists>ns. operator_namespace_read H ns \<and> ns \<noteq> [] \<and> options_for fl ns opts)"

definition manager_made :: "flags \<Rightarrow> history \<Rightarrow> bool" where
  "manager_made fl H \<longleftrightarrow> (\<exists>opts. scoped_manager fl H opts \<and> acknowledged H (NewManager opts))"

text \<open>Both controllers, the second with the CSV watch exactly when the OLM API was discovered.\<close>

definition olm_answered :: "history \<Rightarrow> bool" where
  "olm_answered H \<longleftrightarrow> acknowledged H NewDiscoveryClient \<and> acknowledged H (ServerResources olm_group_version)"

text \<open>
  The second controller watches the webhook configurations, and CSVs when asked to; it filters
  the events of an instance by their generation.
\<close>

definition csv_watches :: "bool \<Rightarrow> watch list" where
  "csv_watches olm = [For KNss GenerationChanged] @ (if olm then [Watches KCsv PredicateFuncs] else []) @
     [Watches KValidatingWebhook PredicateFuncs, Watches KMutatingWebhook PredicateFuncs]"

definition controllers_built :: "history \<Rightarrow> bool \<Rightarrow> bool" where
  "controllers_built H olm \<longleftrightarrow>
     acknowledged H (BuildController ''NamespaceScope contorller''
       [Owns KConfigMap AllEvents, For KNss AllEvents] RunReconcile) \<and>
     acknowledged H (BuildController ''NamespaceScope CSV contorller'' (csv_watches olm) RunCSVReconcile) \<and>
     (olm \<longrightarrow> olm_answered H)"

definition start_request :: "flags \<Rightarrow> history \<Rightarrow> request \<Rightarrow> bool" where
  "start_request fl H q \<longleftrightarrow> (case q of
       NewManager opts \<Rightarrow> scoped_manager fl H opts
     | BuildController nm ws run \<Rightarrow> manager_made fl H
     | StartManager \<Rightarrow>
         manager_made fl H \<and> (\<exists>olm. controllers_built H olm) \<and>
         acknowledged H (AddHealthzCheck ''healthz'') \<and> acknowledged H (AddReadyzCheck ''readyz'')
     | _ \<Rightarrow> \<not> is_write q)"

definition exit_code :: "history \<Rightarrow> nat outcome \<Rightarrow> bool" where
  "exit_code H oc \<longleftrightarrow> oc = Done (if acknowledged H StartManager then 0 else 1)"

lemma acknowledged_mono: "acknowledged H q \<Longrightarrow> H \<subseteq> H' \<Longrightarrow> acknowledged H' q"
  unfolding acknowledged_def by blast

lemma acknowledged_insert [simp]:
  "acknowledged (insert (q, r) H) q' \<longleftrightarrow> q = q' \<and> as_unit r = Inr () \<or> acknowledged H q'"
  unfolding acknowledged_def by blast

lemma manager_made_mono: "manager_made fl H \<Longrightarrow> H \<subseteq> H' \<Longrightarrow> manager_made fl H'"
  unfolding manager_made_def scoped_manager_def using acknowledged_mono operator_namespace_read_mono by meson

lemma NewNSSCache_scoped: "ns \<noteq> [] \<Longrightarrow> namespaced k \<Longrightarrow> cached (moCache (NewNSSCache [ns] opts)) k n lbls \<Longrightarrow> n = ns"
  by (simp add: NewNSSCache_def Let_def cached_def)

lemma NewNSSCache_keeps [simp]:
  "moHealthProbeBindAddress (NewNSSCache nss opts) = moHealthProbeBindAddress opts"
  "moLeaderElection (NewNSSCache nss opts) = moLeaderElection opts"
  by (simp_all add: NewNSSCache_def Let_def)

lemma hwp_or_exit [proc_simps]:
  "hwp P S Q (or_exit p f) H =
     hwp P S (\<lambda>H. and_then (Q H)
       (\<lambda>x. case x of Inl e \<Rightarrow> Q H (Done 1) | Inr a \<Rightarrow> hwp P S Q (f a) H)) p H"
proof -
  have "hwp P S Q (case x of Inl e \<Rightarrow> Ret 1 | Inr a \<Rightarrow> f a) H =
        (case x of Inl e \<Rightarrow> Q H (Done 1) | Inr a \<Rightarrow> hwp P S Q (f a) H)" for x :: "err + _" and H
    by (simp split: sum.split)
  then show ?thesis
    by (simp only: or_exit_def hwp_bind)
qed

definition unstarted :: "history \<Rightarrow> bool" where
  "unstarted H \<longleftrightarrow> (\<forall>r. (StartManager, r) \<notin> H)"

lemma unstarted_insert [simp]: "unstarted (insert (q, r) H) \<longleftrightarrow> q \<noteq> StartManager \<and> unstarted H"
  by (auto simp: unstarted_def)

lemma unstarted_exit: "unstarted H \<Longrightarrow> exit_code H (Done 1)"
  by (auto simp: exit_code_def unstarted_def acknowledged_def)

lemma hwp_detectOLMAPI:
  assumes "\<And>H q. q \<noteq> StartManager \<Longrightarrow> (\<forall>nm ws run. q \<noteq> BuildController nm ws run) \<Longrightarrow> (\<forall>opts. q \<noteq> NewManager opts) \<Longrightarrow>
      \<not> is_write q \<Longrightarrow> P H q"
    and "\<And>H' olm. H \<subseteq> H' \<Longrightarrow> unstarted H \<Longrightarrow> unstarted H' \<Longrightarrow> (olm \<Longrightarrow> olm_answered H') \<Longrightarrow> Q H' (Done olm)"
    and "unstarted H"
  shows "hwp P S Q detectOLMAPI H"
  using assms(3)
  by (auto simp: detectOLMAPI_def proc_simps olm_answered_def split: sum.split intro!: assms(1,2))

lemma hwp_SetupWithManager:
  assumes "manager_made fl H" "unstarted H"
    and "\<And>H' e. H \<subseteq> H' \<Longrightarrow> unstarted H' \<Longrightarrow> Q H' (Done (Inl e))"
    and "\<And>H' rc'. H \<subseteq> H' \<Longrightarrow> unstarted H' \<Longrightarrow> controllers_built H' (hasOLMAPI rc') \<Longrightarrow> Q H' (Done (Inr rc'))"
  shows "hwp (start_request fl) S Q (SetupWithManager rc) H"
proof -
  let ?b1 = "BuildController ''NamespaceScope contorller'' [Owns KConfigMap AllEvents, For KNss AllEvents] RunReconcile"
  let ?b2 = "\<lambda>olm. BuildController ''NamespaceScope CSV contorller'' (csv_watches olm) RunCSVReconcile"
  have build: "start_request fl H' (BuildController nm ws run)" if "H \<subseteq> H'" for H' nm ws run
    using manager_made_mono [OF assms(1) that] by (simp add: start_request_def)
  have second: "hwp (start_request fl) S Q
      (go_try (call (?b2 olm) as_unit) (\<lambda>_. Ret (Inr (rc\<lparr>hasOLMAPI := olm\<rparr>)))) H'"
    if "H \<subseteq> H'" "unstarted H'" "acknowledged H' ?b1" "olm \<Longrightarrow> olm_answered H'" for olm H'
    unfolding hwp_go_try hwp_call and_then_simps
    using that
    by (auto simp: controllers_built_def olm_answered_def split: sum.split intro!: build assms(3,4))
  have olm: "hwp (start_request fl) S Q (bind detectOLMAPI (\<lambda>olm.
      go_try (call (?b2 olm) as_unit) (\<lambda>_. Ret (Inr (rc\<lparr>hasOLMAPI := olm\<rparr>))))) H'"
    if "H \<subseteq> H'" "unstarted H'" "acknowledged H' ?b1" for H'
    unfolding hwp_bind
  proof (rule hwp_detectOLMAPI)
    fix H2 olm
    assume "H' \<subseteq> H2" "unstarted H2" "olm \<Longrightarrow> olm_answered H2"
    then show "and_then (Q H2) (\<lambda>olm. hwp (start_request fl) S Q
        (go_try (call (?b2 olm) as_unit) (\<lambda>_. Ret (Inr (rc\<lparr>hasOLMAPI := olm\<rparr>)))) H2) (Done olm)"
      unfolding and_then_simps using that by (intro second) (auto intro: acknowledged_mono)
  qed (use that in \<open>auto simp: start_request_def split: request.split\<close>)
  show ?thesis
    unfolding SetupWithManager_def csv_watches_def [symmetric] hwp_go_try [of _ _ _ "call ?b1 as_unit"] hwp_call and_then_simps
    using assms(2) by (auto simp: subset_insertI split: sum.split intro!: build assms(3) olm)
qed

lemma hwp_start:
  assumes "manager_made fl H" "unstarted H" "controllers_built H olm"
  shows "hwp (start_request fl) S exit_code
      (or_exit (call (AddHealthzCheck ''healthz'') as_unit) (\<lambda>_.
       or_exit (call (AddReadyzCheck ''readyz'') as_unit) (\<lambda>_.
       or_exit (call StartManager as_unit) (\<lambda>_. Ret 0)))) H"
proof -
  have keep: "manager_made fl H'" "controllers_built H' olm" if "H \<subseteq> H'" for H'
    using manager_made_mono [OF assms(1) that] assms(3) acknowledged_mono [OF _ that]
    by (auto simp: controllers_built_def olm_answered_def)
  have start: "start_request fl H' StartManager"
    if "H \<subseteq> H'" "acknowledged H' (AddHealthzCheck ''healthz'')" "acknowledged H' (AddReadyzCheck ''readyz'')" for H'
    using keep [OF that(1)] that(2,3) by (auto simp: start_request_def)
  show ?thesis
    using assms(2)
    by (auto simp: hwp_or_exit hwp_call start_request_def [of _ _ "AddHealthzCheck _"]
        start_request_def [of _ _ "AddReadyzCheck _"] exit_code_def unstarted_def acknowledged_def
        split: sum.split intro!: start)
qed

text \<open>The rest of \<open>main\<close> once there is a manager.\<close>

abbreviation serve :: "nat proc" where
  "serve \<equiv> or_exit (call (AddHealthzCheck ''healthz'') as_unit) (\<lambda>_.
     or_exit (call (AddReadyzCheck ''readyz'') as_unit) (\<lambda>_. or_exit (call StartManager as_unit) (\<lambda>_. Ret 0)))"

lemma hwp_controllers:
  assumes "manager_made fl H" "unstarted H"
  shows "hwp (start_request fl) S exit_code (or_exit (SetupWithManager rc) (\<lambda>_. serve)) H"
  unfolding hwp_or_exit [of _ _ _ "SetupWithManager rc"]
proof (rule hwp_SetupWithManager [OF assms])
  fix H' rc'
  assume "H \<subseteq> H'" "unstarted H'" "controllers_built H' (hasOLMAPI rc')"
  then show "and_then (exit_code H') (\<lambda>x. case x of Inl e \<Rightarrow> exit_code H' (Done 1)
      | Inr _ \<Rightarrow> hwp (start_request fl) S exit_code serve H') (Done (Inr rc'))"
    unfolding and_then_simps sum.case by (intro hwp_start manager_made_mono [OF assms(1)])
qed (simp_all add: unstarted_exit [simplified])

lemma hwp_manager:
  assumes "scoped_manager fl H opts" "unstarted H"
  shows "hwp (start_request fl) S exit_code
      (or_exit (call (NewManager opts) as_unit) (\<lambda>_. or_exit (SetupWithManager rc) (\<lambda>_. serve))) H"
proof -
  have "manager_made fl (insert (NewManager opts, r) H)" if "as_unit r = Inr ()" for r
    using assms(1) that
    unfolding manager_made_def scoped_manager_def by (auto intro!: exI [of _ opts] intro: operator_namespace_read_mono)
  then show ?thesis
    unfolding hwp_or_exit [of _ _ _ "call (NewManager opts) as_unit"] hwp_call and_then_simps
    using assms by (auto simp: start_request_def unstarted_exit [simplified] split: sum.split intro!: hwp_controllers)
qed

definition namespace_answer :: "history \<Rightarrow> (err + string) outcome \<Rightarrow> bool" where
  "namespace_answer H oc \<longleftrightarrow>
     unstarted H \<and> (\<exists>x. oc = Done x \<and> (\<forall>ns. x = Inr ns \<longrightarrow> operator_namespace_read H ns \<and> ns \<noteq> []))"

lemma hwp_namespace: "hwp (start_request fl) S namespace_answer GetOperatorNamespace {}"
  by (auto simp: GetOperatorNamespace_def check_operator_namespace_def proc_simps start_request_def namespace_answer_def
      unstarted_def operator_namespace_read_def split: option.split sum.split dest!: as_env_SomeD as_file_InrD)

lemma scoped_options:
  "operator_namespace_read H ns \<Longrightarrow> ns \<noteq> [] \<Longrightarrow> scoped_manager fl H (NewNSSCache [ns] (flag_options fl))"
  using NewNSSCache_scoped [of ns] by (auto simp: scoped_manager_def options_for_def flag_options_def)

lemma hwp_main: "hwp (start_request fl) S exit_code (main fl) {}"
  unfolding main_def hwp_or_exit [of _ _ _ GetOperatorNamespace]
proof (rule hwp_conseq [OF hwp_namespace])
  let ?main = "\<lambda>ns. or_exit (call (NewManager (NewNSSCache [ns] (flag_options fl))) as_unit)
      (\<lambda>_. or_exit (SetupWithManager \<lparr>hasOLMAPI = False, daemonSetPermissionChecker = None\<rparr>) (\<lambda>_. serve))"
  fix H oc
  assume "namespace_answer H oc"
  then obtain x where oc: "oc = Done x" and H: "unstarted H"
    and x: "\<And>ns. x = Inr ns \<Longrightarrow> operator_namespace_read H ns \<and> ns \<noteq> []"
    by (auto simp: namespace_answer_def)
  show "and_then (exit_code H) (\<lambda>x. case x of Inl e \<Rightarrow> exit_code H (Done 1)
      | Inr ns \<Rightarrow> hwp (start_request fl) S exit_code (?main ns) H) oc"
  proof (cases x)
    case (Inl e)
    then show ?thesis using unstarted_exit [OF H] by (simp add: oc)
  next
    case (Inr ns)
    then show ?thesis
      unfolding oc Inr and_then_simps sum.case using x [OF Inr] by (intro hwp_manager scoped_options H) auto
  qed
qed

text \<open>
  C16: the operator starts within its namespace. Whatever the environment answers, \<open>main\<close> makes
  a manager only after it has read the operator's namespace, and only with a cache that holds no
  object of another namespace (of a namespaced kind); it registers the controllers with a manager that was made, and
  starts the manager only when both controllers and both health checks were accepted. It writes
  nothing to the cluster, never panics and exits, with 0 exactly when the manager ended well.
\<close>

theorem main_starts_scoped:
  "ensures (main fl) (start_request fl) exit_code"
  by (rule ensuresI) (rule hwp_main)

section \<open>Labels\<close>

text \<open>
  C36: the removal finds what the projection wrote, and nothing of the runtime Roles. The selector
  of an instance's removal matches a projected Role or RoleBinding of another (or the same)
  instance exactly when the two have the same label value; it never matches a runtime Role, which
  carries no label, so that no step of the operator ever removes one.
\<close>

theorem removal_selects_projected:
  "labels_match (cleanup_labels inst')
       (omLabels (roleMeta (projected_role roleName (projected_labels inst) sa fromNs toNs rules))) =
     (configmap_label_value inst' = configmap_label_value inst) \<and>
   labels_match (cleanup_labels inst')
       (omLabels (rbMeta (projected_binding roleName (projected_labels inst) sa fromNs toNs))) =
     (configmap_label_value inst' = configmap_label_value inst) \<and>
   \<not> labels_match (cleanup_labels inst') (omLabels (roleMeta (runtime_role rules fromNs toNs)))"
  by (auto simp: labels_match_def cleanup_labels_def projected_role_def projected_binding_def projected_labels_def
      runtime_role_def new_meta_def Let_def)

end
