(* ===== verification/Spec2Isabelle.thy ===== *)
theory Spec2Isabelle
  imports Push_Complete Goroutines Cleanup_Properties Restart_Complete Status_Properties Csv_Complete
    Config_Properties Reconcile_Properties Reconcile_Complete Stored_Name Role_Authority Setup_Properties
begin

text \<open>
  The IBM Namespace Scope Operator.

  \<^bold>\<open>The program.\<close> A \<open>NamespaceScope\<close> resource lists the namespaces that the operators of one
  namespace are to watch. The operator (all of it in \<open>controllers/namespacescope_controller.go\<close>, with
  helpers in \<open>controllers/common\<close> and the resource type in \<open>api/v1\<close>) reconciles it: it validates the
  members, copies (projects) the Roles of the service accounts of the instance's namespace into the
  members with RoleBindings to the copies, keeps a ConfigMap with the list of all members, restarts
  the pods that read that ConfigMap, removes the projected RBAC from namespaces that left the scope,
  makes one runtime Role per member, and records every outcome in the status. A second handler
  injects the ConfigMap into ClusterServiceVersions and puts a namespace selector on the webhook
  configurations they own. Both handlers run whenever a watched object changes; they share no
  memory, and interact through the objects of the API server only.

  \<^bold>\<open>How the code is modelled.\<close> A handler is a value of the type \<open>proc\<close> (\<open>Interaction\<close>): a tree of the
  requests it makes of its environment (Kubernetes client, event recorder, clock, process
  environment, discovery, the order in which a Go set is enumerated), each with a continuation for
  every possible answer, and with \<open>Panic\<close>, \<open>Block\<close> and a channel \<open>Send\<close> as further ends or steps.
  \<open>bind\<close> sequences, \<open>go_try\<close> is \<open>if err != nil { return err }\<close>, errors are values of \<open>err\<close> in a sum.
  Structs are records, pointers that may be nil are options, nil maps are told apart from empty ones
  where the code depends on it. All definitions are structurally recursive and total: there is no
  fuel. \<open>runs E p s tr oc t\<close> is the execution of \<open>p\<close> against an environment \<open>E\<close> that moves from
  state \<open>s\<close> to \<open>t\<close>; \<open>possible\<close> is a run against the environment that may answer anything, and
  \<open>ensures p P Q\<close> says that in all of those every request satisfies \<open>P\<close> of the history before it and
  the outcome satisfies \<open>Q\<close> of the whole history.

  \<^bold>\<open>The theories.\<close> Models, in the order of the code:
  \<^item> \<open>Nss_Prelude\<close>: shared lemmas, label maps, the collections of rewrite rules.
  \<^item> \<open>Go_Strings\<close>, \<open>Go_Time\<close>, \<open>Sha256\<close>: what is used of Go's \<open>strings\<close>, \<open>strconv\<close>, \<open>time\<close>,
    \<open>crypto/sha256\<close>, with 32-bit words in the latter.
  \<^item> \<open>Kube_Objects\<close>: \<open>api/v1/namespacescope_types.go\<close>, \<open>constant/constants.go\<close>, and the fields of the
    Kubernetes and OLM types that the operator reads or writes.
  \<^item> \<open>Interaction\<close>, \<open>History\<close>, \<open>Env_Logic\<close>: processes and runs, and three weakest preconditions, over
    every answer (\<open>wp\<close>), over the history (\<open>hwp\<close>), and over the states of one environment (\<open>ewp\<close>).
  \<^item> \<open>Fork_Join\<close>: goroutines, the wait group and the two buffered channels. The environment chooses
    the schedule (\<open>Schedule\<close>), one goroutine per request; a schedule that ends early is completed in
    order, so that every interleaving is possible and each run ends. \<open>Goroutines\<close> has the small-step
    semantics of goroutines and the proof that the schedules give exactly its executions that return
    or panic, which is why the model of the scheduler may be trusted.
  \<^item> \<open>Util_Functions\<close> (\<open>common/util.go\<close>), \<open>Rules_Filter\<close> (\<open>rulesFilter\<close> and its helpers),
    \<open>Namespace_Status\<close> (defaults, validation, status, history), \<open>Pod_Restart\<close> (\<open>RestartPods\<close>, the
    permission check), \<open>ConfigMap_Sync\<close> (\<open>UpdateConfigMap\<close>), \<open>Rbac_Projection\<close>
    (\<open>PushRbacToNamespace\<close> and all below it, runtime Roles), \<open>Rbac_Cleanup\<close> (both removals),
    \<open>Csv_Injection\<close> (\<open>CSVReconcile\<close>, webhooks), \<open>Reconcile_Loop\<close> (\<open>Reconcile\<close>), \<open>Operator_Setup\<close>
    (\<open>common/cache.go\<close>, \<open>SetupWithManager\<close> with what each controller owns, is for and watches, the
    filters of these, and its handler, \<open>main.go\<close>).
  \<^item> \<open>Library_Params\<close>: the pure third-party functions (\<open>controllerutil\<close>, \<open>equality.Semantic\<close>) as the
    record \<open>pkg\<close>, an argument of every definition that calls one.

  \<^bold>\<open>What is shown.\<close>
  \<^item> \<open>Rules_Filter\<close>: the projected rules allow a request exactly when the source and the operator's own
    Role do in the sense of the RBAC authorizer's matching; wildcards never widen.
  \<^item> \<open>Rbac_Properties\<close>, \<open>Push_Complete\<close>: least privilege of every write of the projection under every
    interleaving; that no goroutine waits forever; that strict success means everything was done.
    \<open>Goroutines\<close>: no send of the projection ever finds its channel full.
  \<^item> \<open>Cleanup_Properties\<close>: what is deleted, where and on what grounds, and what success means; a removal
    that the API server forbids is skipped, and counts as dealt with (\<open>removed_or_forbidden\<close>).
  \<^item> \<open>Status_Properties\<close>, \<open>Restart_Properties\<close>, \<open>Config_Properties\<close>, \<open>Csv_Properties\<close>: the functional
    contract, the confinement and the panics of each operation; \<open>Restart_Complete\<close>: what success of
    the restarts means, for pods, Deployments, DaemonSets and StatefulSets (which are not restarted),
    also as a part of what success of \<open>UpdateConfigMap\<close> means;
    \<open>Csv_Complete\<close>: what success of the second handler means.
  \<^item> \<open>Reconcile_Properties\<close>, \<open>Reconcile_Confined\<close>: the finalizer goes last, every outcome is recorded,
    every write of the handler belongs to one of its steps. \<open>Reconcile_Complete\<close> composes what the
    steps promise: a run that reports success has done all of them, and the unprojected Roles in the
    status are those that its own push reported. \<open>Stored_Name\<close>: after that the handler goes by the
    instance as it is stored, without defaults. \<open>Sample_Run\<close>, \<open>Sample_Deletion\<close> and \<open>Sample_Unnamed\<close>
    execute the handler in the logic, against \<open>Cluster\<close>: a reconciliation, a deletion, and a
    reconciliation of an instance without a name for its ConfigMap, so that such runs are seen to exist.
  \<^item> \<open>Cluster\<close>: a concrete API server that stores objects of every kind under kind, namespace and
    name, executable, on which the contracts are discharged.
  \<^item> \<open>Convergence\<close>: against an API server that keeps its objects (the locale \<open>api_server\<close>)
    \<open>UpdateConfigMap\<close> reaches its goal and then stays silent.
  \<^item> \<open>Operator_Runs\<close>: the operator as a state machine of both handlers, each run for any key and with
    any outcome. The locale \<open>object_server\<close> follows one part of the stored objects; a set of parts
    closed under the writes of the handlers is kept in all reachable states. Followed here: statuses.
    The locale \<open>placed_server\<close> extends it by answers that have the kind, the name and the namespace asked for.
  \<^item> \<open>Role_Authority\<close>: the same for what Roles allow where and under which name, what RoleBindings bind
    whom to where, and the scopes of instances. The inductive closure \<open>spread\<close> says how authority may
    pass from the namespace of an instance to a member; no reachable state has any beyond it.
  \<^item> \<open>Setup_Properties\<close>: the order of the start, the scope of the cache, and that the removal selects
    what the projection labelled.

  \<^bold>\<open>Interfaces.\<close> The shared contracts are locales: what goroutines may do and tell (\<open>Fork_Join\<close>), the
  encoding of the list in the ConfigMap (\<open>Config_Properties\<close>), the API servers above. Each is interpreted on definitions of the model. \<open>pkg_ok\<close> states the documented
  behaviour of the functions of \<open>pkg\<close> that a property relies on, and \<open>std_pkg\<close> satisfies it.

  \<^bold>\<open>Bounds.\<close> Go's \<open>int\<close> is used for slice lengths and loop counters only and is a \<open>nat\<close>; durations
  and instants are integers of nanoseconds; SHA-256 works on 32-bit words with wrap-around.

  \<^bold>\<open>Not modelled.\<close> Logging (\<open>klog\<close>), which has no effect on the state, and with it all that the licence
  check does with the list it reads. The registration of types with the scheme (\<open>groupversion_info.go\<close>, \<open>init\<close>) and the
  generated deep copies (\<open>zz_generated.deepcopy.go\<close>): HOL values are immutable, and where the code
  depends on aliasing (the patch of a StatefulSet, the labels of a pod template, the instance
  overwritten by a status update) the model writes the result of the sharing out. Parsing of the
  command line: \<open>main\<close> starts from the parsed flags. The work queue, the cache and leader election of
  controller-runtime: the handlers are run for any key at any time, and a cached read may answer
  anything unless a locale says otherwise.
\<close>

end
